(* ===== verification/Trout_Prelude.thy ===== *)
theory Trout_Prelude
  imports Main "HOL-Library.Word"
begin

text \<open>
  Shared vocabulary of the development: the fixed-width C integer types, the C conversions
  between them, byte memory with explicit out-of-range faults, and the ring arithmetic that
  the audio buffers rely on. The collections declared here carry the component proofs:
  \<open>c_conv\<close> (integer conversions), \<open>mem_simps\<close> (byte memory), \<open>ring_simps\<close> (rings).
\<close>

unbundle bit_operations_syntax

named_theorems c_conv
named_theorems mem_simps
named_theorems ring_simps

section \<open>C integer types\<close>

type_synonym u8 = "8 word"
type_synonym u16 = "16 word"
type_synonym u32 = "32 word"
type_synonym u64 = "64 word"
type_synonym size_t = "64 word"
type_synonym bytes = "8 word list"

text \<open>
  A C \<open>int\<close> is a HOL \<open>int\<close> that has passed through \<open>to_int32\<close>; the conversions a C
  compiler inserts are written where the source has them. \<open>int_to_size\<close> is the
  conversion of a (possibly negative) \<open>int\<close> to \<open>size_t\<close>.
\<close>

definition to_int32 :: "int \<Rightarrow> int" where
  "to_int32 x = signed_take_bit 31 x"

definition to_int64 :: "int \<Rightarrow> int" where
  "to_int64 x = signed_take_bit 63 x"

definition size_to_int :: "size_t \<Rightarrow> int" where
  "size_to_int x = to_int32 (uint x)"

definition int_to_size :: "int \<Rightarrow> size_t" where
  "int_to_size x = word_of_int x"

text \<open>C division and remainder truncate towards zero.\<close>

definition c_div :: "int \<Rightarrow> int \<Rightarrow> int" where
  "c_div a b = sgn a * sgn b * (\<bar>a\<bar> div \<bar>b\<bar>)"

text \<open>The compiler's bit count of a 32 bit word.\<close>

definition popcount :: "u32 \<Rightarrow> nat" where
  "popcount w = length (filter (bit w) [0..<32])"

text \<open>The error numbers the code returns, negated as it returns them.\<close>

abbreviation (input) EINVAL :: int where "EINVAL \<equiv> 22"
abbreviation (input) ENOMEM :: int where "ENOMEM \<equiv> 12"
abbreviation (input) ENOSYS :: int where "ENOSYS \<equiv> 38"

lemma to_int32_id [c_conv]: "- (2 ^ 31) \<le> x \<Longrightarrow> x < 2 ^ 31 \<Longrightarrow> to_int32 x = x"
  by (simp add: to_int32_def signed_take_bit_int_eq_self)

lemma to_int32_nat [c_conv]: "n < 2 ^ 31 \<Longrightarrow> to_int32 (int n) = int n"
  by (intro to_int32_id) (simp_all flip: of_nat_less_iff)

lemma to_int32_range: "- (2 ^ 31) \<le> to_int32 x" "to_int32 x < 2 ^ 31"
  using signed_take_bit_int_greater_eq_minus_exp [of 31 x] signed_take_bit_int_less_exp [of 31 x]
  by (simp_all add: to_int32_def)

lemma to_int32_eq_iff: "to_int32 x = x \<longleftrightarrow> - (2 ^ 31) \<le> x \<and> x < 2 ^ 31"
  using to_int32_range [of x] to_int32_id [of x] by metis

lemma to_int64_id [c_conv]: "- (2 ^ 63) \<le> x \<Longrightarrow> x < 2 ^ 63 \<Longrightarrow> to_int64 x = x"
  by (simp add: to_int64_def signed_take_bit_int_eq_self)

lemma size_to_int_small [c_conv]:
  assumes "unat x < 2 ^ 31"
  shows "size_to_int x = int (unat x)"
proof -
  have "int (unat x) < int (2 ^ 31)" using assms by (simp only: of_nat_less_iff)
  then have "uint x < 2 ^ 31" by simp
  moreover have "- (2 ^ 31) \<le> uint x" by (rule order_trans [OF _ uint_ge_0]) simp
  ultimately show ?thesis by (simp only: size_to_int_def to_int32_id of_nat_unat)
qed

lemma int_to_size_nat [c_conv]: "int_to_size (int n) = of_nat n"
  by (simp add: int_to_size_def)

lemma unat_of_nat_size [c_conv]: "n < 2 ^ 64 \<Longrightarrow> unat (of_nat n :: size_t) = n"
  by (simp add: unat_of_nat take_bit_nat_eq_self_iff)

lemma unat_sub_le: "b \<le> a \<Longrightarrow> unat (a - b) = unat a - unat b" for a b :: "'a::len word"
  by (simp add: unat_sub_if' word_le_nat_alt)

lemma unat_min: "unat (min a b) = min (unat a) (unat b)" for a b :: "'a::len word"
  by (simp add: min_def word_le_nat_alt)

text \<open>Word arithmetic that does not wrap is arithmetic on \<open>nat\<close>.\<close>

lemma unat_mult_bounded:
  "unat a * unat b < 2 ^ 64 \<Longrightarrow> unat (a * b) = unat a * unat b" for a b :: size_t
  by (subst unat_mult_lem [symmetric]) simp

lemma unat_mult_bounded32:
  "unat a * unat b < 2 ^ 32 \<Longrightarrow> unat (a * b) = unat a * unat b" for a b :: u32
  by (simp add: unat_mult_lem [symmetric])

lemma unat_ucast_u32 [simp]: "unat (ucast x :: size_t) = unat x" for x :: u32
proof -
  have "unat x < 2 ^ 32" using unsigned_less [of x] by simp
  then show ?thesis by (simp add: unsigned_ucast_eq take_bit_nat_eq_self)
qed

lemma unat_ucast_32: "unat w < 2 ^ 32 \<Longrightarrow> unat (ucast (w :: size_t) :: u32) = unat w"
  by (simp add: unsigned_ucast_eq take_bit_nat_eq_self)

lemma unat_add_bounded:
  "unat a + unat b < 2 ^ 64 \<Longrightarrow> unat (a + b) = unat a + unat b" for a b :: size_t
  by (subst unat_add_lem [symmetric]) simp

lemma unat_add_nat_bounded:
  "unat a + k < 2 ^ 64 \<Longrightarrow> unat (a + of_nat k) = unat a + k" for a :: size_t
  by (simp add: unat_add_bounded unat_of_nat_size)

lemma unat_sub_nat_bounded:
  fixes a :: size_t
  assumes "k \<le> unat a"
  shows "unat (a - of_nat k) = unat a - k"
proof -
  have "k < 2 ^ 64" using assms unsigned_less [of a, where ?'a = nat] by simp
  then have k: "unat (of_nat k :: size_t) = k" by (rule unat_of_nat_size)
  then have "of_nat k \<le> a" using assms by (simp add: word_le_nat_alt)
  then show ?thesis by (simp add: unat_sub_le k)
qed

lemma c_div_nonneg: "0 \<le> a \<Longrightarrow> 0 < b \<Longrightarrow> c_div a b = a div b"
  by (cases "a = 0") (auto simp: c_div_def sgn_if)

section \<open>Byte memory\<close>

text \<open>
  \<open>memcpy\<close> between byte arrays. Reading or writing outside either array is undefined in C;
  the model returns \<open>None\<close> there.
\<close>

definition mem_read :: "'a list \<Rightarrow> nat \<Rightarrow> nat \<Rightarrow> 'a list option" where
  "mem_read src off n = (if off + n \<le> length src then Some (take n (drop off src)) else None)"

definition mem_write :: "'a list \<Rightarrow> nat \<Rightarrow> 'a list \<Rightarrow> 'a list option" where
  "mem_write dst off xs =
     (if off + length xs \<le> length dst
      then Some (take off dst @ xs @ drop (off + length xs) dst) else None)"

definition memcpy :: "'a list \<Rightarrow> nat \<Rightarrow> 'a list \<Rightarrow> nat \<Rightarrow> nat \<Rightarrow> 'a list option" where
  "memcpy dst doff src soff n =
     (case mem_read src soff n of None \<Rightarrow> None | Some xs \<Rightarrow> mem_write dst doff xs)"

lemma mem_read_Some [mem_simps]:
  "off + n \<le> length src \<Longrightarrow> mem_read src off n = Some (take n (drop off src))"
  by (simp add: mem_read_def)

lemma mem_write_Some [mem_simps]:
  "off + length xs \<le> length dst \<Longrightarrow>
   mem_write dst off xs = Some (take off dst @ xs @ drop (off + length xs) dst)"
  by (simp add: mem_write_def)

lemma mem_write_length: "mem_write dst off xs = Some ys \<Longrightarrow> length ys = length dst"
  by (auto simp: mem_write_def split: if_splits)

lemma memcpy_Some [mem_simps]:
  assumes "soff + n \<le> length src" and "doff + n \<le> length dst"
  shows "memcpy dst doff src soff n =
           Some (take doff dst @ take n (drop soff src) @ drop (doff + n) dst)"
proof -
  have "length (take n (drop soff src)) = n" using assms(1) by simp
  with assms show ?thesis by (simp add: memcpy_def mem_read_Some mem_write_Some)
qed

lemma memcpy_length: "memcpy dst doff src soff n = Some ys \<Longrightarrow> length ys = length dst"
  by (auto simp: memcpy_def split: option.splits dest: mem_write_length)

lemma nth_splice:
  assumes "off + length xs \<le> length dst" and "j < length dst"
  shows "(take off dst @ xs @ drop (off + length xs) dst) ! j =
           (if off \<le> j \<and> j < off + length xs then xs ! (j - off) else dst ! j)"
  using assms by (auto simp: nth_append min_def)

lemma take_drop_join:
  assumes "a \<le> b"
  shows "take a (drop i xs) @ take (b - a) (drop (i + a) xs) = take b (drop i xs)"
proof -
  have "take (a + (b - a)) (drop i xs) = take a (drop i xs) @ take (b - a) (drop a (drop i xs))"
    by (rule take_add)
  then show ?thesis using assms by (simp add: add.commute)
qed

text \<open>The same for records of \<open>s\<close> bytes each.\<close>

lemma take_drop_join_frames:
  assumes "a \<le> b"
  shows "take (a * s) (drop (i * s) xs) @ take ((b - a) * s) (drop ((i + a) * s) xs) =
           take (b * s) (drop (i * s) xs)"
  using take_drop_join [OF mult_le_mono1 [OF assms], of s "i * s" xs]
  by (simp add: add_mult_distrib diff_mult_distrib)

section \<open>Rings\<close>

text \<open>\<open>ring_slice d t n\<close>: the \<open>n\<close> elements of the ring \<open>d\<close> that start at position \<open>t\<close>.\<close>

definition ring_slice :: "'a list \<Rightarrow> nat \<Rightarrow> nat \<Rightarrow> 'a list" where
  "ring_slice d t n = map (\<lambda>i. d ! ((t + i) mod length d)) [0..<n]"

lemma length_ring_slice [simp]: "length (ring_slice d t n) = n"
  by (simp add: ring_slice_def)

lemma ring_slice_0 [simp]: "ring_slice d t 0 = []"
  by (simp add: ring_slice_def)

lemma nth_ring_slice [ring_simps]: "i < n \<Longrightarrow> ring_slice d t n ! i = d ! ((t + i) mod length d)"
  by (simp add: ring_slice_def)

lemma ring_slice_mod [ring_simps]: "ring_slice d (t mod length d) n = ring_slice d t n"
  by (simp add: ring_slice_def mod_add_left_eq)

lemma drop_ring_slice [ring_simps]: "k \<le> n \<Longrightarrow> drop k (ring_slice d t n) = ring_slice d (t + k) (n - k)"
  by (rule nth_equalityI) (simp_all add: nth_ring_slice add.assoc)

lemma take_ring_slice [ring_simps]: "k \<le> n \<Longrightarrow> take k (ring_slice d t n) = ring_slice d t k"
  by (rule nth_equalityI) (simp_all add: nth_ring_slice)

lemma ring_slice_contiguous [ring_simps]:
  "t + n \<le> length d \<Longrightarrow> ring_slice d t n = take n (drop t d)"
  by (rule nth_equalityI) (simp_all add: nth_ring_slice)

text \<open>
  Overwriting the \<open>k\<close> free positions after the slice, without wrapping, appends to it: the
  positions the slice reads are different from the ones written, because fewer than a whole
  turn separates them.
\<close>

lemma ring_slice_append:
  assumes room: "n + length xs \<le> length d" and h: "h = (t + n) mod length d"
    and fits: "h + length xs \<le> length d"
  shows "ring_slice (take h d @ xs @ drop (h + length xs) d) t (n + length xs) =
           ring_slice d t n @ xs"
proof (rule nth_equalityI)
  let ?d = "take h d @ xs @ drop (h + length xs) d"
  have len: "length ?d = length d" using fits by simp
  show "length (ring_slice ?d t (n + length xs)) = length (ring_slice d t n @ xs)" by simp
  fix i assume "i < length (ring_slice ?d t (n + length xs))"
  then have i: "i < n + length xs" by simp
  then have pos: "0 < length d" using room by linarith
  let ?j = "(t + i) mod length d"
  have j: "?j < length d" using pos by simp
  have rd: "ring_slice ?d t (n + length xs) ! i = ?d ! ?j"
    using i len by (simp add: nth_ring_slice)
  show "ring_slice ?d t (n + length xs) ! i = (ring_slice d t n @ xs) ! i"
  proof (cases "i < n")
    case False
    then obtain e where e: "i = n + e" "e < length xs" using i by (metis add_less_cancel_left le_iff_add not_less)
    have "?j = (h + e) mod length d" unfolding h e(1) by (simp add: mod_simps add.assoc)
    also have "\<dots> = h + e" using e(2) fits by simp
    finally have "?j = h + e" .
    then show ?thesis unfolding rd using e fits j by (subst nth_splice) (auto simp: nth_append)
  next
    case True
    have "\<not> (h \<le> ?j \<and> ?j < h + length xs)"
    proof
      assume "h \<le> ?j \<and> ?j < h + length xs"
      then obtain e where e: "?j = h + e" "e < length xs" by (metis add_less_cancel_left le_iff_add)
      have "h + e < length d" using e(2) fits by linarith
      then have "(t + i) mod length d = (t + n + e) mod length d"
        using e(1) unfolding h by (metis mod_add_left_eq mod_less)
      then have "length d dvd (t + n + e) - (t + i)"
        using True by (intro mod_eq_dvd_iff_nat [THEN iffD1]) auto
      moreover have "(t + n + e) - (t + i) < length d" "0 < (t + n + e) - (t + i)"
        using True e(2) room by auto
      ultimately show False using nat_dvd_not_less by blast
    qed
    then have "?d ! ?j = d ! ?j" using fits j by (subst nth_splice) auto
    then show ?thesis unfolding rd using True by (simp add: nth_append nth_ring_slice)
  qed
qed

end
