(* ===== verification/Frame_Fifo.thy ===== *)
theory Frame_Fifo
  imports Trout_Prelude
begin

text \<open>
  The contract the stream threads rely on: a bounded first-in first-out store of fixed-size
  frames. \<open>wr\<close> and \<open>rd\<close> have the types of \<open>audio_vbuffer_write\<close> and
  \<open>audio_vbuffer_read\<close>; the laws say how many frames each call moves and which bytes. The
  lemmas of the locale are about whole sequences of calls, so that the streams need no fact
  about positions in the ring.
\<close>

section \<open>Sequences of calls\<close>

datatype fifo_op = Put bytes size_t | Get size_t

text \<open>
  \<open>fifo_run\<close> performs the calls in order and records the bytes the store accepted and the
  bytes it delivered; a call that does not return makes the run \<open>None\<close>.
\<close>

fun fifo_run ::
    "('q \<Rightarrow> bytes \<Rightarrow> size_t \<Rightarrow> ('q \<times> size_t) option) \<Rightarrow>
     ('q \<Rightarrow> bytes \<Rightarrow> size_t \<Rightarrow> ('q \<times> bytes \<times> size_t) option) \<Rightarrow>
     nat \<Rightarrow> 'q \<Rightarrow> fifo_op list \<Rightarrow> ('q \<times> bytes \<times> bytes) option" where
  "fifo_run wr rd s q [] = Some (q, [], [])"
| "fifo_run wr rd s q (Put buf n # ops) =
     (case wr q buf n of None \<Rightarrow> None
      | Some (q', k) \<Rightarrow>
         (case fifo_run wr rd s q' ops of None \<Rightarrow> None
          | Some (q'', acc, del) \<Rightarrow> Some (q'', take (unat k * s) buf @ acc, del)))"
| "fifo_run wr rd s q (Get n # ops) =
     (case rd q (replicate (unat n * s) 0) n of None \<Rightarrow> None
      | Some (q', out, k) \<Rightarrow>
         (case fifo_run wr rd s q' ops of None \<Rightarrow> None
          | Some (q'', acc, del) \<Rightarrow> Some (q'', acc, take (unat k * s) out @ del)))"

text \<open>The caller's obligations: the memory it passes is as large as the frames it announces.\<close>

fun fifo_op_ok :: "nat \<Rightarrow> fifo_op \<Rightarrow> bool" where
  "fifo_op_ok s (Put buf n) = (unat n * s \<le> length buf \<and> length buf < 2 ^ 64)"
| "fifo_op_ok s (Get n) = (unat n * s < 2 ^ 64)"

section \<open>The contract\<close>

locale frame_fifo =
  fixes wr :: "'q \<Rightarrow> bytes \<Rightarrow> size_t \<Rightarrow> ('q \<times> size_t) option"
    and rd :: "'q \<Rightarrow> bytes \<Rightarrow> size_t \<Rightarrow> ('q \<times> bytes \<times> size_t) option"
    and inv :: "'q \<Rightarrow> bool"
    and contents :: "'q \<Rightarrow> bytes"
    and level :: "'q \<Rightarrow> nat"
    and cap :: "'q \<Rightarrow> nat"
    and fsize :: "'q \<Rightarrow> nat"
  assumes level_le: "inv q \<Longrightarrow> level q \<le> cap q"
    and cap_small: "inv q \<Longrightarrow> cap q < 2 ^ 31"
    and contents_length: "inv q \<Longrightarrow> length (contents q) = level q * fsize q"
    and write_law: "inv q \<Longrightarrow> unat n * fsize q \<le> length buf \<Longrightarrow> length buf < 2 ^ 64 \<Longrightarrow>
      \<exists>q'. wr q buf n = Some (q', of_nat (min (unat n) (cap q - level q))) \<and>
        inv q' \<and> fsize q' = fsize q \<and> cap q' = cap q \<and>
        level q' = level q + min (unat n) (cap q - level q) \<and>
        contents q' = contents q @ take (min (unat n) (cap q - level q) * fsize q) buf"
    and read_law: "inv q \<Longrightarrow> unat n * fsize q \<le> length buf \<Longrightarrow> length buf < 2 ^ 64 \<Longrightarrow>
      \<exists>q'. rd q buf n =
          Some (q', take (min (unat n) (level q) * fsize q) (contents q) @
                    drop (min (unat n) (level q) * fsize q) buf, of_nat (min (unat n) (level q))) \<and>
        inv q' \<and> fsize q' = fsize q \<and> cap q' = cap q \<and> level q' = level q - unat n \<and>
        contents q' = drop (min (unat n) (level q) * fsize q) (contents q)"
begin

lemma unat_moved:
  assumes "inv q"
  shows "unat (of_nat (min n (level q)) :: size_t) = min n (level q)"
    and "unat (of_nat (min n (cap q - level q)) :: size_t) = min n (cap q - level q)"
  using level_le [OF assms] cap_small [OF assms] by (auto intro!: unat_of_nat_size)

lemma write_full: "inv q \<Longrightarrow> level q = cap q \<Longrightarrow> unat n * fsize q \<le> length buf \<Longrightarrow>
    length buf < 2 ^ 64 \<Longrightarrow> \<exists>q'. wr q buf n = Some (q', 0) \<and> contents q' = contents q"
  using write_law [of q n buf] by auto

lemma read_empty: "inv q \<Longrightarrow> level q = 0 \<Longrightarrow> unat n * fsize q \<le> length buf \<Longrightarrow>
    length buf < 2 ^ 64 \<Longrightarrow> \<exists>q'. rd q buf n = Some (q', buf, 0) \<and> contents q' = contents q"
  using read_law [of q n buf] by auto

text \<open>A read moves whole frames: its bytes are a prefix of the contents.\<close>

lemma read_prefix:
  assumes "inv q" "unat n * fsize q \<le> length buf" "length buf < 2 ^ 64" "rd q buf n = Some (q', out, k)"
  shows "take (unat k * fsize q) out @ contents q' = contents q" "inv q'" "fsize q' = fsize q"
proof -
  have l: "min (unat n) (level q) * fsize q \<le> length (contents q)"
    by (simp add: contents_length [OF assms(1)])
  show "take (unat k * fsize q) out @ contents q' = contents q" "inv q'" "fsize q' = fsize q"
    using read_law [OF assms(1-3)] assms(4) l by (auto simp: unat_moved [OF assms(1)])
qed

text \<open>
  Every sequence of well-formed calls returns, and what was accepted leaves in the order in
  which it came: nothing is lost, repeated or reordered.
\<close>

lemma run_conserves:
  assumes "inv q" and "\<forall>x \<in> set ops. fifo_op_ok (fsize q) x"
  shows "\<exists>q' acc del. fifo_run wr rd (fsize q) q ops = Some (q', acc, del) \<and> inv q' \<and>
           fsize q' = fsize q \<and> contents q @ acc = del @ contents q'"
  using assms
proof (induction ops arbitrary: q)
  case Nil
  then show ?case by simp
next
  case (Cons x ops)
  show ?case
  proof (cases x)
    case (Put buf n)
    from Cons.prems(2) Put have "unat n * fsize q \<le> length buf" "length buf < 2 ^ 64" by simp_all
    from write_law [OF Cons.prems(1) this] obtain q1 where
      q1: "wr q buf n = Some (q1, of_nat (min (unat n) (cap q - level q)))" "inv q1" "fsize q1 = fsize q"
        "contents q1 = contents q @ take (min (unat n) (cap q - level q) * fsize q) buf" by blast
    obtain q' acc del where "fifo_run wr rd (fsize q) q1 ops = Some (q', acc, del)" "inv q'"
      "fsize q' = fsize q" "contents q1 @ acc = del @ contents q'"
      using Cons.IH [OF q1(2)] Cons.prems(2) q1(3) by auto
    then show ?thesis using q1 by (simp add: Put unat_moved [OF Cons.prems(1)])
  next
    case (Get n)
    let ?b = "replicate (unat n * fsize q) 0 :: bytes"
    have b: "unat n * fsize q \<le> length ?b" "length ?b < 2 ^ 64" using Cons.prems(2) Get by simp_all
    from read_law [OF Cons.prems(1) this] obtain q1 out k where q1: "rd q ?b n = Some (q1, out, k)"
      by blast
    note pre = read_prefix [OF Cons.prems(1) b q1]
    obtain q' acc del where "fifo_run wr rd (fsize q) q1 ops = Some (q', acc, del)" "inv q'"
      "fsize q' = fsize q" "contents q1 @ acc = del @ contents q'"
      using Cons.IH [OF pre(2)] Cons.prems(2) pre(3) by auto
    then show ?thesis using q1 pre(1) [symmetric] by (simp add: Get)
  qed
qed

end

end
