(* ===== verification/Audio_VBuffer.thy ===== *)
theory Audio_VBuffer
  imports Frame_Fifo
begin

text \<open>
  The frame ring of the audio HAL, \<open>hals/audio/driver/audio_vbuffer.c\<close>: a byte array of
  \<open>frame_count\<close> frames with a write position \<open>head\<close>, a read position \<open>tail\<close> and
  the number of \<open>live\<close> frames. Every operation is the body of one critical section of the
  buffer's lock. The invariant \<open>vb_ok\<close> and the abstraction \<open>vb_contents\<close> (the live
  bytes in order) give the contract of the locale \<open>frame_fifo\<close>, on which the stream
  workers rely.
\<close>

section \<open>State and operations\<close>

record audio_vbuffer =
  data :: bytes
  frame_size :: size_t
  frame_count :: size_t
  head :: size_t
  tail :: size_t
  live :: size_t

text \<open>
  \<open>audio_vbuffer_init\<close>: \<open>None\<close> is the null pointer; \<open>calloc_ok\<close> is whether the
  allocator can serve the request. The size computation wraps as \<open>size_t\<close> does.
\<close>

definition audio_vbuffer_init ::
    "bool \<Rightarrow> audio_vbuffer option \<Rightarrow> size_t \<Rightarrow> size_t \<Rightarrow> audio_vbuffer option \<times> int" where
  "audio_vbuffer_init calloc_ok b fc fs =
     (case b of None \<Rightarrow> (None, - EINVAL)
      | Some v \<Rightarrow>
         let v = v\<lparr>frame_size := fs, frame_count := fc\<rparr>;
             nbytes = fc * fs
         in if \<not> calloc_ok then (Some (v\<lparr>data := []\<rparr>), - ENOMEM)
            else (Some (v\<lparr>data := replicate (unat nbytes) 0, head := 0, tail := 0, live := 0\<rparr>), 0))"

definition audio_vbuffer_destroy :: "audio_vbuffer option \<Rightarrow> audio_vbuffer option \<times> int" where
  "audio_vbuffer_destroy b =
     (case b of None \<Rightarrow> (None, - EINVAL) | Some v \<Rightarrow> (Some (v\<lparr>data := []\<rparr>), 0))"

definition audio_vbuffer_live :: "audio_vbuffer option \<Rightarrow> int" where
  "audio_vbuffer_live b = (case b of None \<Rightarrow> - EINVAL | Some v \<Rightarrow> size_to_int (live v))"

definition audio_vbuffer_dead :: "audio_vbuffer option \<Rightarrow> int" where
  "audio_vbuffer_dead b =
     (case b of None \<Rightarrow> - EINVAL | Some v \<Rightarrow> size_to_int (frame_count v - live v))"

text \<open>
  One iteration of the copy loops. \<open>Fault\<close> is undefined behaviour: an access outside an
  array or the remainder by a zero \<open>frame_count\<close>. \<open>frames\<close> is a C \<open>int\<close>, so the
  \<open>size_t\<close> minimum is converted to \<open>int\<close> and back.
\<close>

datatype 'a iter = Fault | Break | Next 'a

definition vbuffer_write_chunk :: "audio_vbuffer \<Rightarrow> size_t \<Rightarrow> int option" where
  "vbuffer_write_chunk v n =
     (if live v = 0 \<or> tail v < head v
      then Some (size_to_int (min n (frame_count v - head v)))
      else if head v < tail v then Some (size_to_int (min n (tail v - head v)))
      else None)"

definition vbuffer_write_iter ::
    "audio_vbuffer \<Rightarrow> bytes \<Rightarrow> size_t \<Rightarrow> size_t \<Rightarrow> (audio_vbuffer \<times> size_t \<times> size_t) iter" where
  "vbuffer_write_iter v buf written n =
     (case vbuffer_write_chunk v n of
        None \<Rightarrow> Break
      | Some fr \<Rightarrow>
         let frames = int_to_size fr in
         (case memcpy (data v) (unat (head v * frame_size v))
                 buf (unat (written * frame_size v)) (unat (frames * frame_size v)) of
            None \<Rightarrow> Fault
          | Some d \<Rightarrow>
             if frame_count v = 0 then Fault
             else Next (v\<lparr>data := d, live := live v + frames,
                          head := (head v + frames) mod frame_count v\<rparr>,
                        written + frames, n - frames)))"

definition vbuffer_read_chunk :: "audio_vbuffer \<Rightarrow> size_t \<Rightarrow> int option" where
  "vbuffer_read_chunk v n =
     (if live v = frame_count v \<or> head v < tail v
      then Some (size_to_int (min n (frame_count v - tail v)))
      else if tail v < head v then Some (size_to_int (min n (head v - tail v)))
      else None)"

definition vbuffer_read_iter ::
    "audio_vbuffer \<Rightarrow> bytes \<Rightarrow> size_t \<Rightarrow> size_t \<Rightarrow> (audio_vbuffer \<times> bytes \<times> size_t \<times> size_t) iter" where
  "vbuffer_read_iter v buf nread n =
     (case vbuffer_read_chunk v n of
        None \<Rightarrow> Break
      | Some fr \<Rightarrow>
         let frames = int_to_size fr in
         (case memcpy buf (unat (nread * frame_size v))
                 (data v) (unat (tail v * frame_size v)) (unat (frames * frame_size v)) of
            None \<Rightarrow> Fault
          | Some b \<Rightarrow>
             if frame_count v = 0 then Fault
             else Next (v\<lparr>live := live v - frames,
                          tail := (tail v + frames) mod frame_count v\<rparr>,
                        b, nread + frames, n - frames)))"

text \<open>
  The loops: \<open>None\<close> is a run that does not return a value, because it faults or because
  it does not end (a chunk of zero frames would repeat for ever).
\<close>

partial_function (option) vbuffer_write_loop ::
    "audio_vbuffer \<Rightarrow> bytes \<Rightarrow> size_t \<Rightarrow> size_t \<Rightarrow> (audio_vbuffer \<times> size_t) option" where
  "vbuffer_write_loop v buf written n =
     (if n = 0 then Some (v, written)
      else case vbuffer_write_iter v buf written n of
             Fault \<Rightarrow> None
           | Break \<Rightarrow> Some (v, written)
           | Next (v', written', n') \<Rightarrow> vbuffer_write_loop v' buf written' n')"

partial_function (option) vbuffer_read_loop ::
    "audio_vbuffer \<Rightarrow> bytes \<Rightarrow> size_t \<Rightarrow> size_t \<Rightarrow> (audio_vbuffer \<times> bytes \<times> size_t) option" where
  "vbuffer_read_loop v buf nread n =
     (if n = 0 then Some (v, buf, nread)
      else case vbuffer_read_iter v buf nread n of
             Fault \<Rightarrow> None
           | Break \<Rightarrow> Some (v, buf, nread)
           | Next (v', buf', nread', n') \<Rightarrow> vbuffer_read_loop v' buf' nread' n')"

definition audio_vbuffer_write ::
    "audio_vbuffer \<Rightarrow> bytes \<Rightarrow> size_t \<Rightarrow> (audio_vbuffer \<times> size_t) option" where
  "audio_vbuffer_write v buf n = vbuffer_write_loop v buf 0 n"

definition audio_vbuffer_read ::
    "audio_vbuffer \<Rightarrow> bytes \<Rightarrow> size_t \<Rightarrow> (audio_vbuffer \<times> bytes \<times> size_t) option" where
  "audio_vbuffer_read v buf n = vbuffer_read_loop v buf 0 n"

section \<open>Invariant and abstraction\<close>

abbreviation vb_cap :: "audio_vbuffer \<Rightarrow> nat" where
  "vb_cap v \<equiv> unat (frame_count v)"

abbreviation vb_fs :: "audio_vbuffer \<Rightarrow> nat" where
  "vb_fs v \<equiv> unat (frame_size v)"

text \<open>
  The bounds: a capacity that fits the C \<open>int\<close> of \<open>audio_vbuffer_live\<close>, and an array of
  exactly \<open>frame_count\<close> frames. The shape: the write position is \<open>live\<close> frames after
  the read position.
\<close>

definition vb_ok :: "audio_vbuffer \<Rightarrow> bool" where
  "vb_ok v \<longleftrightarrow>
     0 < vb_cap v \<and> vb_cap v < 2 ^ 31 \<and> vb_cap v * vb_fs v < 2 ^ 64 \<and>
     length (data v) = vb_cap v * vb_fs v \<and>
     unat (tail v) < vb_cap v \<and> unat (live v) \<le> vb_cap v \<and>
     unat (head v) = (unat (tail v) + unat (live v)) mod vb_cap v"

definition vb_contents :: "audio_vbuffer \<Rightarrow> bytes" where
  "vb_contents v = ring_slice (data v) (unat (tail v) * vb_fs v) (unat (live v) * vb_fs v)"

definition vb_room :: "audio_vbuffer \<Rightarrow> nat" where
  "vb_room v = vb_cap v - unat (live v)"

lemma vb_okD:
  assumes "vb_ok v"
  shows "0 < vb_cap v" "vb_cap v < 2 ^ 31" "vb_cap v * vb_fs v < 2 ^ 64"
    "length (data v) = vb_cap v * vb_fs v" "unat (tail v) < vb_cap v"
    "unat (live v) \<le> vb_cap v" "unat (head v) = (unat (tail v) + unat (live v)) mod vb_cap v"
    "unat (head v) < vb_cap v"
  using assms by (auto simp: vb_ok_def)

lemma vb_contents_length [simp]: "length (vb_contents v) = unat (live v) * vb_fs v"
  by (simp add: vb_contents_def)

text \<open>Multiplying a frame position by the frame size gives the byte position in the ring.\<close>

lemma frame_pos_mod: "(a mod c) * s = (a * s) mod (c * s)" for a c s :: nat
  by simp

lemma vb_head_byte:
  assumes "vb_ok v"
  shows "unat (head v) * vb_fs v =
    (unat (tail v) * vb_fs v + unat (live v) * vb_fs v) mod length (data v)"
  using vb_okD(4,7) [OF assms] by (simp add: frame_pos_mod add_mult_distrib)

section \<open>One chunk of a write\<close>

lemma size_min_int:
  assumes "b \<le> a" and "unat a < 2 ^ 31"
  shows "size_to_int (min n (a - b)) = int (min (unat n) (unat a - unat b))"
  using assms by (subst size_to_int_small) (auto simp: unat_min unat_sub_le)

lemma write_chunk_full:
  assumes "vb_ok v" and "vb_room v = 0"
  shows "vbuffer_write_chunk v n = None"
proof -
  have l: "unat (live v) = vb_cap v" using assms vb_okD(6) [OF assms(1)] by (simp add: vb_room_def)
  then have "unat (head v) = unat (tail v)" using vb_okD(5,7) [OF assms(1)] by simp
  moreover have "live v \<noteq> 0" using l vb_okD(1) [OF assms(1)] by (metis unat_0 less_irrefl)
  ultimately show ?thesis by (simp add: vbuffer_write_chunk_def word_less_nat_alt)
qed

lemma write_chunk_room:
  assumes ok: "vb_ok v" and room: "0 < vb_room v" and n: "n \<noteq> 0"
  obtains k where "vbuffer_write_chunk v n = Some (int k)" "0 < k" "k \<le> unat n"
    "k \<le> vb_room v" "unat (head v) + k \<le> vb_cap v"
proof -
  note b = vb_okD [OF ok]
  let ?h = "unat (head v)" and ?t = "unat (tail v)" and ?l = "unat (live v)" and ?c = "vb_cap v"
  have l: "?l < ?c" using room by (simp add: vb_room_def)
  have n': "0 < unat n" using n by (simp add: unat_gt_0)
  consider (nowrap) "?t + ?l < ?c" "?h = ?t + ?l" | (wrap) "?c \<le> ?t + ?l" "?h = ?t + ?l - ?c"
    using b(5,7) l by (cases "?t + ?l < ?c") (auto simp: mod_if)
  then show ?thesis
  proof cases
    case nowrap
    let ?k = "min (unat n) (?c - ?h)"
    have "live v = 0 \<or> tail v < head v"
      using nowrap by (auto simp: word_less_nat_alt unat_eq_0 [symmetric] simp del: unat_eq_0)
    moreover have "head v \<le> frame_count v" using b(8) by (simp add: word_le_nat_alt)
    ultimately have "vbuffer_write_chunk v n = Some (int ?k)"
      using b(2) by (simp add: vbuffer_write_chunk_def size_min_int)
    then show ?thesis using nowrap n' b(8) by (intro that [of ?k]) (auto simp: vb_room_def)
  next
    case wrap
    let ?k = "min (unat n) (?t - ?h)"
    have "?h < ?t" using wrap l b(5) by linarith
    moreover have "live v \<noteq> 0" using wrap b(5) by (auto simp: unat_eq_0)
    ultimately have "vbuffer_write_chunk v n = Some (int ?k)"
      using b(2,5) by (simp add: vbuffer_write_chunk_def word_less_nat_alt word_le_nat_alt size_min_int)
    then show ?thesis using wrap n' l b(5,8) \<open>?h < ?t\<close> by (intro that [of ?k]) (auto simp: vb_room_def)
  qed
qed

lemma frames_bytes_le: "a \<le> c \<Longrightarrow> c * s < 2 ^ 64 \<Longrightarrow> a * s < (2 ^ 64 :: nat)"
  by (meson le_less_trans mult_le_mono1)

lemma unat_frame_index:
  assumes "vb_ok v" and "unat x \<le> vb_cap v"
  shows "unat (x * frame_size v) = unat x * vb_fs v"
  using assms vb_okD(3) frames_bytes_le by (blast intro: unat_mult_bounded)

lemma unat_frames_bytes:
  assumes "vb_ok v" and "k \<le> vb_cap v"
  shows "unat (of_nat k * frame_size v) = k * vb_fs v"
proof -
  have "k < 2 ^ 64" using assms vb_okD(2) [of v] by simp
  then have k: "unat (of_nat k :: size_t) = k" by (rule unat_of_nat_size)
  show ?thesis using unat_frame_index [OF assms(1), of "of_nat k"] assms(2) by (simp add: k)
qed

text \<open>The state after copying \<open>k\<close> frames in, and what it means for the contents.\<close>

definition vb_pushed :: "audio_vbuffer \<Rightarrow> nat \<Rightarrow> bytes \<Rightarrow> audio_vbuffer" where
  "vb_pushed v k xs = v\<lparr>data := take (unat (head v) * vb_fs v) (data v) @ xs @
       drop (unat (head v) * vb_fs v + length xs) (data v),
     live := live v + of_nat k, head := (head v + of_nat k) mod frame_count v\<rparr>"

text \<open>\<open>k\<close> frames with the bytes \<open>xs\<close> fit between the write position and the array's end.\<close>

definition vb_push_fits :: "audio_vbuffer \<Rightarrow> nat \<Rightarrow> bytes \<Rightarrow> bool" where
  "vb_push_fits v k xs \<longleftrightarrow>
     vb_ok v \<and> k \<le> vb_room v \<and> unat (head v) + k \<le> vb_cap v \<and> length xs = k * vb_fs v"

lemma pushed_live:
  assumes "vb_push_fits v k xs"
  shows "unat (live (vb_pushed v k xs)) = unat (live v) + k"
  using assms vb_okD(2,6) [of v]
  by (simp add: vb_push_fits_def vb_pushed_def vb_room_def unat_add_nat_bounded)

lemma pushed_head:
  assumes "vb_push_fits v k xs"
  shows "unat (head (vb_pushed v k xs)) = (unat (tail v) + unat (live v) + k) mod vb_cap v"
proof -
  have ok: "vb_ok v" and fits: "unat (head v) + k \<le> vb_cap v"
    using assms by (simp_all add: vb_push_fits_def)
  have "unat (head v + of_nat k) = unat (head v) + k"
    using fits vb_okD(2) [OF ok] by (intro unat_add_nat_bounded) simp
  then show ?thesis
    by (simp add: vb_pushed_def unat_mod vb_okD(7) [OF ok] mod_simps)
qed

lemma pushed_fits_bytes:
  assumes "vb_push_fits v k xs"
  shows "unat (head v) * vb_fs v + length xs \<le> length (data v)"
proof -
  have "(unat (head v) + k) * vb_fs v \<le> vb_cap v * vb_fs v"
    using assms by (intro mult_le_mono1) (simp add: vb_push_fits_def)
  then show ?thesis using assms
    by (simp add: vb_push_fits_def vb_okD(4) add_mult_distrib)
qed

lemma pushed_ok:
  assumes "vb_push_fits v k xs"
  shows "vb_ok (vb_pushed v k xs)"
proof -
  have "length (data (vb_pushed v k xs)) = length (data v)"
    using pushed_fits_bytes [OF assms] by (simp add: vb_pushed_def)
  moreover have ok: "vb_ok v" and "k \<le> vb_room v" using assms by (simp_all add: vb_push_fits_def)
  ultimately show ?thesis using pushed_live [OF assms] pushed_head [OF assms] vb_okD [OF ok]
    unfolding vb_ok_def by (simp add: vb_pushed_def vb_room_def add.assoc)
qed

lemma pushed_contents:
  assumes "vb_push_fits v k xs"
  shows "vb_contents (vb_pushed v k xs) = vb_contents v @ xs"
proof -
  let ?t = "unat (tail v) * vb_fs v" and ?l = "unat (live v) * vb_fs v"
  have ok: "vb_ok v" and k: "k \<le> vb_room v" and xs: "length xs = k * vb_fs v"
    using assms by (simp_all add: vb_push_fits_def)
  have "(unat (live v) + k) * vb_fs v \<le> vb_cap v * vb_fs v"
    using k vb_okD(6) [OF ok] by (intro mult_le_mono1) (simp add: vb_room_def)
  then have room: "?l + length xs \<le> length (data v)"
    by (simp add: xs vb_okD(4) [OF ok] add_mult_distrib)
  have "unat (live (vb_pushed v k xs)) * vb_fs v = ?l + length xs"
    by (simp add: pushed_live [OF assms] xs add_mult_distrib)
  then show ?thesis
    using ring_slice_append [OF room vb_head_byte [OF ok] pushed_fits_bytes [OF assms]]
    by (simp add: vb_contents_def vb_pushed_def)
qed

lemma write_iter_room:
  assumes ok: "vb_ok v" and room: "0 < vb_room v" and n: "n \<noteq> 0"
    and w: "unat w + unat n < 2 ^ 64" and buf: "(unat w + unat n) * vb_fs v \<le> length buf"
    and len: "length buf < 2 ^ 64"
  obtains k where "0 < k" "k \<le> unat n" "k \<le> vb_room v"
    "vbuffer_write_iter v buf w n =
      Next (vb_pushed v k (take (k * vb_fs v) (drop (unat w * vb_fs v) buf)), w + of_nat k, n - of_nat k)"
    "vb_push_fits v k (take (k * vb_fs v) (drop (unat w * vb_fs v) buf))"
proof -
  obtain k where k: "vbuffer_write_chunk v n = Some (int k)" "0 < k" "k \<le> unat n"
    "k \<le> vb_room v" "unat (head v) + k \<le> vb_cap v"
    using write_chunk_room [OF ok room n] .
  let ?s = "vb_fs v"
  have kc: "k \<le> vb_cap v" using k(4) by (simp add: vb_room_def)
  have rd: "(unat w + k) * ?s \<le> length buf"
    using buf mult_le_mono1 [of "unat w + k" "unat w + unat n" ?s] k(3) by linarith
  then have "unat w * ?s < 2 ^ 64" using len by (simp add: add_mult_distrib)
  then have wb: "unat (w * frame_size v) = unat w * ?s" by (rule unat_mult_bounded)
  have hb: "unat (head v * frame_size v) = unat (head v) * ?s"
    using vb_okD(8) [OF ok] by (intro unat_frame_index [OF ok]) simp
  have kb: "unat (of_nat k * frame_size v) = k * ?s" by (rule unat_frames_bytes [OF ok kc])
  have dst: "unat (head v) * ?s + k * ?s \<le> length (data v)"
    using mult_le_mono1 [OF k(5), of ?s] by (simp add: vb_okD(4) [OF ok] add_mult_distrib)
  have xs: "length (take (k * ?s) (drop (unat w * ?s) buf)) = k * ?s"
    using rd by (simp add: add_mult_distrib)
  have "frame_count v \<noteq> 0" using vb_okD(1) [OF ok] by (metis unat_0 less_irrefl)
  then have "vbuffer_write_iter v buf w n =
      Next (vb_pushed v k (take (k * ?s) (drop (unat w * ?s) buf)), w + of_nat k, n - of_nat k)"
    using rd dst by (simp add: vbuffer_write_iter_def k(1) int_to_size_nat wb hb kb memcpy_Some
        add_mult_distrib vb_pushed_def xs Let_def)
  then show ?thesis using k xs ok by (intro that) (auto simp: vb_push_fits_def)
qed

section \<open>A whole write\<close>

declare vbuffer_write_loop.simps [code] and vbuffer_read_loop.simps [code]

lemma write_loop_spec:
  assumes "vb_ok v" and "unat w + unat n < 2 ^ 64"
    and "(unat w + unat n) * vb_fs v \<le> length buf" and "length buf < 2 ^ 64"
  shows "\<exists>v'. vbuffer_write_loop v buf w n = Some (v', w + of_nat (min (unat n) (vb_room v))) \<and>
      vb_ok v' \<and> frame_size v' = frame_size v \<and> frame_count v' = frame_count v \<and>
      unat (live v') = unat (live v) + min (unat n) (vb_room v) \<and>
      vb_contents v' = vb_contents v @
        take (min (unat n) (vb_room v) * vb_fs v) (drop (unat w * vb_fs v) buf)"
  using assms
proof (induction "unat n" arbitrary: v w n rule: less_induct)
  case less
  note ok = less.prems(1)
  show ?case
  proof (cases "n = 0 \<or> vb_room v = 0")
    case True
    then have "vbuffer_write_loop v buf w n = Some (v, w)"
      using write_chunk_full [OF ok, of n]
      by (auto simp: vbuffer_write_loop.simps [of v buf w n] vbuffer_write_iter_def)
    then show ?thesis using True ok by auto
  next
    case False
    then have room: "0 < vb_room v" and n: "n \<noteq> 0" by auto
    obtain k where k: "0 < k" "k \<le> unat n" "k \<le> vb_room v"
      and it: "vbuffer_write_iter v buf w n =
        Next (vb_pushed v k (take (k * vb_fs v) (drop (unat w * vb_fs v) buf)), w + of_nat k, n - of_nat k)"
        (is "_ = Next (?v1, ?w1, ?n1)")
      and fits: "vb_push_fits v k (take (k * vb_fs v) (drop (unat w * vb_fs v) buf))"
      using write_iter_room [OF ok room n less.prems(2,3,4)] .
    have n1: "unat ?n1 = unat n - k" using k(2) by (rule unat_sub_nat_bounded)
    have w1: "unat ?w1 = unat w + k" using k(2) less.prems(2) by (intro unat_add_nat_bounded) simp
    have same: "frame_size ?v1 = frame_size v" "frame_count ?v1 = frame_count v"
      by (simp_all add: vb_pushed_def)
    have room1: "vb_room ?v1 = vb_room v - k"
      by (simp add: vb_room_def same pushed_live [OF fits])
    have "unat w + k + (unat n - k) = unat w + unat n" using k(2) by simp
    then have "unat ?n1 < unat n" "unat ?w1 + unat ?n1 < 2 ^ 64"
      "(unat ?w1 + unat ?n1) * vb_fs ?v1 \<le> length buf"
      unfolding n1 w1 same using k less.prems(2,3) by simp_all
    from less.hyps [OF this(1) pushed_ok [OF fits] this(2,3) less.prems(4)]
    obtain v' where v': "vbuffer_write_loop ?v1 buf ?w1 ?n1 =
          Some (v', ?w1 + of_nat (min (unat n - k) (vb_room v - k)))"
        "vb_ok v'" "frame_size v' = frame_size v" "frame_count v' = frame_count v"
        "unat (live v') = unat (live v) + k + min (unat n - k) (vb_room v - k)"
        "vb_contents v' = vb_contents ?v1 @
           take (min (unat n - k) (vb_room v - k) * vb_fs v) (drop ((unat w + k) * vb_fs v) buf)"
      unfolding n1 w1 room1 same pushed_live [OF fits] by blast
    let ?m = "min (unat n) (vb_room v)"
    have m: "min (unat n - k) (vb_room v - k) = ?m - k" "k \<le> ?m" using k by auto
    have "take (k * vb_fs v) (drop (unat w * vb_fs v) buf) @
        take ((?m - k) * vb_fs v) (drop ((unat w + k) * vb_fs v) buf) =
        take (?m * vb_fs v) (drop (unat w * vb_fs v) buf)"
      by (rule take_drop_join_frames [OF m(2)])
    moreover have "?w1 + of_nat (?m - k) = w + of_nat ?m" using m(2) by (simp add: of_nat_diff)
    moreover have "vbuffer_write_loop v buf w n = vbuffer_write_loop ?v1 buf ?w1 ?n1"
      using n it by (simp add: vbuffer_write_loop.simps [of v buf w n])
    ultimately show ?thesis using v' m pushed_contents [OF fits] by (intro exI [of _ v']) simp
  qed
qed

section \<open>One chunk of a read\<close>

lemma read_chunk_empty:
  assumes "vb_ok v" and "live v = 0"
  shows "vbuffer_read_chunk v n = None"
proof -
  have "unat (head v) = unat (tail v)" using assms vb_okD(5,7) [OF assms(1)] by simp
  moreover have "frame_count v \<noteq> 0" using vb_okD(1) [OF assms(1)] by (metis unat_0 less_irrefl)
  ultimately show ?thesis using assms(2) by (simp add: vbuffer_read_chunk_def word_less_nat_alt)
qed

lemma read_chunk_live:
  assumes ok: "vb_ok v" and live: "live v \<noteq> 0" and n: "n \<noteq> 0"
  obtains k where "vbuffer_read_chunk v n = Some (int k)" "0 < k" "k \<le> unat n"
    "k \<le> unat (live v)" "unat (tail v) + k \<le> vb_cap v"
proof -
  note b = vb_okD [OF ok]
  let ?h = "unat (head v)" and ?t = "unat (tail v)" and ?l = "unat (live v)" and ?c = "vb_cap v"
  have l: "0 < ?l" and n': "0 < unat n" using live n by (simp_all add: unat_gt_0)
  consider (nowrap) "?t + ?l < ?c" "?h = ?t + ?l" | (wrap) "?c \<le> ?t + ?l" "?h = ?t + ?l - ?c"
    using b(5,6,7) by (cases "?t + ?l < ?c") (auto simp: mod_if)
  then show ?thesis
  proof cases
    case nowrap
    let ?k = "min (unat n) (?h - ?t)"
    have "live v \<noteq> frame_count v" and "tail v \<le> head v" and "tail v < head v"
      using nowrap l by (auto simp: word_less_nat_alt word_le_nat_alt)
    then have "vbuffer_read_chunk v n = Some (int ?k)"
      using b(2,8) by (auto simp: vbuffer_read_chunk_def size_min_int)
    then show ?thesis using nowrap n' l by (intro that [of ?k]) auto
  next
    case wrap
    let ?k = "min (unat n) (?c - ?t)"
    have "live v = frame_count v \<or> head v < tail v"
      using wrap b(5,6) by (auto simp: word_less_nat_alt word_unat_eq_iff)
    moreover have "tail v \<le> frame_count v" using b(5) by (simp add: word_le_nat_alt)
    ultimately have "vbuffer_read_chunk v n = Some (int ?k)"
      using b(2) by (simp add: vbuffer_read_chunk_def size_min_int)
    then show ?thesis using wrap n' b(5) by (intro that [of ?k]) auto
  qed
qed

definition vb_popped :: "audio_vbuffer \<Rightarrow> nat \<Rightarrow> audio_vbuffer" where
  "vb_popped v k = v\<lparr>live := live v - of_nat k, tail := (tail v + of_nat k) mod frame_count v\<rparr>"

definition vb_pop_fits :: "audio_vbuffer \<Rightarrow> nat \<Rightarrow> bool" where
  "vb_pop_fits v k \<longleftrightarrow> vb_ok v \<and> k \<le> unat (live v) \<and> unat (tail v) + k \<le> vb_cap v"

lemma popped_live: "vb_pop_fits v k \<Longrightarrow> unat (live (vb_popped v k)) = unat (live v) - k"
  by (simp add: vb_pop_fits_def vb_popped_def unat_sub_nat_bounded)

lemma popped_tail:
  assumes "vb_pop_fits v k"
  shows "unat (tail (vb_popped v k)) = (unat (tail v) + k) mod vb_cap v"
proof -
  have "unat (tail v + of_nat k) = unat (tail v) + k"
    using assms vb_okD(2) [of v] by (intro unat_add_nat_bounded) (simp add: vb_pop_fits_def)
  then show ?thesis by (simp add: vb_popped_def unat_mod)
qed

lemma popped_ok:
  assumes "vb_pop_fits v k"
  shows "vb_ok (vb_popped v k)"
proof -
  have ok: "vb_ok v" and k: "k \<le> unat (live v)" using assms by (simp_all add: vb_pop_fits_def)
  have "unat (head v) = (unat (tail v) + k + (unat (live v) - k)) mod vb_cap v"
    using k vb_okD(7) [OF ok] by simp
  then have "unat (head v) = ((unat (tail v) + k) mod vb_cap v + (unat (live v) - k)) mod vb_cap v"
    by (simp only: mod_add_left_eq)
  then show ?thesis using popped_live [OF assms] popped_tail [OF assms] vb_okD [OF ok]
    unfolding vb_ok_def by (simp add: vb_popped_def)
qed

lemma popped_contents:
  assumes "vb_pop_fits v k"
  shows "vb_contents (vb_popped v k) = drop (k * vb_fs v) (vb_contents v)"
proof -
  have ok: "vb_ok v" and k: "k \<le> unat (live v)" using assms by (simp_all add: vb_pop_fits_def)
  have "unat (tail (vb_popped v k)) * vb_fs v =
      (unat (tail v) * vb_fs v + k * vb_fs v) mod length (data v)"
    by (simp add: popped_tail [OF assms] vb_okD(4) [OF ok] frame_pos_mod add_mult_distrib)
  moreover have "k * vb_fs v \<le> unat (live v) * vb_fs v" using k by (rule mult_le_mono1)
  ultimately show ?thesis
    using popped_live [OF assms]
    by (simp add: vb_contents_def vb_popped_def drop_ring_slice ring_slice_mod diff_mult_distrib)
qed

lemma contents_chunk:
  assumes "vb_pop_fits v k"
  shows "take (k * vb_fs v) (drop (unat (tail v) * vb_fs v) (data v)) = take (k * vb_fs v) (vb_contents v)"
    and "(unat (tail v) + k) * vb_fs v \<le> length (data v)"
proof -
  have ok: "vb_ok v" and k: "k \<le> unat (live v)" and f: "unat (tail v) + k \<le> vb_cap v"
    using assms by (simp_all add: vb_pop_fits_def)
  show f': "(unat (tail v) + k) * vb_fs v \<le> length (data v)"
    using mult_le_mono1 [OF f, of "vb_fs v"] by (simp add: vb_okD(4) [OF ok])
  have "k * vb_fs v \<le> unat (live v) * vb_fs v" using k by (rule mult_le_mono1)
  then show "take (k * vb_fs v) (drop (unat (tail v) * vb_fs v) (data v)) =
      take (k * vb_fs v) (vb_contents v)"
    using f' by (simp add: vb_contents_def take_ring_slice ring_slice_contiguous add_mult_distrib)
qed

section \<open>A whole read\<close>

lemma read_iter_live:
  assumes ok: "vb_ok v" and live: "live v \<noteq> 0" and n: "n \<noteq> 0"
    and r: "unat r + unat n < 2 ^ 64" and buf: "(unat r + unat n) * vb_fs v \<le> length buf"
    and len: "length buf < 2 ^ 64"
  obtains k where "0 < k" "k \<le> unat n" "k \<le> unat (live v)"
    "vbuffer_read_iter v buf r n =
      Next (vb_popped v k,
            take (unat r * vb_fs v) buf @ take (k * vb_fs v) (vb_contents v) @
              drop ((unat r + k) * vb_fs v) buf, r + of_nat k, n - of_nat k)"
    "vb_pop_fits v k"
proof -
  obtain k where k: "vbuffer_read_chunk v n = Some (int k)" "0 < k" "k \<le> unat n"
    "k \<le> unat (live v)" "unat (tail v) + k \<le> vb_cap v"
    using read_chunk_live [OF ok live n] .
  let ?s = "vb_fs v"
  have fits: "vb_pop_fits v k" using ok k by (simp add: vb_pop_fits_def)
  note ch = contents_chunk [OF fits]
  have kc: "k \<le> vb_cap v" using k(4) vb_okD(6) [OF ok] by simp
  have wr: "(unat r + k) * ?s \<le> length buf"
    using buf mult_le_mono1 [of "unat r + k" "unat r + unat n" ?s] k(3) by linarith
  then have "unat r * ?s < 2 ^ 64" using len by (simp add: add_mult_distrib)
  then have rb: "unat (r * frame_size v) = unat r * ?s" by (rule unat_mult_bounded)
  have tb: "unat (tail v * frame_size v) = unat (tail v) * ?s"
    using vb_okD(5) [OF ok] by (intro unat_frame_index [OF ok]) simp
  have kb: "unat (of_nat k * frame_size v) = k * ?s" by (rule unat_frames_bytes [OF ok kc])
  have "frame_count v \<noteq> 0" using vb_okD(1) [OF ok] by (metis unat_0 less_irrefl)
  then have "vbuffer_read_iter v buf r n = Next (vb_popped v k,
      take (unat r * ?s) buf @ take (k * ?s) (vb_contents v) @ drop ((unat r + k) * ?s) buf,
      r + of_nat k, n - of_nat k)"
    using wr ch by (simp add: vbuffer_read_iter_def k(1) int_to_size_nat rb tb kb memcpy_Some
        add_mult_distrib vb_popped_def Let_def)
  then show ?thesis using k fits by (intro that)
qed

lemma read_loop_spec:
  assumes "vb_ok v" and "unat r + unat n < 2 ^ 64"
    and "(unat r + unat n) * vb_fs v \<le> length buf" and "length buf < 2 ^ 64"
  shows "\<exists>v'. vbuffer_read_loop v buf r n =
        Some (v', take (unat r * vb_fs v) buf @ take (min (unat n) (unat (live v)) * vb_fs v) (vb_contents v) @
                    drop ((unat r + min (unat n) (unat (live v))) * vb_fs v) buf,
              r + of_nat (min (unat n) (unat (live v)))) \<and>
      vb_ok v' \<and> frame_size v' = frame_size v \<and> frame_count v' = frame_count v \<and>
      unat (live v') = unat (live v) - unat n \<and>
      vb_contents v' = drop (min (unat n) (unat (live v)) * vb_fs v) (vb_contents v)"
  using assms
proof (induction "unat n" arbitrary: v buf r n rule: less_induct)
  case less
  note ok = less.prems(1)
  show ?case
  proof (cases "n = 0 \<or> live v = 0")
    case True
    then have "vbuffer_read_loop v buf r n = Some (v, buf, r)"
      using read_chunk_empty [OF ok, of n]
      by (auto simp: vbuffer_read_loop.simps [of v buf r n] vbuffer_read_iter_def)
    then show ?thesis using True ok by auto
  next
    case False
    then have live: "live v \<noteq> 0" and n: "n \<noteq> 0" by auto
    let ?l = "unat (live v)" and ?s = "vb_fs v"
    obtain k where k: "0 < k" "k \<le> unat n" "k \<le> ?l"
      and it: "vbuffer_read_iter v buf r n = Next (vb_popped v k,
            take (unat r * ?s) buf @ take (k * ?s) (vb_contents v) @ drop ((unat r + k) * ?s) buf,
            r + of_nat k, n - of_nat k)" (is "_ = Next (?v1, ?b1, ?r1, ?n1)")
      and fits: "vb_pop_fits v k"
      using read_iter_live [OF ok live n less.prems(2,3,4)] .
    have n1: "unat ?n1 = unat n - k" using k(2) by (rule unat_sub_nat_bounded)
    have r1: "unat ?r1 = unat r + k" using k(2) less.prems(2) by (intro unat_add_nat_bounded) simp
    have same: "frame_size ?v1 = frame_size v" "frame_count ?v1 = frame_count v"
      by (simp_all add: vb_popped_def)
    have wr: "(unat r + k) * ?s \<le> length buf"
      using less.prems(3) mult_le_mono1 [of "unat r + k" "unat r + unat n" ?s] k(2) by linarith
    have kl: "k * ?s \<le> ?l * ?s" using k(3) by (rule mult_le_mono1)
    have lb: "length ?b1 = length buf" using wr kl by (simp add: add_mult_distrib)
    have "unat r + k + (unat n - k) = unat r + unat n" using k(2) by simp
    then have "unat ?n1 < unat n" "unat ?r1 + unat ?n1 < 2 ^ 64"
      "(unat ?r1 + unat ?n1) * vb_fs ?v1 \<le> length ?b1" "length ?b1 < 2 ^ 64"
      unfolding n1 r1 same lb using k less.prems(2,3,4) by simp_all
    from less.hyps [OF this(1) popped_ok [OF fits] this(2,3,4)]
    obtain v' where v': "vbuffer_read_loop ?v1 ?b1 ?r1 ?n1 =
          Some (v', take ((unat r + k) * ?s) ?b1 @
            take (min (unat n - k) (?l - k) * ?s) (drop (k * ?s) (vb_contents v)) @
            drop ((unat r + k + min (unat n - k) (?l - k)) * ?s) ?b1,
            ?r1 + of_nat (min (unat n - k) (?l - k)))"
        "vb_ok v'" "frame_size v' = frame_size v" "frame_count v' = frame_count v"
        "unat (live v') = ?l - k - (unat n - k)"
        "vb_contents v' = drop (min (unat n - k) (?l - k) * ?s) (drop (k * ?s) (vb_contents v))"
      unfolding n1 r1 same popped_live [OF fits] popped_contents [OF fits] by blast
    let ?m = "min (unat n) ?l"
    have m: "min (unat n - k) (?l - k) = ?m - k" "k \<le> ?m" using k by auto
    have b1: "take ((unat r + k) * ?s) ?b1 = take (unat r * ?s) buf @ take (k * ?s) (vb_contents v)"
      "drop ((unat r + k + (?m - k)) * ?s) ?b1 = drop ((unat r + ?m) * ?s) buf"
      using wr kl m(2) by (simp_all add: add_mult_distrib min_absorb2 diff_mult_distrib add.commute)
    have join: "take (k * ?s) (vb_contents v) @ take ((?m - k) * ?s) (drop (k * ?s) (vb_contents v)) =
        take (?m * ?s) (vb_contents v)"
      using take_drop_join_frames [OF m(2), of ?s 0 "vb_contents v"] by simp
    have pos: "?r1 + of_nat (?m - k) = r + of_nat ?m" using m(2) by (simp add: of_nat_diff)
    have "vbuffer_read_loop v buf r n = vbuffer_read_loop ?v1 ?b1 ?r1 ?n1"
      using n it by (simp add: vbuffer_read_loop.simps [of v buf r n])
    also have "\<dots> = Some (v', (take (unat r * ?s) buf @ take (k * ?s) (vb_contents v)) @
        take ((?m - k) * ?s) (drop (k * ?s) (vb_contents v)) @ drop ((unat r + ?m) * ?s) buf,
        r + of_nat ?m)"
      using v'(1) unfolding m(1) b1 pos .
    also have "\<dots> = Some (v', take (unat r * ?s) buf @ take (?m * ?s) (vb_contents v) @
        drop ((unat r + ?m) * ?s) buf, r + of_nat ?m)"
      by (simp only: append_assoc join [symmetric])
    finally have loop: "vbuffer_read_loop v buf r n = \<dots>" .
    have "(?m - k) * ?s + k * ?s = ?m * ?s"
      using m(2) by (simp add: add_mult_distrib [symmetric])
    then have "vb_contents v' = drop (?m * ?s) (vb_contents v)" using v'(6) unfolding m(1) by simp
    moreover have "unat (live v') = ?l - unat n" using v'(5) k(2) by simp
    ultimately show ?thesis using v'(2,3,4) loop by blast
  qed
qed

section \<open>The ring provides the frame store\<close>

abbreviation vb_level :: "audio_vbuffer \<Rightarrow> nat" where
  "vb_level v \<equiv> unat (live v)"

lemma vbuffer_write_spec:
  assumes "vb_ok v" and "unat n * vb_fs v \<le> length buf" and "length buf < 2 ^ 64"
  shows "\<exists>v'. audio_vbuffer_write v buf n =
        Some (v', of_nat (min (unat n) (vb_cap v - vb_level v))) \<and>
      vb_ok v' \<and> vb_fs v' = vb_fs v \<and> vb_cap v' = vb_cap v \<and>
      vb_level v' = vb_level v + min (unat n) (vb_cap v - vb_level v) \<and>
      vb_contents v' = vb_contents v @ take (min (unat n) (vb_cap v - vb_level v) * vb_fs v) buf"
proof -
  have "unat (0::size_t) + unat n < 2 ^ 64" using unsigned_less [of n, where ?'a = nat] by simp
  from write_loop_spec [OF assms(1) this _ assms(3)] assms(2) show ?thesis
    unfolding audio_vbuffer_write_def vb_room_def by (simp, elim exE conjE, metis)
qed

lemma vbuffer_read_spec:
  assumes "vb_ok v" and "unat n * vb_fs v \<le> length buf" and "length buf < 2 ^ 64"
  shows "\<exists>v'. audio_vbuffer_read v buf n =
        Some (v', take (min (unat n) (vb_level v) * vb_fs v) (vb_contents v) @
                  drop (min (unat n) (vb_level v) * vb_fs v) buf, of_nat (min (unat n) (vb_level v))) \<and>
      vb_ok v' \<and> vb_fs v' = vb_fs v \<and> vb_cap v' = vb_cap v \<and>
      vb_level v' = vb_level v - unat n \<and>
      vb_contents v' = drop (min (unat n) (vb_level v) * vb_fs v) (vb_contents v)"
proof -
  have "unat (0::size_t) + unat n < 2 ^ 64" using unsigned_less [of n, where ?'a = nat] by simp
  from read_loop_spec [OF assms(1) this _ assms(3)] assms(2) show ?thesis
    unfolding audio_vbuffer_read_def by (simp, elim exE conjE, metis)
qed

interpretation vb: frame_fifo audio_vbuffer_write audio_vbuffer_read vb_ok vb_contents
    vb_level vb_cap vb_fs
  by unfold_locales
     (auto dest: vb_okD vbuffer_write_spec vbuffer_read_spec)

lemma vb_counters:
  assumes "vb_ok v"
  shows "audio_vbuffer_live (Some v) = int (vb_level v)"
    and "audio_vbuffer_dead (Some v) = int (vb_cap v - vb_level v)"
proof -
  note b = vb_okD [OF assms]
  show "audio_vbuffer_live (Some v) = int (vb_level v)"
    using b(2,6) by (simp only: audio_vbuffer_live_def option.case, intro size_to_int_small) simp
  have d: "unat (frame_count v - live v) = vb_cap v - vb_level v"
    using b(6) by (intro unat_sub_le) (simp add: word_le_nat_alt)
  show "audio_vbuffer_dead (Some v) = int (vb_cap v - vb_level v)"
    using b(2) d by (simp only: audio_vbuffer_dead_def option.case, subst size_to_int_small) simp_all
qed

section \<open>Properties\<close>

text \<open>A small ring for the witnesses: three frames of two bytes, one of them live, wrapped.\<close>

definition vb_example :: audio_vbuffer where
  "vb_example = \<lparr>data = [1, 2, 3, 4, 5, 6], frame_size = 2, frame_count = 3, head = 0, tail = 2, live = 1\<rparr>"

lemma vb_example_ok: "vb_ok vb_example"
  by (simp add: vb_ok_def vb_example_def)

lemma vb_example_facts [simp]:
  "vb_contents vb_example = [5, 6]" "frame_size vb_example = 2"
  "audio_vbuffer_live (Some vb_example) = 1" "audio_vbuffer_dead (Some vb_example) = 2"
  using vb_counters [OF vb_example_ok]
  by (simp_all add: vb_contents_def vb_example_def ring_slice_def upt_rec)

text \<open>
  C17. On a well-formed ring \<open>audio_vbuffer_write\<close> always returns; it takes as many frames as
  \<open>audio_vbuffer_dead\<close> reports, up to the number offered, appends exactly their bytes to the
  contents, and leaves a well-formed ring whose \<open>live\<close> and \<open>dead\<close> counts moved by that number.
\<close>

theorem vbuffer_write_appends:
  assumes "vb_ok v" and "unat n * unat (frame_size v) \<le> length buf" and "length buf < 2 ^ 64"
  shows "\<exists>v' k. audio_vbuffer_write v buf n = Some (v', k) \<and> vb_ok v' \<and>
    unat k = min (unat n) (nat (audio_vbuffer_dead (Some v))) \<and>
    audio_vbuffer_live (Some v') = audio_vbuffer_live (Some v) + int (unat k) \<and>
    audio_vbuffer_dead (Some v') = audio_vbuffer_dead (Some v) - int (unat k) \<and>
    vb_contents v' = vb_contents v @ take (unat k * unat (frame_size v)) buf"
proof -
  define m where "m = min (unat n) (vb_cap v - vb_level v)"
  obtain v' where v': "audio_vbuffer_write v buf n = Some (v', of_nat m)"
    "vb_ok v'" "vb_cap v' = vb_cap v" "vb_level v' = vb_level v + m"
    "vb_contents v' = vb_contents v @ take (m * vb_fs v) buf"
    using vbuffer_write_spec [OF assms] unfolding m_def by blast
  have k: "unat (of_nat m :: size_t) = m"
    using vb.unat_moved(2) [OF assms(1), of "unat n"] by (simp add: m_def)
  have "int (vb_cap v - (vb_level v + m)) = int (vb_cap v - vb_level v) - int m"
    using vb_okD(6) [OF assms(1)] by (simp add: m_def)
  then show ?thesis
    using v' by (intro exI [of _ v'] exI [of _ "of_nat m"])
       (simp add: vb_counters [OF assms(1)] vb_counters [OF v'(2)] k m_def [symmetric] del: of_nat_unat)
qed

theorem vbuffer_write_appends_witness:
  "\<exists>v' k. audio_vbuffer_write vb_example [7, 8, 9, 10, 11, 12] 3 = Some (v', k) \<and> unat k = 2 \<and>
     vb_contents v' = [5, 6, 7, 8, 9, 10]"
  using vbuffer_write_appends [OF vb_example_ok, of 3 "[7, 8, 9, 10, 11, 12]"]
  by (auto simp del: of_nat_unat)

text \<open>
  C18. On a well-formed ring \<open>audio_vbuffer_read\<close> always returns; it delivers as many frames as
  \<open>audio_vbuffer_live\<close> reports, up to the number asked for: the oldest bytes of the contents, at
  the start of the caller's buffer, whose remaining bytes are untouched.
\<close>

theorem vbuffer_read_delivers:
  assumes "vb_ok v" and "unat n * unat (frame_size v) \<le> length buf" and "length buf < 2 ^ 64"
  shows "\<exists>v' out k. audio_vbuffer_read v buf n = Some (v', out, k) \<and> vb_ok v' \<and>
    unat k = min (unat n) (nat (audio_vbuffer_live (Some v))) \<and>
    out = take (unat k * unat (frame_size v)) (vb_contents v) @ drop (unat k * unat (frame_size v)) buf \<and>
    audio_vbuffer_live (Some v') = audio_vbuffer_live (Some v) - int (unat k) \<and>
    vb_contents v' = drop (unat k * unat (frame_size v)) (vb_contents v)"
proof -
  define m where "m = min (unat n) (vb_level v)"
  obtain v' where v': "audio_vbuffer_read v buf n = Some (v', take (m * vb_fs v) (vb_contents v) @
        drop (m * vb_fs v) buf, of_nat m)"
    "vb_ok v'" "vb_level v' = vb_level v - m" "vb_contents v' = drop (m * vb_fs v) (vb_contents v)"
    using vbuffer_read_spec [OF assms] unfolding m_def by (auto simp: min_def)
  have k: "unat (of_nat m :: size_t) = m"
    using vb.unat_moved(1) [OF assms(1), of "unat n"] by (simp add: m_def)
  have "int (vb_level v - m) = int (vb_level v) - int m" by (simp add: m_def)
  then show ?thesis
    using v' by (intro exI [of _ v'] exI [of _ "of_nat m"] exI)
       (simp add: vb_counters [OF assms(1)] vb_counters [OF v'(2)] k m_def [symmetric] del: of_nat_unat)
qed

theorem vbuffer_read_delivers_witness:
  "\<exists>v' k. audio_vbuffer_read vb_example [0, 0, 0, 0] 2 = Some (v', [5, 6, 0, 0], k) \<and> unat k = 1"
  using vbuffer_read_delivers [OF vb_example_ok, of 2 "[0, 0, 0, 0]"]
  by (auto simp del: of_nat_unat)

text \<open>
  C3. Over any sequence of writes and reads whose buffers are as large as announced, every call
  returns and the ring is a queue: what it held plus what it accepted is what it delivered plus
  what it still holds, in order.
\<close>

theorem vbuffer_stream_conserved:
  assumes "vb_ok v" and "\<forall>x \<in> set ops. fifo_op_ok (unat (frame_size v)) x"
  shows "\<exists>v' acc del.
    fifo_run audio_vbuffer_write audio_vbuffer_read (unat (frame_size v)) v ops = Some (v', acc, del) \<and>
    vb_ok v' \<and> vb_contents v @ acc = del @ vb_contents v'"
  using vb.run_conserves [OF assms] by blast

theorem vbuffer_stream_conserved_witness:
  "\<exists>v' acc del. fifo_run audio_vbuffer_write audio_vbuffer_read 2 vb_example
      [Put [7, 8, 9, 10] 2, Get 2, Put [11, 12] 1, Get 3] = Some (v', acc, del) \<and>
    [5, 6] @ acc = del @ vb_contents v'"
  using vbuffer_stream_conserved [OF vb_example_ok, of "[Put [7, 8, 9, 10] 2, Get 2, Put [11, 12] 1, Get 3]"]
  by auto

lemma vbuffer_init_spec:
  assumes "0 < unat fc" and "unat fc < 2 ^ 31" and "unat fc * unat fs < 2 ^ 64"
  shows "\<exists>v'. audio_vbuffer_init True (Some v) fc fs = (Some v', 0) \<and> vb_ok v' \<and> vb_contents v' = [] \<and>
      audio_vbuffer_live (Some v') = 0 \<and> audio_vbuffer_dead (Some v') = int (unat fc) \<and> frame_size v' = fs"
proof -
  let ?v = "v\<lparr>frame_size := fs, frame_count := fc, data := replicate (unat (fc * fs)) 0,
    head := 0, tail := 0, live := 0\<rparr>"
  have "vb_ok ?v" using assms unat_mult_bounded [OF assms(3)] by (simp add: vb_ok_def)
  moreover have "audio_vbuffer_init True (Some v) fc fs = (Some ?v, 0)"
    by (simp add: audio_vbuffer_init_def Let_def)
  ultimately show ?thesis
    by (intro exI [of _ ?v]) (simp add: vb_counters vb_contents_def)
qed

lemma vbuffer_init_errors:
  "snd (audio_vbuffer_init False (Some v) fc fs) = - ENOMEM" "snd (audio_vbuffer_init ok None fc fs) = - EINVAL"
  by (simp_all add: audio_vbuffer_init_def Let_def)

text \<open>
  \<open>audio_vbuffer_init\<close> on a positive capacity whose bytes do not overflow \<open>size_t\<close> gives a
  well-formed, empty ring with all frames free; on every other path it reports the error number.
\<close>

theorem vbuffer_init_ok:
  assumes "0 < unat fc" and "unat fc < 2 ^ 31" and "unat fc * unat fs < 2 ^ 64"
  shows "\<exists>v'. audio_vbuffer_init True (Some v) fc fs = (Some v', 0) \<and> vb_ok v' \<and> vb_contents v' = [] \<and>
      audio_vbuffer_live (Some v') = 0 \<and> audio_vbuffer_dead (Some v') = int (unat fc) \<and>
      snd (audio_vbuffer_init False (Some v) fc fs) = - ENOMEM \<and>
      snd (audio_vbuffer_init ok None fc fs) = - EINVAL"
  using vbuffer_init_spec [OF assms, of v] vbuffer_init_errors by auto

theorem vbuffer_init_ok_witness:
  "\<exists>v'. audio_vbuffer_init True (Some vb_example) 2880 4 = (Some v', 0) \<and> vb_ok v' \<and>
      audio_vbuffer_dead (Some v') = 2880"
  using vbuffer_init_ok [of 2880 4 vb_example] by (auto simp del: of_nat_unat)

text \<open>
  A ring of capacity zero has no defined transfer: any write or read of at least one frame
  reaches the remainder by \<open>frame_count = 0\<close>, so neither call returns a value.
\<close>

theorem vbuffer_zero_capacity_undefined:
  assumes "frame_count v = 0" and "live v = 0" and "head v = 0" and "tail v = 0" and "n \<noteq> 0"
  shows "audio_vbuffer_write v buf n = None \<and> audio_vbuffer_read v buf n = None"
proof -
  have z: "size_to_int 0 = 0" "int_to_size 0 = 0" "min n (0::size_t) = 0"
    by (simp_all add: size_to_int_def to_int32_def int_to_size_def min_def)
  have "vbuffer_write_iter v buf 0 n = Fault" and "vbuffer_read_iter v buf 0 n = Fault"
    using assms by (simp_all add: vbuffer_write_iter_def vbuffer_write_chunk_def
        vbuffer_read_iter_def vbuffer_read_chunk_def z split: option.splits)
  then show ?thesis
    using assms(5) by (simp_all add: audio_vbuffer_write_def audio_vbuffer_read_def
        vbuffer_write_loop.simps [of v buf 0 n] vbuffer_read_loop.simps [of v buf 0 n])
qed

theorem vbuffer_zero_capacity_undefined_witness:
  "\<exists>v. audio_vbuffer_init True (Some vb_example) 0 4 = (Some v, 0) \<and>
     audio_vbuffer_write v [1, 2, 3, 4] 1 = None"
  by (simp add: audio_vbuffer_init_def Let_def vbuffer_zero_capacity_undefined)

end
