(* ===== verification/C_Strings.thy ===== *)
theory C_Strings
  imports Trout_Prelude
begin

text \<open>
  The C string functions the sources call, as far as they are used: \<open>strcmp\<close>, \<open>strstr\<close>,
  \<open>strncpy\<close> and \<open>strtol\<close> in base 10. A \<open>string\<close> is the memory a \<open>char*\<close> points to;
  the C string in it ends at the first zero byte. \<open>long\<close> has 64 bits on the targets.
\<close>

section \<open>Terminated strings\<close>

abbreviation NUL :: char where "NUL \<equiv> CHR 0x00"

definition c_str :: "string \<Rightarrow> string" where
  "c_str s = takeWhile (\<lambda>c. c \<noteq> NUL) s"

definition strcmp_eq :: "string \<Rightarrow> string \<Rightarrow> bool" where
  "strcmp_eq a b \<longleftrightarrow> c_str a = c_str b"

lemma c_str_idem [simp]: "c_str (c_str s) = c_str s"
  by (simp add: c_str_def)

lemma c_str_id: "NUL \<notin> set s \<Longrightarrow> c_str s = s"
  by (auto simp: c_str_def takeWhile_eq_all_conv)

text \<open>\<open>strstr\<close>: the suffix of the first string at the first occurrence of the second.\<close>

definition has_prefix :: "string \<Rightarrow> string \<Rightarrow> bool" where
  "has_prefix p s \<longleftrightarrow> take (length p) s = p"

fun strstr :: "string \<Rightarrow> string \<Rightarrow> string option" where
  "strstr s p =
     (if has_prefix p s then Some s
      else case s of [] \<Rightarrow> None | _ # s' \<Rightarrow> strstr s' p)"

declare strstr.simps [simp del]

lemma has_prefix_append [simp]: "has_prefix p (p @ s)"
  by (simp add: has_prefix_def)

lemma strstr_Some: "strstr s p = Some t \<Longrightarrow> \<exists>u. s = u @ t \<and> has_prefix p t"
proof (induction s p rule: strstr.induct)
  case (1 s p)
  show ?case
  proof (cases "has_prefix p s")
    case True
    then show ?thesis using "1.prems" by (subst (asm) strstr.simps) auto
  next
    case False
    with "1.prems" obtain c s' where s: "s = c # s'" "strstr s' p = Some t"
      by (subst (asm) strstr.simps) (auto split: list.splits)
    with "1.IH" [OF False, of c s'] obtain u where "s' = u @ t \<and> has_prefix p t" by auto
    then show ?thesis using s by (intro exI [of _ "c # u"]) simp
  qed
qed

lemma strstr_None_append: "strstr (u @ p @ t) p \<noteq> None"
proof (induction u)
  case Nil
  then show ?case by (subst strstr.simps) simp
next
  case (Cons c u)
  then show ?case by (subst strstr.simps) simp
qed

text \<open>
  \<open>strncpy\<close> into a fresh array of \<open>n\<close> characters: at most \<open>n\<close> characters of the string,
  padded with zero bytes; no terminator when the string does not fit.
\<close>

definition strncpy_buf :: "string \<Rightarrow> nat \<Rightarrow> string" where
  "strncpy_buf s n = take n (c_str s) @ replicate (n - length (c_str s)) NUL"

lemma strncpy_buf_length [simp]: "length (strncpy_buf s n) = n"
  by (simp add: strncpy_buf_def)

section \<open>\<open>strtol\<close> in base 10\<close>

definition is_space :: "char \<Rightarrow> bool" where
  "is_space c \<longleftrightarrow> c = CHR '' '' \<or> (9 \<le> (of_char c :: nat) \<and> (of_char c :: nat) \<le> 13)"

definition is_digit :: "char \<Rightarrow> bool" where
  "is_digit c \<longleftrightarrow> 48 \<le> (of_char c :: nat) \<and> (of_char c :: nat) \<le> 57"

definition digit_val :: "char \<Rightarrow> nat" where
  "digit_val c = of_char c - 48"

definition digits_val :: "string \<Rightarrow> nat" where
  "digits_val ds = foldl (\<lambda>n c. 10 * n + digit_val c) 0 ds"

definition LONG_MAX :: int where "LONG_MAX = 2 ^ 63 - 1"
definition LONG_MIN :: int where "LONG_MIN = - (2 ^ 63)"

text \<open>
  The result, the string the end pointer designates, and whether \<open>errno\<close> became
  \<open>ERANGE\<close>. Without digits the result is 0 and the end pointer is the start.
\<close>

definition strtol_sign :: "string \<Rightarrow> bool \<times> string" where
  "strtol_sign t =
     (case t of [] \<Rightarrow> (False, t)
      | c # t' \<Rightarrow> if c = CHR ''-'' then (True, t') else if c = CHR ''+'' then (False, t') else (False, t))"

definition strtol10 :: "string \<Rightarrow> int \<times> string \<times> bool" where
  "strtol10 s0 =
     (let s = c_str s0;
          (neg, u) = strtol_sign (dropWhile is_space s);
          ds = takeWhile is_digit u;
          n = int (digits_val ds);
          x = (if neg then - n else n)
      in if ds = [] then (0, s, False)
         else if LONG_MAX < x then (LONG_MAX, dropWhile is_digit u, True)
         else if x < LONG_MIN then (LONG_MIN, dropWhile is_digit u, True)
         else (x, dropWhile is_digit u, False))"

lemma strtol10_range: "LONG_MIN \<le> fst (strtol10 s) \<and> fst (strtol10 s) \<le> LONG_MAX"
  by (cases "strtol_sign (dropWhile is_space (c_str s))")
     (simp add: strtol10_def Let_def LONG_MAX_def LONG_MIN_def)

section \<open>Decimal numerals\<close>

definition digit_char :: "nat \<Rightarrow> char" where
  "digit_char d = char_of (48 + d)"

fun decimal :: "nat \<Rightarrow> string" where
  "decimal n = (if n < 10 then [digit_char n] else decimal (n div 10) @ [digit_char (n mod 10)])"

declare decimal.simps [simp del]

lemma of_char_digit: "d < 10 \<Longrightarrow> (of_char (digit_char d) :: nat) = 48 + d"
  by (simp add: digit_char_def of_char_of)

lemma digit_char_props:
  assumes "d < 10"
  shows "is_digit (digit_char d)" "digit_val (digit_char d) = d"
  using assms by (simp_all add: is_digit_def digit_val_def of_char_digit)

lemma is_digit_not:
  assumes "is_digit c"
  shows "\<not> is_space c" "c \<noteq> CHR ''-''" "c \<noteq> CHR ''+''" "c \<noteq> NUL"
proof -
  have "48 \<le> (of_char c :: nat)" using assms by (simp add: is_digit_def)
  moreover have "(of_char (CHR '' '') :: nat) = 32" "(of_char (CHR ''-'') :: nat) = 45"
    "(of_char (CHR ''+'') :: nat) = 43" "(of_char NUL :: nat) = 0" by simp_all
  ultimately show "\<not> is_space c" "c \<noteq> CHR ''-''" "c \<noteq> CHR ''+''" "c \<noteq> NUL"
    by (auto simp: is_space_def)
qed

lemma decimal_digits: "list_all is_digit (decimal n) \<and> decimal n \<noteq> []"
proof (induction n rule: decimal.induct)
  case (1 n)
  then show ?case by (subst (1 2) decimal.simps) (simp add: digit_char_props)
qed

lemma digits_val_snoc: "digits_val (ds @ [c]) = 10 * digits_val ds + digit_val c"
  by (simp add: digits_val_def)

lemma digits_val_decimal: "digits_val (decimal n) = n"
proof (induction n rule: decimal.induct)
  case (1 n)
  show ?case
  proof (cases "n < 10")
    case True
    then show ?thesis by (subst decimal.simps) (simp add: digits_val_def digit_char_props)
  next
    case False
    then have "digits_val (decimal n) = 10 * (n div 10) + n mod 10"
      using 1 by (subst decimal.simps) (simp add: digits_val_snoc digit_char_props)
    then show ?thesis by simp
  qed
qed

text \<open>\<open>strtol\<close> reads back a decimal numeral, up to the first character that is no digit.\<close>

lemma takeWhile_digits_append:
  "list_all is_digit ds \<Longrightarrow> takeWhile is_digit (ds @ r) = ds @ takeWhile is_digit r"
  "list_all is_digit ds \<Longrightarrow> dropWhile is_digit (ds @ r) = dropWhile is_digit r"
  by (induction ds) auto

lemma c_str_digits_append: "list_all is_digit ds \<Longrightarrow> c_str (ds @ r) = ds @ c_str r"
  by (induction ds) (auto simp: c_str_def is_digit_not)

lemma strtol10_decimal:
  assumes "takeWhile is_digit (c_str r) = []"
  shows "strtol10 (decimal n @ r) =
    (if int n \<le> LONG_MAX then (int n, c_str r, False) else (LONG_MAX, c_str r, True))"
proof -
  let ?ds = "decimal n"
  have ds: "list_all is_digit ?ds" "?ds \<noteq> []" using decimal_digits by auto
  then obtain c t where ct: "?ds = c # t" "is_digit c" by (cases ?ds) auto
  have s: "c_str (?ds @ r) = ?ds @ c_str r" using ds(1) by (rule c_str_digits_append)
  have r: "dropWhile is_digit (c_str r) = c_str r"
    using assms by (cases "c_str r") (auto split: if_splits)
  have "strtol_sign (dropWhile is_space (?ds @ c_str r)) = (False, ?ds @ c_str r)"
    using ct(1) is_digit_not [OF ct(2)] by (simp add: strtol_sign_def)
  moreover have "\<not> int n < LONG_MIN" by (simp add: LONG_MIN_def)
  ultimately show ?thesis
    using assms ds(2) takeWhile_digits_append [OF ds(1), of "c_str r"]
    by (simp add: strtol10_def s Let_def digits_val_decimal r)
qed

lemma strtol10_no_digits:
  assumes "\<And>c. c \<in> set s \<Longrightarrow> \<not> is_digit c"
  shows "fst (strtol10 s) = 0"
proof -
  have sub: "set (c_str s) \<subseteq> set s" by (auto simp: c_str_def dest: set_takeWhileD)
  let ?t = "dropWhile is_space (c_str s)"
  have "set (snd (strtol_sign ?t)) \<subseteq> set ?t"
    by (auto simp: strtol_sign_def split: list.splits if_splits)
  then have "\<And>c. c \<in> set (snd (strtol_sign ?t)) \<Longrightarrow> \<not> is_digit c"
    using sub assms by (meson set_dropWhileD subsetD)
  then have "takeWhile is_digit (snd (strtol_sign ?t)) = []"
    by (cases "snd (strtol_sign ?t)") auto
  then show ?thesis by (cases "strtol_sign ?t") (simp add: strtol10_def Let_def)
qed

end
