(* ===== verification/C_Hashmap.thy ===== *)
theory C_Hashmap
  imports C_Strings
begin

text \<open>
  The hash map of \<open>libcutils\<close>, which the audio HAL uses and this repository does not contain.
  Its operations are parameters (\<open>hashmap_api\<close>) with the laws its header documents
  (locale \<open>hashmap\<close>); what the header asks of the two callbacks a client passes is the locale
  \<open>hash_keys\<close>. The association list at the end is the instance on which the closed examples
  are evaluated.
\<close>

section \<open>The callbacks\<close>

text \<open>
  A client passes a hash function and an equality on keys; the map works only if the equality is
  an equivalence and equal keys have equal hashes.
\<close>

locale hash_keys =
  fixes hash :: "'k \<Rightarrow> int" and eq :: "'k \<Rightarrow> 'k \<Rightarrow> bool"
  assumes eq_refl: "eq k k"
    and eq_sym: "eq k l \<Longrightarrow> eq l k"
    and eq_trans: "eq k l \<Longrightarrow> eq l m \<Longrightarrow> eq k m"
    and hash_eq: "eq k l \<Longrightarrow> hash k = hash l"
begin

lemma eq_commute: "eq k l = eq l k"
  using eq_sym by blast

lemma eq_left: "eq k l \<Longrightarrow> eq k m = eq l m"
  using eq_sym eq_trans by blast

lemma bucket_of_equal: "eq k l \<Longrightarrow> hash k mod n = hash l mod n"
  by (simp add: hash_eq)

end

section \<open>The operations and their laws\<close>

record ('m, 'v) hashmap_api =
  hashmapCreate :: 'm
  hashmapGet :: "'m \<Rightarrow> string \<Rightarrow> 'v option"
  hashmapPut :: "'m \<Rightarrow> string \<Rightarrow> 'v \<Rightarrow> 'm"
  hashmapRemove :: "'m \<Rightarrow> string \<Rightarrow> 'm"
  hashmapEntries :: "'m \<Rightarrow> (string \<times> 'v) list"

text \<open>
  \<open>hashmapEntries\<close> is the sequence of entries \<open>hashmapForEach\<close> visits, in the order of the
  map's buckets; the order is not documented.
\<close>

locale hashmap =
  fixes api :: "('m, 'v) hashmap_api" and eq :: "string \<Rightarrow> string \<Rightarrow> bool"
  assumes get_create: "hashmapGet api (hashmapCreate api) k = None"
    and get_put: "hashmapGet api (hashmapPut api m k v) l =
      (if eq k l then Some v else hashmapGet api m l)"
    and get_remove: "hashmapGet api (hashmapRemove api m k) l =
      (if eq k l then None else hashmapGet api m l)"
    and entries_get: "(\<exists>k. (k, v) \<in> set (hashmapEntries api m) \<and> eq k l) = (hashmapGet api m l = Some v)"
    and entries_once: "sorted_wrt (\<lambda>a b. \<not> eq (fst a) (fst b)) (hashmapEntries api m)"
    and refl: "eq k k"
    and sym: "eq k l \<Longrightarrow> eq l k"
    and trans: "eq k l \<Longrightarrow> eq l n \<Longrightarrow> eq k n"
begin

lemma get_put_same: "hashmapGet api (hashmapPut api m k v) k = Some v"
  by (simp add: get_put refl)

lemma get_remove_same: "hashmapGet api (hashmapRemove api m k) k = None"
  by (simp add: get_remove refl)

lemma put_remove: "\<not> eq k l \<Longrightarrow>
    hashmapGet api (hashmapRemove api (hashmapPut api m k v) k) l = hashmapGet api m l"
  by (simp add: get_put get_remove)

lemma entry_value: "(k, v) \<in> set (hashmapEntries api m) \<Longrightarrow> hashmapGet api m k = Some v"
  using entries_get refl by blast

lemma entries_create: "hashmapEntries api (hashmapCreate api) = []"
proof (rule ccontr)
  assume "hashmapEntries api (hashmapCreate api) \<noteq> []"
  then obtain k v where "(k, v) \<in> set (hashmapEntries api (hashmapCreate api))"
    by (cases "hashmapEntries api (hashmapCreate api)") auto
  then show False using entry_value get_create by fastforce
qed

lemma get_entry: "hashmapGet api m k = Some v \<Longrightarrow> v \<in> snd ` set (hashmapEntries api m)"
  using entries_get [of v m k] by force

lemma get_cong: "eq a l \<Longrightarrow> hashmapGet api m a = hashmapGet api m l"
proof -
  assume al: "eq a l"
  have "hashmapGet api m l = Some v" if "hashmapGet api m a = Some v" "eq a l" for a l v
  proof -
    obtain k where "(k, v) \<in> set (hashmapEntries api m)" "eq k a"
      using \<open>hashmapGet api m a = Some v\<close> entries_get by blast
    then show ?thesis using trans [OF _ \<open>eq a l\<close>] entries_get by blast
  qed
  note step = this
  show ?thesis
  proof (cases "hashmapGet api m a")
    case None
    then show ?thesis using step [OF _ sym [OF al]] by (cases "hashmapGet api m l") auto
  next
    case (Some v)
    then show ?thesis using step [OF Some al] by simp
  qed
qed

text \<open>A map in which only one key is bound is visited once.\<close>

lemma entries_single:
  assumes a: "hashmapGet api m a = Some v" and only: "\<And>l. hashmapGet api m l \<noteq> None \<Longrightarrow> eq a l"
  shows "\<exists>k. hashmapEntries api m = [(k, v)]"
proof -
  have key: "eq a (fst e) \<and> snd e = v" if "e \<in> set (hashmapEntries api m)" for e
  proof -
    have "hashmapGet api m (fst e) = Some (snd e)" using that by (intro entry_value) simp
    then have e: "eq a (fst e)" using only by simp
    then have "hashmapGet api m a = Some (snd e)"
      using that entries_get [of "snd e" m a] sym by (metis prod.collapse)
    then show ?thesis using e a by simp
  qed
  obtain e es where es: "hashmapEntries api m = e # es"
    using get_entry [OF a] by (cases "hashmapEntries api m") auto
  have "es = []"
  proof (rule ccontr)
    assume "es \<noteq> []"
    then obtain e' es' where e': "es = e' # es'" by (cases es) auto
    then have "\<not> eq (fst e) (fst e')" using entries_once [of m] es by simp
    moreover have "eq a (fst e)" "eq a (fst e')" using key es e' by simp_all
    then have "eq (fst e) (fst e')" using sym trans by blast
    ultimately show False by contradiction
  qed
  then show ?thesis using key [of e] es by (cases e) auto
qed

end

section \<open>An association list with the laws\<close>

fun alist_get :: "(string \<Rightarrow> string \<Rightarrow> bool) \<Rightarrow> (string \<times> 'v) list \<Rightarrow> string \<Rightarrow> 'v option" where
  "alist_get eq [] l = None"
| "alist_get eq ((k, v) # m) l = (if eq k l then Some v else alist_get eq m l)"

text \<open>The entries visited: those that no earlier entry with an equal key hides.\<close>

fun alist_entries :: "(string \<Rightarrow> string \<Rightarrow> bool) \<Rightarrow> (string \<times> 'v) list \<Rightarrow> (string \<times> 'v) list" where
  "alist_entries eq [] = []"
| "alist_entries eq ((k, v) # m) = (k, v) # filter (\<lambda>(l, w). \<not> eq k l) (alist_entries eq m)"

definition alist_api :: "(string \<Rightarrow> string \<Rightarrow> bool) \<Rightarrow> ((string \<times> 'v) list, 'v) hashmap_api" where
  "alist_api eq = \<lparr>hashmapCreate = [], hashmapGet = alist_get eq,
     hashmapPut = (\<lambda>m k v. (k, v) # m),
     hashmapRemove = (\<lambda>m k. filter (\<lambda>(l, v). \<not> eq k l) m),
     hashmapEntries = alist_entries eq\<rparr>"

definition key_equiv :: "(string \<Rightarrow> string \<Rightarrow> bool) \<Rightarrow> bool" where
  "key_equiv eq \<longleftrightarrow> (\<forall>k. eq k k) \<and> (\<forall>k l. eq k l \<longrightarrow> eq l k) \<and>
     (\<forall>k l m. eq k l \<longrightarrow> eq l m \<longrightarrow> eq k m)"

lemma key_equiv_rules:
  assumes "key_equiv eq"
  shows "eq k k" "eq k l \<Longrightarrow> eq l k" "eq k l \<Longrightarrow> eq l n \<Longrightarrow> eq k n"
  using assms unfolding key_equiv_def by blast+

lemma alist_get_filter:
  assumes "key_equiv eq"
  shows "alist_get eq (filter (\<lambda>(l, v). \<not> eq k l) m) l = (if eq k l then None else alist_get eq m l)"
proof (induction m)
  case (Cons e m)
  obtain k0 v0 where e: "e = (k0, v0)" by (cases e)
  have hit: "eq k k0 \<Longrightarrow> eq k0 l = eq k l" using assms unfolding key_equiv_def by metis
  have miss: "\<not> eq k k0 \<Longrightarrow> eq k0 l \<Longrightarrow> \<not> eq k l" using assms unfolding key_equiv_def by metis
  show ?case using hit miss by (cases "eq k k0") (auto simp: e Cons.IH)
qed simp

lemma alist_entries_get:
  assumes "key_equiv eq"
  shows "(\<exists>k. (k, v) \<in> set (alist_entries eq m) \<and> eq k l) = (alist_get eq m l = Some v)"
proof (induction m)
  case (Cons e m)
  obtain k0 v0 where e: "e = (k0, v0)" by (cases e)
  show ?case
  proof (cases "eq k0 l")
    case True
    then have "\<And>k. eq k l \<Longrightarrow> eq k0 k" using assms unfolding key_equiv_def by metis
    with True show ?thesis by (auto simp: e)
  next
    case False
    then have "\<And>k. eq k l \<Longrightarrow> \<not> eq k0 k" using assms unfolding key_equiv_def by metis
    with False show ?thesis using Cons.IH by (auto simp: e)
  qed
qed simp

lemma alist_entries_once: "sorted_wrt (\<lambda>a b. \<not> eq (fst a) (fst b)) (alist_entries eq m)"
proof (induction m)
  case (Cons e m)
  then show ?case by (cases e) (auto intro: sorted_wrt_filter)
qed simp

lemma alist_hashmap:
  assumes "key_equiv eq"
  shows "hashmap (alist_api eq) eq"
proof
  fix v l and m :: "(string \<times> 'v) list"
  show "(\<exists>k. (k, v) \<in> set (hashmapEntries (alist_api eq) m) \<and> eq k l) =
      (hashmapGet (alist_api eq) m l = Some v)"
    by (simp add: alist_api_def alist_entries_get [OF assms])
  fix k
  show "hashmapGet (alist_api eq) (hashmapRemove (alist_api eq) m k) l =
      (if eq k l then None else hashmapGet (alist_api eq) m l)"
    by (simp add: alist_api_def alist_get_filter [OF assms])
  show "sorted_wrt (\<lambda>a b. \<not> eq (fst a) (fst b)) (hashmapEntries (alist_api eq) m)"
    using alist_entries_once by (simp add: alist_api_def)
next
  fix k l n
  show "eq k k" by (rule key_equiv_rules(1) [OF assms])
  show "eq k l \<Longrightarrow> eq l k" by (rule key_equiv_rules(2) [OF assms])
  show "eq k l \<Longrightarrow> eq l n \<Longrightarrow> eq k n" by (rule key_equiv_rules(3) [OF assms])
qed (simp_all add: alist_api_def)

end
