(* ===== verification/Audio_Config.thy ===== *)
theory Audio_Config
  imports C_Hashmap
begin

text \<open>
  The pure parts of \<open>hals/audio/driver/audio_hw.c\<close>: the string keys of its hash maps, the
  parsing of integer parameters and zone numbers, the cached period properties, and the
  negotiation of stream parameters and buffer sizes.
\<close>

section \<open>Keys of the hash maps\<close>

definition str_eq :: "string \<Rightarrow> string \<Rightarrow> bool" where
  "str_eq key_a key_b \<longleftrightarrow> strcmp_eq key_a key_b"

text \<open>
  The djb hash. Whether \<open>char\<close> is signed depends on the target (it is on x86, not on arm64),
  so it is a parameter; the result is the same bits read as an \<open>int\<close>. \<open>None\<close> is the null
  pointer, which the loop condition \<open>p && *p\<close> accepts.
\<close>

definition char_val :: "bool \<Rightarrow> char \<Rightarrow> u32" where
  "char_val char_signed c =
     (let n = (of_char c :: int) in word_of_int (if char_signed \<and> 128 \<le> n then n - 256 else n))"

fun str_hash_loop :: "bool \<Rightarrow> u32 \<Rightarrow> string \<Rightarrow> u32" where
  "str_hash_loop sc hash [] = hash"
| "str_hash_loop sc hash (c # p) =
     (if c = NUL then hash
      else str_hash_loop sc ((push_bit 5 hash + hash) + char_val sc c) p)"

definition str_hash_fn :: "bool \<Rightarrow> string option \<Rightarrow> int" where
  "str_hash_fn sc str =
     sint (case str of None \<Rightarrow> 5381 | Some p \<Rightarrow> str_hash_loop sc 5381 p)"

lemma str_hash_loop_c_str: "str_hash_loop sc h (c_str p) = str_hash_loop sc h p"
  by (induction p arbitrary: h) (auto simp: c_str_def)

lemma str_hash_fn_eq: "str_eq a b \<Longrightarrow> str_hash_fn sc (Some a) = str_hash_fn sc (Some b)"
  unfolding str_hash_fn_def str_eq_def strcmp_eq_def by (metis option.case(2) str_hash_loop_c_str)

interpretation str_keys: hash_keys "\<lambda>s. str_hash_fn sc (Some s)" str_eq for sc
  by unfold_locales (auto simp: str_eq_def strcmp_eq_def intro: str_hash_fn_eq)

interpretation str_map: hashmap "alist_api str_eq" str_eq
  by (rule alist_hashmap) (auto simp: key_equiv_def str_eq_def strcmp_eq_def)

section \<open>Integer parameters\<close>

text \<open>
  \<open>str_parms_get_str\<close> of \<open>libcutils\<close> is a parameter: for a key and a buffer size it gives the
  result code and the value copied into the buffer. \<open>get_int_value\<close> returns its result code and
  the integer it stored, if it stored one.
\<close>

type_synonym str_parms = "string \<Rightarrow> nat \<Rightarrow> int \<times> string"

definition SIZE_OF_PARSE_BUFFER :: nat where "SIZE_OF_PARSE_BUFFER = 32"

definition get_int_value :: "str_parms \<Rightarrow> string \<Rightarrow> int \<times> int option" where
  "get_int_value str_parms_get_str key =
     (let (results, value) = str_parms_get_str key SIZE_OF_PARSE_BUFFER in
      if 0 \<le> results then
        (let (val, end_ptr, erange) = strtol10 value in
         if \<not> erange \<and> end_ptr = [] \<and> to_int32 val = val then (results, Some val)
         else (- EINVAL, None))
      else (results, None))"

section \<open>Zones and tones in bus addresses\<close>

definition AUDIO_ZONE_KEYWORD :: string where "AUDIO_ZONE_KEYWORD = ''_audio_zone_''"
definition TONE_ADDRESS_KEYWORD :: string where "TONE_ADDRESS_KEYWORD = ''_tone_''"

abbreviation (input) PRIMARY_ZONE_ID :: int where "PRIMARY_ZONE_ID \<equiv> 0"
abbreviation (input) INVALID_ZONE_ID :: int where "INVALID_ZONE_ID \<equiv> - 1"
abbreviation (input) DEFAULT_ZONE_TO_LEFT_SPEAKER :: int where "DEFAULT_ZONE_TO_LEFT_SPEAKER \<equiv> PRIMARY_ZONE_ID + 1"

text \<open>
  \<open>strtol\<close> always stores an end pointer, so the test \<open>end == NULL\<close> of the source never holds;
  the \<open>long\<close> it returns is truncated to the \<open>int\<close> \<open>zone_id\<close>.
\<close>

definition get_zone_id_from_address :: "string \<Rightarrow> int" where
  "get_zone_id_from_address address =
     (case strstr (c_str address) AUDIO_ZONE_KEYWORD of
        None \<Rightarrow> INVALID_ZONE_ID
      | Some zone_start \<Rightarrow>
         let zone_id = to_int32 (fst (strtol10 (drop (length AUDIO_ZONE_KEYWORD) zone_start)))
         in if zone_id < 0 then INVALID_ZONE_ID else zone_id)"

text \<open>The zone of an output worker: the first lines of \<open>out_write_worker\<close>.\<close>

definition worker_zone_id :: "string \<Rightarrow> int" where
  "worker_zone_id bus_address =
     (if strstr (c_str bus_address) AUDIO_ZONE_KEYWORD \<noteq> None then
        (let zone_id = get_zone_id_from_address bus_address
         in if zone_id = INVALID_ZONE_ID then DEFAULT_ZONE_TO_LEFT_SPEAKER else zone_id)
      else PRIMARY_ZONE_ID)"

definition address_has_tone_keyword :: "string \<Rightarrow> bool" where
  "address_has_tone_keyword address \<longleftrightarrow> strstr (c_str address) TONE_ADDRESS_KEYWORD \<noteq> None"

definition SIZE_OF_THREAD_NAME_BUFFER :: nat where "SIZE_OF_THREAD_NAME_BUFFER = 16"

text \<open>The buffer \<open>set_shortened_thread_name\<close> passes on; a name of 16 or more has no terminator.\<close>

definition set_shortened_thread_name :: "string \<Rightarrow> string" where
  "set_shortened_thread_name name = strncpy_buf name SIZE_OF_THREAD_NAME_BUFFER"

section \<open>Period properties\<close>

text \<open>
  Android system properties are a parameter: the length \<open>property_get\<close> returns and the value
  \<open>property_get_int32\<close> returns for a default.
\<close>

record properties =
  property_get :: "string \<Rightarrow> int"
  property_get_int32 :: "string \<Rightarrow> int \<Rightarrow> int"

fun audio_get_property :: "properties \<Rightarrow> string list \<Rightarrow> int \<Rightarrow> int" where
  "audio_get_property props [] default_value = default_value"
| "audio_get_property props (k # keys) default_value =
     (if 0 < property_get props k then property_get_int32 props k default_value
      else audio_get_property props keys default_value)"

definition PROP_KEY_OUT_PERIOD_MS :: "string list" where
  "PROP_KEY_OUT_PERIOD_MS = [''ro.boot.vendor.caremu.audiohal.out_period_ms'',
                             ''ro.vendor.caremu.audiohal.out_period_ms'']"
definition PROP_KEY_OUT_PERIOD_COUNT :: "string list" where
  "PROP_KEY_OUT_PERIOD_COUNT = [''ro.boot.vendor.caremu.audiohal.out_period_count'',
                                ''ro.vendor.caremu.audiohal.out_period_count'']"
definition PROP_KEY_IN_PERIOD_MS :: "string list" where
  "PROP_KEY_IN_PERIOD_MS = [''ro.boot.vendor.caremu.audiohal.in_period_ms'',
                            ''ro.vendor.caremu.audiohal.in_period_ms'']"
definition PROP_KEY_IN_PERIOD_COUNT :: "string list" where
  "PROP_KEY_IN_PERIOD_COUNT = [''ro.boot.vendor.caremu.audiohal.in_period_count'',
                               ''ro.vendor.caremu.audiohal.in_period_count'']"

text \<open>The function-local statics that cache the four values; \<open>-1\<close> is "not read yet".\<close>

record period_statics =
  out_period_ms :: int
  out_period_count :: int
  in_period_ms :: int
  in_period_count :: int

definition period_statics_init :: period_statics where
  "period_statics_init = \<lparr>out_period_ms = -1, out_period_count = -1, in_period_ms = -1, in_period_count = -1\<rparr>"

definition get_out_period_ms :: "properties \<Rightarrow> period_statics \<Rightarrow> int \<times> period_statics" where
  "get_out_period_ms props st =
     (let st' = (if out_period_ms st = -1
                 then st\<lparr>out_period_ms := audio_get_property props PROP_KEY_OUT_PERIOD_MS 15\<rparr> else st)
      in (out_period_ms st', st'))"

definition get_out_period_count :: "properties \<Rightarrow> period_statics \<Rightarrow> int \<times> period_statics" where
  "get_out_period_count props st =
     (let st' = (if out_period_count st = -1
                 then st\<lparr>out_period_count := audio_get_property props PROP_KEY_OUT_PERIOD_COUNT 4\<rparr> else st)
      in (out_period_count st', st'))"

definition get_in_period_ms :: "properties \<Rightarrow> period_statics \<Rightarrow> int \<times> period_statics" where
  "get_in_period_ms props st =
     (let st' = (if in_period_ms st = -1
                 then st\<lparr>in_period_ms := audio_get_property props PROP_KEY_IN_PERIOD_MS 15\<rparr> else st)
      in (in_period_ms st', st'))"

definition get_in_period_count :: "properties \<Rightarrow> period_statics \<Rightarrow> int \<times> period_statics" where
  "get_in_period_count props st =
     (let st' = (if in_period_count st = -1
                 then st\<lparr>in_period_count := audio_get_property props PROP_KEY_IN_PERIOD_COUNT 4\<rparr> else st)
      in (in_period_count st', st'))"

section \<open>Negotiation of stream parameters\<close>

text \<open>
  Values of the platform's audio header: the 16 bit PCM format and the stereo input mask.
  \<open>popcount\<close> is the compiler's bit count of a 32 bit mask.
\<close>

abbreviation (input) AUDIO_FORMAT_PCM_16_BIT :: u32 where "AUDIO_FORMAT_PCM_16_BIT \<equiv> 1"
abbreviation (input) AUDIO_CHANNEL_IN_STEREO :: u32 where "AUDIO_CHANNEL_IN_STEREO \<equiv> 0xC"

record audio_config =
  sample_rate :: u32
  channel_mask :: u32
  format :: u32

definition output_sample_rates :: "u32 list" where
  "output_sample_rates = [8000, 11025, 16000, 22050, 24000, 32000, 44100, 48000]"

definition input_sample_rates :: "u32 list" where
  "input_sample_rates = [8000, 11025, 16000, 22050, 44100, 48000]"

text \<open>The search loop over the table: the refined rate and whether it differs from the request.\<close>

fun refine_rate :: "u32 list \<Rightarrow> u32 \<Rightarrow> u32 \<times> bool" where
  "refine_rate [] rate = (rate, False)"
| "refine_rate (s # rates) rate =
     (if rate < s then (s, True)
      else if rate = s then (rate, False)
      else if rates = [] then (s, True)
      else refine_rate rates rate)"

definition refine_parameters :: "u32 list \<Rightarrow> audio_config \<Rightarrow> int \<times> audio_config" where
  "refine_parameters sample_rates config =
     (let (fmt, inval1) = (if format config \<noteq> AUDIO_FORMAT_PCM_16_BIT
                           then (AUDIO_FORMAT_PCM_16_BIT, True) else (format config, False));
          channel_count = popcount (channel_mask config);
          (mask, inval2) = (if channel_count \<noteq> 1 \<and> channel_count \<noteq> 2
                            then (AUDIO_CHANNEL_IN_STEREO, True) else (channel_mask config, False));
          (rate, inval3) = refine_rate sample_rates (sample_rate config)
      in (if inval1 \<or> inval2 \<or> inval3 then - EINVAL else 0,
          config\<lparr>sample_rate := rate, channel_mask := mask, format := fmt\<rparr>))"

definition refine_output_parameters :: "audio_config \<Rightarrow> int \<times> audio_config" where
  "refine_output_parameters config = refine_parameters output_sample_rates config"

definition refine_input_parameters :: "audio_config \<Rightarrow> int \<times> audio_config" where
  "refine_input_parameters config = refine_parameters input_sample_rates config"

text \<open>The bytes of one input period: \<open>uint32_t\<close> arithmetic up to the division, then \<open>size_t\<close>.\<close>

definition get_input_buffer_size ::
    "properties \<Rightarrow> period_statics \<Rightarrow> audio_config \<Rightarrow> size_t \<times> period_statics" where
  "get_input_buffer_size props st config =
     (let channel_count = popcount (channel_mask config);
          (ret, config') = refine_input_parameters config
      in if ret \<noteq> 0 then (0, st)
         else
           (let (period, st') = get_in_period_ms props st;
                size = ucast ((sample_rate config' * word_of_int period) div (1000 :: u32)) :: size_t;
                size = ((size + 15) div 16) * 16
            in (size * (2 * of_nat channel_count), st')))"

section \<open>Lemmas on the negotiation\<close>

lemma refine_rate_spec:
  assumes "sorted_wrt (<) rates" and "rates \<noteq> []"
  shows "fst (refine_rate rates r) \<in> set rates \<and>
    (snd (refine_rate rates r) \<longleftrightarrow> r \<notin> set rates) \<and>
    (r \<in> set rates \<longrightarrow> fst (refine_rate rates r) = r) \<and>
    (\<forall>s \<in> set rates. r \<le> s \<longrightarrow> r \<le> fst (refine_rate rates r) \<and> fst (refine_rate rates r) \<le> s) \<and>
    (last rates < r \<longrightarrow> fst (refine_rate rates r) = last rates)"
  using assms
proof (induction rates)
  case (Cons s rates)
  show ?case
  proof (cases "rates = [] \<or> r \<le> s")
    case True
    moreover have "rates \<noteq> [] \<Longrightarrow> r \<le> s \<Longrightarrow> \<not> last rates < r"
      using Cons.prems(1) by (meson last_in_set less_asym' not_less order_le_less_trans sorted_wrt.simps(2))
    ultimately show ?thesis using Cons.prems by (auto simp: not_le)
  next
    case False
    then show ?thesis using Cons by (auto simp: not_le)
  qed
qed simp

lemma rates_sorted:
  "sorted_wrt (<) output_sample_rates" "sorted_wrt (<) input_sample_rates"
  "output_sample_rates \<noteq> []" "input_sample_rates \<noteq> []"
  "last output_sample_rates = 48000" "last input_sample_rates = 48000"
  by (simp_all add: output_sample_rates_def input_sample_rates_def)

lemma popcount_stereo [simp]: "popcount 0xC = 2"
  by (simp add: popcount_def upt_rec bit_numeral_rec)

text \<open>What a stream may be opened with.\<close>

definition config_supported :: "u32 list \<Rightarrow> audio_config \<Rightarrow> bool" where
  "config_supported rates c \<longleftrightarrow>
     format c = AUDIO_FORMAT_PCM_16_BIT \<and> popcount (channel_mask c) \<in> {1, 2} \<and> sample_rate c \<in> set rates"

lemma refine_parameters_spec:
  assumes "sorted_wrt (<) rates" and "rates \<noteq> []" and "refine_parameters rates c = (ret, c')"
  shows "config_supported rates c'" and "ret = 0 \<longleftrightarrow> config_supported rates c"
    and "ret = 0 \<or> ret = - EINVAL" and "config_supported rates c \<Longrightarrow> c' = c"
    and "sample_rate c' = fst (refine_rate rates (sample_rate c))"
proof -
  note r = refine_rate_spec [OF assms(1,2), of "sample_rate c"]
  have c': "c' = c\<lparr>sample_rate := fst (refine_rate rates (sample_rate c)),
      channel_mask := (if popcount (channel_mask c) \<in> {1, 2} then channel_mask c else 0xC), format := 1\<rparr>"
    using assms(3) by (auto simp: refine_parameters_def Let_def split: prod.splits if_splits)
  show "config_supported rates c'" using r by (auto simp: c' config_supported_def)
  have ret: "ret = (if format c \<noteq> 1 \<or> popcount (channel_mask c) \<notin> {1, 2} \<or> sample_rate c \<notin> set rates
      then - EINVAL else 0)"
    using assms(3) r by (auto simp: refine_parameters_def Let_def split: prod.splits if_splits)
  show "ret = 0 \<longleftrightarrow> config_supported rates c" and "ret = 0 \<or> ret = - EINVAL"
    by (auto simp: ret config_supported_def)
  show "sample_rate c' = fst (refine_rate rates (sample_rate c))" by (simp add: c')
  assume "config_supported rates c"
  then show "c' = c" using r by (simp add: c' config_supported_def)
qed

section \<open>Properties\<close>

text \<open>
  C31. \<open>refine_output_parameters\<close> and \<open>refine_input_parameters\<close> return 0 exactly on the
  supported configurations, which they leave unchanged; otherwise they return \<open>-EINVAL\<close> and
  propose a configuration that a second call accepts, whose rate is the smallest supported rate not
  below the request, or 48000 when the request is above all of them.
\<close>

theorem refine_parameters_correct:
  assumes "(rates, refine) \<in> {(output_sample_rates, refine_output_parameters),
                             (input_sample_rates, refine_input_parameters)}"
    and "refine c = (ret, c')"
  shows "ret = (if config_supported rates c then 0 else - EINVAL) \<and>
    (ret = 0 \<longrightarrow> c' = c) \<and> refine c' = (0, c') \<and> sample_rate c' \<in> set rates \<and>
    (\<forall>s \<in> set rates. sample_rate c \<le> s \<longrightarrow> sample_rate c \<le> sample_rate c' \<and> sample_rate c' \<le> s) \<and>
    (48000 < sample_rate c \<longrightarrow> sample_rate c' = 48000)"
proof -
  have rt: "sorted_wrt (<) rates" "rates \<noteq> []" "last rates = 48000" and ref: "refine = refine_parameters rates"
    using assms(1) rates_sorted
    by (auto simp: fun_eq_iff refine_output_parameters_def refine_input_parameters_def)
  note spec = refine_parameters_spec [OF rt(1,2) assms(2) [unfolded ref]]
  obtain ret' c'' where again: "refine_parameters rates c' = (ret', c'')" by fastforce
  note spec' = refine_parameters_spec [OF rt(1,2) again]
  show ?thesis
    using spec spec'(2,4) again refine_rate_spec [OF rt(1,2), of "sample_rate c"]
    unfolding ref rt(3) by (auto simp: config_supported_def)
qed

theorem refine_parameters_correct_witness:
  "\<exists>ret c'. refine_output_parameters \<lparr>sample_rate = 24001, channel_mask = 0xFF, format = 3\<rparr> = (ret, c') \<and>
     ret = - EINVAL \<and> sample_rate c' = 32000 \<and> refine_output_parameters c' = (0, c')"
proof -
  let ?c = "\<lparr>sample_rate = 24001, channel_mask = 0xFF, format = 3\<rparr> :: audio_config"
  obtain ret c' where r: "refine_output_parameters ?c = (ret, c')" by fastforce
  have "32000 \<in> set output_sample_rates" by (simp add: output_sample_rates_def)
  with refine_parameters_correct [where rates = output_sample_rates and refine = refine_output_parameters, OF _ r] have
    "ret = - EINVAL" "refine_output_parameters c' = (0, c')" "sample_rate c' \<in> set output_sample_rates"
    "24001 \<le> sample_rate c'" "sample_rate c' \<le> 32000"
    by (auto simp: config_supported_def)
  moreover from this have "sample_rate c' = 32000" by (auto simp: output_sample_rates_def)
  ultimately show ?thesis using r by blast
qed

text \<open>Rounding up to whole blocks of 16 frames, in \<open>size_t\<close> arithmetic that does not wrap.\<close>

lemma round_up_16:
  fixes x :: size_t
  assumes "unat x < 2 ^ 32"
  shows "unat (((x + 15) div 16) * 16) = ((unat x + 15) div 16) * 16"
proof -
  have a: "unat (x + 15) = unat x + 15" using assms unat_add_bounded [of x 15] by simp
  have "(unat x + 15) div 16 * 16 \<le> unat x + 15" by simp
  also have "\<dots> < 2 ^ 64" using assms by simp
  finally have "(unat x + 15) div 16 * 16 < 2 ^ 64" .
  then have "unat ((x + 15) div 16) * unat (16 :: size_t) < 2 ^ 64" by (simp add: unat_div a)
  then have "unat (((x + 15) div 16) * 16) = unat ((x + 15) div 16) * unat (16 :: size_t)"
    by (subst unat_mult_lem [symmetric]) simp
  then show ?thesis by (simp add: unat_div a)
qed

lemma block_bounds: "n \<le> (n + 15) div 16 * 16" "(n + 15) div 16 * 16 < n + 16" for n :: nat
  by presburger+

text \<open>
  \<open>get_input_buffer_size\<close> is 0 for an unsupported configuration. For a supported one, with a
  period whose product with the rate fits 32 bits, it is a whole number of 16-frame blocks of
  \<open>2 * channels\<close> bytes, the fewest that hold the frames of one period.
\<close>

theorem input_buffer_size_correct:
  assumes "get_in_period_ms props st = (period, st')" and "0 \<le> period"
    and "unat (sample_rate c) * nat period < 2 ^ 32"
    and "get_input_buffer_size props st c = (sz, st'')"
  shows "if config_supported input_sample_rates c
    then st'' = st' \<and> (\<exists>frames. unat sz = frames * (2 * popcount (channel_mask c)) \<and> 16 dvd frames \<and>
           unat (sample_rate c) * nat period div 1000 \<le> frames \<and>
           frames < unat (sample_rate c) * nat period div 1000 + 16)
    else sz = 0 \<and> st'' = st"
proof -
  obtain ret c' where r: "refine_input_parameters c = (ret, c')" by fastforce
  note spec = refine_parameters_spec [OF rates_sorted(2,4) r [unfolded refine_input_parameters_def]]
  show ?thesis
  proof (cases "config_supported input_sample_rates c")
    case False
    then show ?thesis using spec(2) r assms(4) by (simp add: get_input_buffer_size_def)
  next
    case True
    let ?n = "unat (sample_rate c) * nat period div 1000"
    have c': "c' = c" "ret = 0" using spec True by auto
    have pc: "popcount (channel_mask c) \<in> {1, 2}" using True by (simp add: config_supported_def)
    obtain p where p: "period = int p" using assms(2) nonneg_int_cases by blast
    have "0 < unat (sample_rate c)"
      using True by (auto simp: config_supported_def input_sample_rates_def)
    then have "p \<le> unat (sample_rate c) * p" by simp
    moreover have "unat (sample_rate c) * p < 2 ^ 32" using assms(3) p by simp
    ultimately have "p < 2 ^ 32" by (rule le_less_trans)
    then have pw: "unat (of_nat p :: u32) = p" by (simp add: unsigned_of_nat take_bit_nat_eq_self)
    define x where "x = (ucast ((sample_rate c * of_nat p) div (1000 :: u32)) :: size_t)"
    have "unat (sample_rate c * of_nat p) = unat (sample_rate c) * p"
      using assms(3) p by (subst unat_mult_lem [THEN iffD1]) (simp_all add: pw)
    moreover have n: "?n < 2 ^ 32" using assms(3) by (meson div_le_dividend le_less_trans)
    ultimately have x: "unat x = ?n"
      by (simp add: x_def unsigned_ucast_eq unat_div p take_bit_nat_eq_self)
    let ?f = "(?n + 15) div 16 * 16" and ?ch = "popcount (channel_mask c)"
    have f: "unat ((x + 15) div 16 * 16) = ?f" using round_up_16 [of x] n by (simp add: x)
    have fl: "?f \<le> ?n + 15" by simp
    have chw: "unat (2 * of_nat ?ch :: size_t) = 2 * ?ch" using pc by auto
    have "?f * (2 * ?ch) \<le> (?n + 15) * 4" using fl pc by (intro mult_le_mono) auto
    also have "\<dots> < 2 ^ 64" using n by simp
    finally have "?f * (2 * ?ch) < 2 ^ 64" .
    then have "unat ((x + 15) div 16 * 16 * (2 * of_nat ?ch)) = ?f * (2 * ?ch)"
      by (subst unat_mult_bounded) (simp_all only: f chw)
    moreover have "sz = (x + 15) div 16 * 16 * (2 * of_nat ?ch)" "st'' = st'"
      using assms(1,4) r by (simp_all add: get_input_buffer_size_def c' Let_def x_def p)
    moreover note block_bounds [of ?n]
    moreover have "16 dvd ?f" by simp
    ultimately show ?thesis using True by (simp only: if_True) blast
  qed
qed

theorem input_buffer_size_correct_witness:
  "\<exists>sz st'. get_input_buffer_size \<lparr>property_get = \<lambda>_. 0, property_get_int32 = \<lambda>_ d. d\<rparr> period_statics_init
       \<lparr>sample_rate = 44100, channel_mask = 0xC, format = 1\<rparr> = (sz, st') \<and>
     661 * 4 \<le> unat sz \<and> 64 dvd unat sz"
proof -
  let ?props = "\<lparr>property_get = \<lambda>_. 0, property_get_int32 = \<lambda>_ d. d\<rparr> :: properties"
  let ?c = "\<lparr>sample_rate = 44100, channel_mask = 0xC, format = 1\<rparr> :: audio_config"
  let ?st = "period_statics_init\<lparr>in_period_ms := 15\<rparr>"
  have g: "get_in_period_ms ?props period_statics_init = (15, ?st)"
    by (simp add: get_in_period_ms_def period_statics_init_def PROP_KEY_IN_PERIOD_MS_def Let_def)
  obtain sz st' where b: "get_input_buffer_size ?props period_statics_init ?c = (sz, st')" by fastforce
  have c: "config_supported input_sample_rates ?c"
    by (simp add: config_supported_def input_sample_rates_def)
  obtain f where f: "unat sz = f * 4" "16 dvd f" "661 \<le> f"
    using input_buffer_size_correct [OF g _ _ b] c by auto
  then have "661 * 4 \<le> unat sz" "64 dvd unat sz" by auto
  then show ?thesis using b by blast
qed

lemma decimal_12: "decimal 12 = ''12''"
  by (simp add: decimal.simps digit_char_def char_of_def bit_0)

lemma get_int_value_eq:
  assumes "get key SIZE_OF_PARSE_BUFFER = (r, decimal n @ rest)"
    and "takeWhile is_digit (c_str rest) = []"
  shows "get_int_value get key =
    (if r < 0 then (r, None)
     else if c_str rest = [] \<and> n < 2 ^ 31 then (r, Some (int n)) else (- EINVAL, None))"
proof -
  have "to_int32 (int n) = int n \<longleftrightarrow> n < 2 ^ 31"
    unfolding to_int32_eq_iff by simp
  moreover have "n < 2 ^ 31 \<Longrightarrow> int n \<le> LONG_MAX" by (simp add: LONG_MAX_def)
  ultimately show ?thesis
    using assms(1) strtol10_decimal [OF assms(2), of n] by (simp add: get_int_value_def)
qed

text \<open>
  \<open>get_int_value\<close> on a value that starts with a decimal numeral: it stores the number and
  keeps the lookup's result code exactly when nothing follows the numeral and the number fits an
  \<open>int\<close>; otherwise, overflow of \<open>long\<close> included, it stores nothing and returns \<open>-EINVAL\<close>.
  A failed lookup is passed on.
\<close>

theorem get_int_value_decimal:
  assumes "get key SIZE_OF_PARSE_BUFFER = (r, decimal n @ rest)"
    and "takeWhile is_digit (c_str rest) = []"
  shows "get_int_value get key =
    (if r < 0 then (r, None)
     else if c_str rest = [] \<and> n < 2 ^ 31 then (r, Some (int n)) else (- EINVAL, None))"
  using assms by (rule get_int_value_eq)

theorem get_int_value_decimal_witness:
  "get_int_value (\<lambda>key len. (2, ''12'')) ''k'' = (2, Some 12) \<and>
   get_int_value (\<lambda>key len. (3, ''12x'')) ''k'' = (- EINVAL, None)"
  using get_int_value_decimal [of "\<lambda>key len. (2, ''12'')" "''k''" 2 12 "''''"]
      get_int_value_decimal [of "\<lambda>key len. (3, ''12x'')" "''k''" 3 12 "''x''"]
  by (simp add: decimal_12 c_str_def is_digit_def)

text \<open>
  The zone an output worker plays to. Without the keyword it is the primary zone 0; with the
  keyword followed by a decimal numeral below \<open>2 ^ 31\<close> it is that number. A keyword followed by
  no digit at all also gives the primary zone 0, never the default zone 1 that the worker falls
  back to for an invalid zone, because \<open>strtol\<close> reports such text only through its end pointer.
\<close>

theorem worker_zone_correct:
  "(strstr (c_str addr) AUDIO_ZONE_KEYWORD = None \<longrightarrow> worker_zone_id addr = PRIMARY_ZONE_ID) \<and>
   (\<forall>n rest. strstr (c_str addr) AUDIO_ZONE_KEYWORD = Some (AUDIO_ZONE_KEYWORD @ decimal n @ rest) \<and>
      takeWhile is_digit (c_str rest) = [] \<and> n < 2 ^ 31 \<longrightarrow> worker_zone_id addr = int n) \<and>
   (\<forall>junk. strstr (c_str addr) AUDIO_ZONE_KEYWORD = Some (AUDIO_ZONE_KEYWORD @ junk) \<and>
      (\<forall>c \<in> set junk. \<not> is_digit c) \<longrightarrow> worker_zone_id addr = PRIMARY_ZONE_ID)"
proof (intro conjI allI impI; (elim conjE)?)
  show "strstr (c_str addr) AUDIO_ZONE_KEYWORD = None \<Longrightarrow> worker_zone_id addr = 0"
    by (simp add: worker_zone_id_def)
next
  fix n rest
  assume a: "strstr (c_str addr) AUDIO_ZONE_KEYWORD = Some (AUDIO_ZONE_KEYWORD @ decimal n @ rest)"
    and r: "takeWhile is_digit (c_str rest) = []" and n: "n < 2 ^ 31"
  have "to_int32 (int n) = int n" using n by (simp add: to_int32_eq_iff)
  moreover have "int n \<le> LONG_MAX" using n by (simp add: LONG_MAX_def)
  ultimately show "worker_zone_id addr = int n"
    using a strtol10_decimal [OF r, of n]
    by (simp add: worker_zone_id_def get_zone_id_from_address_def)
next
  fix junk
  assume a: "strstr (c_str addr) AUDIO_ZONE_KEYWORD = Some (AUDIO_ZONE_KEYWORD @ junk)"
    and j: "\<forall>c \<in> set junk. \<not> is_digit c"
  have "strtol10 junk = strtol10 junk" "fst (strtol10 junk) = 0"
    using strtol10_no_digits [of junk] j by simp_all
  moreover have "to_int32 0 = 0" by (simp add: to_int32_eq_iff)
  ultimately show "worker_zone_id addr = 0"
    using a by (simp add: worker_zone_id_def get_zone_id_from_address_def)
qed

theorem worker_zone_correct_witness:
  "worker_zone_id ''bus1_audio_zone_12'' = 12 \<and> worker_zone_id ''bus1_audio_zone_x'' = 0"
proof -
  have "strstr (c_str ''bus1_audio_zone_12'') AUDIO_ZONE_KEYWORD = Some (AUDIO_ZONE_KEYWORD @ decimal 12 @ [])"
    "strstr (c_str ''bus1_audio_zone_x'') AUDIO_ZONE_KEYWORD = Some (AUDIO_ZONE_KEYWORD @ ''x'')"
    by (simp_all add: decimal_12 c_str_def AUDIO_ZONE_KEYWORD_def strstr.simps has_prefix_def)
  moreover have "takeWhile is_digit (c_str []) = []" "\<forall>c \<in> set ''x''. \<not> is_digit c"
    by (simp_all add: c_str_def is_digit_def)
  ultimately have "worker_zone_id ''bus1_audio_zone_12'' = int 12" "worker_zone_id ''bus1_audio_zone_x'' = 0"
    using worker_zone_correct [of "''bus1_audio_zone_12''"] worker_zone_correct [of "''bus1_audio_zone_x''"]
    by (simp_all del: of_nat_numeral) 
  then show ?thesis by simp
qed

end
