(* ===== verification/C_Bytes.thy ===== *)
theory C_Bytes
  imports Trout_Prelude
begin

text \<open>
  Byte views of integers. Both targets (arm64, x86) are little-endian: an integer in memory is
  \<open>le_enc\<close> of its value, and reading it back is \<open>le_val\<close>. Network order is the reverse, so
  \<open>htons\<close>, \<open>ntohs\<close>, \<open>htonl\<close> and \<open>ntohl\<close> swap the bytes.
\<close>

named_theorems byte_simps

fun le_val :: "bytes \<Rightarrow> nat" where
  "le_val [] = 0"
| "le_val (b # bs) = unat b + 256 * le_val bs"

fun le_enc :: "nat \<Rightarrow> nat \<Rightarrow> bytes" where
  "le_enc 0 x = []"
| "le_enc (Suc n) x = of_nat x # le_enc n (x div 256)"

lemma le_enc_length [simp]: "length (le_enc n x) = n"
  by (induction n arbitrary: x) simp_all

lemma unat_byte_of_nat: "unat (of_nat x :: u8) = x mod 256"
  by (simp add: unsigned_of_nat take_bit_eq_mod)

lemma byte_lt: "unat (b :: u8) < 256"
  using unsigned_less [of b, where ?'a = nat] by simp

lemma le_val_enc: "le_val (le_enc n x) = x mod 256 ^ n"
proof (induction n arbitrary: x)
  case (Suc n)
  have "x mod (256 * 256 ^ n) = 256 * (x div 256 mod 256 ^ n) + x mod 256"
    by (rule mod_mult2_eq)
  then show ?case by (simp add: Suc unat_byte_of_nat)
qed simp

lemma le_val_enc_id: "x < 256 ^ n \<Longrightarrow> le_val (le_enc n x) = x"
  by (simp add: le_val_enc)

lemma le_enc_val: "le_enc (length bs) (le_val bs) = bs"
proof (induction bs)
  case (Cons b bs)
  have "(unat b + 256 * le_val bs) div 256 = le_val bs" using byte_lt [of b] by simp
  moreover have "(of_nat (unat b + 256 * le_val bs) :: u8) = b"
    unfolding word_unat_eq_iff unat_byte_of_nat using byte_lt [of b] by simp
  ultimately show ?case using Cons by simp
qed simp

lemma le_val_bound: "le_val bs < 256 ^ length bs"
proof (induction bs)
  case (Cons b bs)
  then have "le_val bs + 1 \<le> 256 ^ length bs" by simp
  then have "256 * le_val bs + 256 \<le> 256 * 256 ^ length bs" by (metis mult_le_mono2 distrib_left mult_1_right)
  then show ?case using byte_lt [of b] by simp
qed simp

section \<open>Loads and stores\<close>

definition load16 :: "bytes \<Rightarrow> nat \<Rightarrow> u16" where
  "load16 m off = of_nat (le_val (take 2 (drop off m)))"

definition load32 :: "bytes \<Rightarrow> nat \<Rightarrow> u32" where
  "load32 m off = of_nat (le_val (take 4 (drop off m)))"

definition enc16 :: "u16 \<Rightarrow> bytes" where "enc16 w = le_enc 2 (unat w)"
definition enc32 :: "u32 \<Rightarrow> bytes" where "enc32 w = le_enc 4 (unat w)"

definition store :: "bytes \<Rightarrow> nat \<Rightarrow> bytes \<Rightarrow> bytes" where
  "store m off xs = take off m @ xs @ drop (off + length xs) m"

definition bswap16 :: "u16 \<Rightarrow> u16" where "bswap16 w = of_nat (le_val (rev (enc16 w)))"
definition bswap32 :: "u32 \<Rightarrow> u32" where "bswap32 w = of_nat (le_val (rev (enc32 w)))"

abbreviation (input) htons :: "u16 \<Rightarrow> u16" where "htons \<equiv> bswap16"
abbreviation (input) ntohs :: "u16 \<Rightarrow> u16" where "ntohs \<equiv> bswap16"
abbreviation (input) htonl :: "u32 \<Rightarrow> u32" where "htonl \<equiv> bswap32"
abbreviation (input) ntohl :: "u32 \<Rightarrow> u32" where "ntohl \<equiv> bswap32"

lemma enc_length [simp]: "length (enc16 w) = 2" "length (enc32 v) = 4"
  by (simp_all add: enc16_def enc32_def)

lemma enc16_explicit: "enc16 w = [of_nat (unat w), of_nat (unat w div 256)]"
  by (simp add: enc16_def numeral_2_eq_2)

lemma unat_u16_of_nat: "x < 256 ^ 2 \<Longrightarrow> unat (of_nat x :: u16) = x"
  by (simp add: unsigned_of_nat take_bit_nat_eq_self)

lemma unat_u32_of_nat: "x < 256 ^ 4 \<Longrightarrow> unat (of_nat x :: u32) = x"
  by (simp add: unsigned_of_nat take_bit_nat_eq_self)

lemma le_val_enc16 [byte_simps]: "le_val (enc16 w) = unat w"
  using unsigned_less [of w, where ?'a = nat] by (simp add: enc16_def le_val_enc)

lemma le_val_enc32 [byte_simps]: "le_val (enc32 w) = unat w"
  using unsigned_less [of w, where ?'a = nat] by (simp add: enc32_def le_val_enc)

lemma enc16_le_val: "length bs = 2 \<Longrightarrow> enc16 (of_nat (le_val bs)) = bs"
  using le_val_bound [of bs] le_enc_val [of bs] by (simp add: enc16_def unat_u16_of_nat)

lemma enc32_le_val: "length bs = 4 \<Longrightarrow> enc32 (of_nat (le_val bs)) = bs"
  using le_val_bound [of bs] le_enc_val [of bs] by (simp add: enc32_def unat_u32_of_nat)

lemma load_enc [byte_simps]:
  "load16 (xs @ enc16 w @ ys) (length xs) = w"
  "load32 (xs @ enc32 v @ ys) (length xs) = v"
  by (simp_all add: load16_def load32_def le_val_enc16 le_val_enc32)

lemma enc16_inj: "enc16 a = enc16 b \<Longrightarrow> a = b"
  by (metis le_val_enc16 word_unat_eq_iff)

lemma enc32_inj: "enc32 a = enc32 b \<Longrightarrow> a = b"
  by (metis le_val_enc32 word_unat_eq_iff)

lemma enc_bswap [byte_simps]:
  "enc16 (bswap16 w) = rev (enc16 w)" "enc32 (bswap32 v) = rev (enc32 v)"
  by (simp_all add: bswap16_def bswap32_def enc16_le_val enc32_le_val)

lemma bswap_invol [simp]: "bswap16 (bswap16 w) = w" "bswap32 (bswap32 v) = v"
  by (rule enc16_inj, simp add: byte_simps) (rule enc32_inj, simp add: byte_simps)

lemma store_length [simp]: "off + length xs \<le> length m \<Longrightarrow> length (store m off xs) = length m"
  by (simp add: store_def)

lemma store_same: "off + length xs \<le> length m \<Longrightarrow> take (length xs) (drop off (store m off xs)) = xs"
  by (simp add: store_def)

lemma store_take: "off + length xs \<le> length m \<Longrightarrow> n \<le> off \<Longrightarrow> take n (store m off xs) = take n m"
  by (simp add: store_def min_def)

lemma store_other_before:
  "off + length xs \<le> length m \<Longrightarrow> o' + n \<le> off \<Longrightarrow>
   take n (drop o' (store m off xs)) = take n (drop o' m)"
  by (auto simp: store_def drop_take min_def)

lemma store_other_after:
  "off + length xs \<le> length m \<Longrightarrow> off + length xs \<le> o' \<Longrightarrow>
   take n (drop o' (store m off xs)) = take n (drop o' m)"
  by (simp add: store_def min_def)

lemma load_store32 [byte_simps]:
  "off + 4 \<le> length m \<Longrightarrow> load32 (store m off (enc32 w)) off = w"
  using store_same [of off "enc32 w" m] by (simp add: load32_def le_val_enc32)

lemma load_store16 [byte_simps]:
  "off + 2 \<le> length m \<Longrightarrow> load16 (store m off (enc16 w)) off = w"
  using store_same [of off "enc16 w" m] by (simp add: load16_def le_val_enc16)


lemma enc_zero: "enc16 0 = replicate 2 0" "enc32 0 = replicate 4 0"
proof -
  have "le_enc n 0 = replicate n 0" for n by (induction n) simp_all
  then show "enc16 0 = replicate 2 0" "enc32 0 = replicate 4 0" by (simp_all only: enc16_def enc32_def unat_0)
qed

section \<open>Formats of a fixed size\<close>

text \<open>
  What a reader relies on when it finds a value at an address: an encoding of \<open>n\<close> bytes that is
  decoded from the front of the memory, whatever follows.
\<close>

locale byte_codec =
  fixes enc :: "'a \<Rightarrow> bytes" and dec :: "bytes \<Rightarrow> 'a" and ok :: "'a \<Rightarrow> bool" and n :: nat
  assumes enc_size: "ok x \<Longrightarrow> length (enc x) = n"
    and dec_enc: "ok x \<Longrightarrow> dec (enc x @ rest) = x"
begin

lemma enc_inj: "ok x \<Longrightarrow> ok y \<Longrightarrow> enc x = enc y \<Longrightarrow> x = y"
  by (metis append_Nil2 dec_enc)

lemma dec_id: "ok x \<Longrightarrow> dec (enc x) = x"
  using dec_enc [of x "[]"] by simp

lemma array_size: "\<forall>x \<in> set xs. ok x \<Longrightarrow> length (concat (map enc xs)) = n * length xs"
  by (induction xs) (simp_all add: enc_size)

lemma dec_array:
  assumes "\<forall>x \<in> set xs. ok x" and "i < length xs"
  shows "dec (drop (n * i) (concat (map enc xs))) = xs ! i"
proof -
  have "concat (map enc xs) = concat (map enc (take i xs)) @ enc (xs ! i) @ concat (map enc (drop (Suc i) xs))"
    using arg_cong [OF id_take_nth_drop [OF assms(2)], of "\<lambda>ys. concat (map enc ys)"] by simp
  moreover have "length (concat (map enc (take i xs))) = n * i"
    using assms array_size [of "take i xs"] by (auto dest: in_set_takeD)
  ultimately show ?thesis using assms dec_enc [of "xs ! i"] by simp
qed

end

interpretation u16_codec: byte_codec enc16 "\<lambda>bs. load16 bs 0" "\<lambda>_. True" 2
  using load_enc(1) [of "[]"] by unfold_locales simp_all

interpretation u32_codec: byte_codec enc32 "\<lambda>bs. load32 bs 0" "\<lambda>_. True" 4
  using load_enc(2) [of "[]"] by unfold_locales simp_all

lemma load32_drop: "load32 (drop off m) 0 = load32 m off"
  by (simp add: load32_def)

lemma load32_array: "i < length xs \<Longrightarrow> load32 (concat (map enc32 xs)) (4 * i) = xs ! i"
  using u32_codec.dec_array [of xs i] by (simp add: load32_drop)

end
