(* ===== verification/Audio_Mixer.thy ===== *)
theory Audio_Mixer
  imports C_Hashmap C_Bytes Audio_Config
begin

text \<open>
  The software mixer, \<open>hals/audio/driver/ext_pcm.c\<close>. All output streams share one PCM; each bus
  address has a pipeline of 16 bit samples, and the mixer thread adds the pipelines with
  saturation and hands the sum to the PCM. \<open>pcm_out\<close> records the bytes given to
  \<open>pcm_write\<close>; pipelines live in a small heap \<open>pipelines\<close> whose indices are the pointers
  the hash map stores.
\<close>

section \<open>Samples\<close>

type_synonym s16 = "16 word"

fun bytes_to_samples :: "bytes \<Rightarrow> s16 list" where
  "bytes_to_samples (a # b # bs) = of_nat (le_val [a, b]) # bytes_to_samples bs"
| "bytes_to_samples _ = []"

fun samples_to_bytes :: "s16 list \<Rightarrow> bytes" where
  "samples_to_bytes [] = []"
| "samples_to_bytes (s # ss) = enc16 s @ samples_to_bytes ss"

lemma enc16_Cons: "enc16 s = [of_nat (unat s), of_nat (unat s div 256)]"
  by (simp add: enc16_def numeral_2_eq_2)

lemma samples_bytes_length [simp]: "length (samples_to_bytes ss) = 2 * length ss"
  by (induction ss) simp_all

lemma bytes_samples_id [simp]: "bytes_to_samples (samples_to_bytes ss) = ss"
proof (induction ss)
  case (Cons s ss)
  have "of_nat (le_val (enc16 s)) = s" by (simp add: le_val_enc16)
  then show ?case using Cons by (simp add: enc16_Cons)
qed simp

lemma samples_bytes_id: "even (length bs) \<Longrightarrow> samples_to_bytes (bytes_to_samples bs) = bs"
proof (induction bs rule: bytes_to_samples.induct)
  case (1 a b bs)
  then show ?case using enc16_le_val [of "[a, b]"] by simp
qed auto

lemma bytes_to_samples_length: "even (length bs) \<Longrightarrow> 2 * length (bytes_to_samples bs) = length bs"
  by (induction bs rule: bytes_to_samples.induct) auto

lemma samples_to_bytes_append: "samples_to_bytes (xs @ ys) = samples_to_bytes xs @ samples_to_bytes ys"
  by (induction xs) simp_all

lemma take_samples_to_bytes: "take (2 * n) (samples_to_bytes ss) = samples_to_bytes (take n ss)"
proof (induction ss arbitrary: n)
  case (Cons s ss)
  then show ?case by (cases n) (auto simp: enc16_Cons)
qed simp

lemma bytes_to_samples_drop: "bytes_to_samples (drop (2 * n) bs) = drop n (bytes_to_samples bs)"
proof (induction n arbitrary: bs)
  case (Suc n)
  then show ?case by (cases bs rule: bytes_to_samples.cases) simp_all
qed simp

section \<open>Pipelines and mixing\<close>

definition MIXER_BUFFER_SIZE :: nat where "MIXER_BUFFER_SIZE = 1024 * 4"

record ext_mixer_pipeline =
  mp_buffer :: "s16 list"
  mp_position :: u32

definition zero_pipeline :: ext_mixer_pipeline where
  "zero_pipeline = \<lparr>mp_buffer = replicate MIXER_BUFFER_SIZE 0, mp_position = 0\<rparr>"

text \<open>
  One sample. The sum of two 16 bit samples is computed as \<open>int\<close> and stored in a
  \<open>float\<close>, which represents every integer below \<open>2 ^ 24\<close> exactly, so \<open>mixed\<close> is an integer.
\<close>

definition mix_sample :: "s16 \<Rightarrow> s16 \<Rightarrow> s16" where
  "mix_sample a b =
     (let mixed = sint a + sint b
      in if 32767 < mixed then word_of_int 32767
         else if mixed < - 32768 then word_of_int (- 32768)
         else word_of_int mixed)"

function mix_loop :: "nat \<Rightarrow> nat \<Rightarrow> s16 list \<Rightarrow> s16 list \<Rightarrow> s16 list" where
  "mix_loop i n out inp =
     (if i < n then mix_loop (Suc i) n (out[i := mix_sample (out ! i) (inp ! i)]) inp else out)"
  by pat_completeness auto
termination by (relation "measure (\<lambda>(i, n, _, _). n - i)") auto

declare mix_loop.simps [simp del]

text \<open>
  \<open>mixer_thread_mix\<close>: the output pipeline and the cleared input pipeline; \<open>None\<close> when the
  loop would leave the arrays.
\<close>

definition mixer_thread_mix ::
    "ext_mixer_pipeline \<Rightarrow> ext_mixer_pipeline \<Rightarrow> (ext_mixer_pipeline \<times> ext_mixer_pipeline) option" where
  "mixer_thread_mix pipeline_out pipeline_in =
     (let pos = max (mp_position pipeline_out) (mp_position pipeline_in) in
      if length (mp_buffer pipeline_out) < unat pos \<or> length (mp_buffer pipeline_in) < unat pos then None
      else Some (pipeline_out\<lparr>mp_position := pos,
                   mp_buffer := mix_loop 0 (unat pos) (mp_buffer pipeline_out) (mp_buffer pipeline_in)\<rparr>,
                 zero_pipeline))"

section \<open>The shared PCM\<close>

record 'm ext_pcm =
  pcm :: "nat option"
  run_mixer :: bool
  ref_count :: u32
  mixer_pipeline :: ext_mixer_pipeline
  mixer_pipeline_map :: 'm
  pipelines :: "ext_mixer_pipeline list"
  pcm_out :: bytes

text \<open>\<open>hashmapForEach\<close> with \<open>mixer_thread_mix\<close>: the entries in order, each through its pointer.\<close>

fun mix_entries ::
    "(string \<times> nat) list \<Rightarrow> ext_mixer_pipeline \<Rightarrow> ext_mixer_pipeline list \<Rightarrow>
     (ext_mixer_pipeline \<times> ext_mixer_pipeline list) option" where
  "mix_entries [] out heap = Some (out, heap)"
| "mix_entries ((key, p) # es) out heap =
     (if length heap \<le> p then None
      else case mixer_thread_mix out (heap ! p) of
             None \<Rightarrow> None
           | Some (out', in') \<Rightarrow> mix_entries es out' (heap[p := in']))"

text \<open>
  The body of \<open>mixer_thread_loop\<close> up to the release of \<open>mixer_lock\<close>. A failed
  \<open>pcm_write\<close> is only logged, so its result does not matter.
\<close>

definition mixer_iteration :: "('m, nat) hashmap_api \<Rightarrow> 'm ext_pcm \<Rightarrow> 'm ext_pcm option" where
  "mixer_iteration H e =
     (case mix_entries (hashmapEntries H (mixer_pipeline_map e))
             ((mixer_pipeline e)\<lparr>mp_position := 0\<rparr>) (pipelines e) of
        None \<Rightarrow> None
      | Some (out, heap) \<Rightarrow>
         Some (e\<lparr>pipelines := heap, mixer_pipeline := zero_pipeline,
                 pcm_out := pcm_out e @
                   (if 0 < mp_position out
                    then take (unat (mp_position out * 2)) (samples_to_bytes (mp_buffer out)) else [])\<rparr>))"

text \<open>One round of the copy loop of \<open>mixer_pipeline_write\<close>: the new pipeline, the bytes
  written so far and \<open>write_incomplete\<close>.\<close>

definition pipeline_write_chunk ::
    "ext_mixer_pipeline \<Rightarrow> bytes \<Rightarrow> u32 \<Rightarrow> u32 \<Rightarrow> (ext_mixer_pipeline \<times> u32 \<times> bool) option" where
  "pipeline_write_chunk p dat count byteWritten =
     (let byteCount = ucast (min (ucast (count - byteWritten) :: u64)
                                 (ucast ((of_nat MIXER_BUFFER_SIZE :: u32) - mp_position p) * 2)) :: u32;
          int16Count = byteCount div 2;
          copied = (if 0 < int16Count then
                      map_option (\<lambda>b. p\<lparr>mp_buffer := bytes_to_samples b,
                                         mp_position := mp_position p + int16Count\<rparr>)
                        (memcpy (samples_to_bytes (mp_buffer p)) (2 * unat (mp_position p))
                                dat (unat byteWritten) (unat byteCount))
                    else Some p)
      in case copied of None \<Rightarrow> None
         | Some p' \<Rightarrow> Some (p', byteWritten + byteCount, byteWritten + byteCount < count))"

text \<open>The start of \<open>mixer_pipeline_write\<close>: the pointer of the address's pipeline, made if new.\<close>

definition pipeline_of :: "('m, nat) hashmap_api \<Rightarrow> 'm ext_pcm \<Rightarrow> string \<Rightarrow> 'm ext_pcm \<times> nat" where
  "pipeline_of H e bus_address =
     (case hashmapGet H (mixer_pipeline_map e) bus_address of
        Some p \<Rightarrow> (e, p)
      | None \<Rightarrow>
         let p = length (pipelines e)
         in (e\<lparr>pipelines := pipelines e @ [zero_pipeline],
               mixer_pipeline_map := hashmapPut H (mixer_pipeline_map e) bus_address p\<rparr>, p))"

text \<open>
  The loop. Between two rounds the writer waits on \<open>mixer_wake\<close> with the lock released;
  \<open>env j\<close> is what the other threads do to the shared state during the \<open>j\<close>-th wait.
\<close>

partial_function (option) pipeline_write_loop ::
    "(nat \<Rightarrow> 'm ext_pcm \<Rightarrow> 'm ext_pcm option) \<Rightarrow> nat \<Rightarrow> 'm ext_pcm \<Rightarrow> nat \<Rightarrow> bytes \<Rightarrow> u32 \<Rightarrow> u32 \<Rightarrow>
     'm ext_pcm option" where
  "pipeline_write_loop env j e p dat count byteWritten =
     (if length (pipelines e) \<le> p then None
      else case pipeline_write_chunk (pipelines e ! p) dat count byteWritten of
             None \<Rightarrow> None
           | Some (pl, byteWritten', write_incomplete) \<Rightarrow>
              (let e' = e\<lparr>pipelines := (pipelines e)[p := pl]\<rparr>
               in if write_incomplete
                  then Option.bind (env j e') (\<lambda>e''. pipeline_write_loop env (Suc j) e'' p dat count byteWritten')
                  else Some e'))"

definition mixer_pipeline_write ::
    "('m, nat) hashmap_api \<Rightarrow> (nat \<Rightarrow> 'm ext_pcm \<Rightarrow> 'm ext_pcm option) \<Rightarrow> 'm ext_pcm \<Rightarrow> string \<Rightarrow> bytes \<Rightarrow> u32 \<Rightarrow>
     ('m ext_pcm \<times> int) option" where
  "mixer_pipeline_write H env e bus_address dat count =
     (let (e', p) = pipeline_of H e bus_address
      in map_option (\<lambda>e''. (e'', 0)) (pipeline_write_loop env 0 e' p dat count 0))"

definition ext_pcm_write ::
    "('m, nat) hashmap_api \<Rightarrow> (nat \<Rightarrow> 'm ext_pcm \<Rightarrow> 'm ext_pcm option) \<Rightarrow> 'm ext_pcm option \<Rightarrow> string \<Rightarrow> bytes \<Rightarrow> u32 \<Rightarrow>
     ('m ext_pcm option \<times> int) option" where
  "ext_pcm_write H env ext address dat count =
     (case ext of
        None \<Rightarrow> Some (None, - EINVAL)
      | Some e \<Rightarrow>
         if pcm e = None then Some (Some e, - EINVAL)
         else map_option (\<lambda>(e', r). (Some e', r)) (mixer_pipeline_write H env e address dat count))"

section \<open>Lemmas on mixing\<close>

lemma sint_range16: "- 32768 \<le> sint (a :: s16)" "sint (a :: s16) \<le> 32767"
  using sint_greater_eq [of a] sint_less [of a] by simp_all

lemma sint_of_int16: "- 32768 \<le> x \<Longrightarrow> x \<le> 32767 \<Longrightarrow> sint (word_of_int x :: s16) = x"
  by (simp add: signed_of_int signed_take_bit_int_eq_self)

lemma sint_mix_sample: "sint (mix_sample a b) = max (- 32768) (min 32767 (sint a + sint b))"
proof -
  have "mix_sample a b = word_of_int (max (- 32768) (min 32767 (sint a + sint b)))"
    by (auto simp: mix_sample_def Let_def max_def min_def)
  then show ?thesis by (simp only:) (rule sint_of_int16, auto)
qed

lemma mix_sample_commute: "mix_sample a b = mix_sample b a"
  by (simp add: mix_sample_def add.commute)

lemma mix_sample_0 [simp]: "mix_sample 0 b = b"
  using sint_range16 [of b] by (simp add: mix_sample_def Let_def)

lemma mix_loop_nth:
  assumes "n \<le> length out"
  shows "length (mix_loop i n out inp) = length out \<and>
    (\<forall>j < length out. mix_loop i n out inp ! j =
       (if i \<le> j \<and> j < n then mix_sample (out ! j) (inp ! j) else out ! j))"
  using assms
proof (induction i n out inp rule: mix_loop.induct)
  case (1 i n out inp)
  show ?case
  proof (cases "i < n")
    case True
    with "1.IH" [OF True] "1.prems" show ?thesis
      by (subst (1 2) mix_loop.simps) (auto simp: nth_list_update le_Suc_eq not_less_eq_eq)
  next
    case False
    then show ?thesis by (subst (1 2) mix_loop.simps) auto
  qed
qed

text \<open>The loop computes the pointwise mix of the first \<open>n\<close> samples.\<close>

lemma mix_loop_map2:
  assumes "n \<le> length out" and "n \<le> length inp"
  shows "mix_loop 0 n out inp = map2 mix_sample (take n out) (take n inp) @ drop n out"
  using mix_loop_nth [OF assms(1), of 0 inp] assms
  by (intro nth_equalityI) (auto simp: nth_append)

text \<open>
  A well-formed pipeline: a full-size buffer, a position inside it, and silence after the
  position. \<open>pl_bytes\<close> is what it holds for the mixer.
\<close>

definition pl_ok :: "ext_mixer_pipeline \<Rightarrow> bool" where
  "pl_ok p \<longleftrightarrow> length (mp_buffer p) = MIXER_BUFFER_SIZE \<and> unat (mp_position p) \<le> MIXER_BUFFER_SIZE"

definition pl_samples :: "ext_mixer_pipeline \<Rightarrow> s16 list" where
  "pl_samples p = take (unat (mp_position p)) (mp_buffer p)"

definition pl_bytes :: "ext_mixer_pipeline \<Rightarrow> bytes" where
  "pl_bytes p = samples_to_bytes (pl_samples p)"

lemma zero_pipeline_facts [simp]:
  "pl_ok zero_pipeline" "pl_samples zero_pipeline = []" "pl_bytes zero_pipeline = []"
  "mp_position zero_pipeline = 0" "mp_buffer zero_pipeline = replicate MIXER_BUFFER_SIZE 0"
  by (simp_all add: pl_ok_def pl_samples_def pl_bytes_def zero_pipeline_def)

lemma unat_max: "unat (max a b) = max (unat a) (unat b)" for a b :: "'a::len word"
  by (simp add: max_def word_le_nat_alt)

lemma mix_into_silence:
  assumes "pl_ok p"
  shows "\<exists>out. mixer_thread_mix zero_pipeline p = Some (out, zero_pipeline) \<and> pl_ok out \<and>
    mp_position out = mp_position p \<and> pl_samples out = pl_samples p"
proof -
  let ?n = "unat (mp_position p)"
  have len: "?n \<le> length (mp_buffer p)" "?n \<le> MIXER_BUFFER_SIZE" using assms by (auto simp: pl_ok_def)
  have "map2 mix_sample (replicate ?n 0) (take ?n (mp_buffer p)) = take ?n (mp_buffer p)"
    using len by (intro nth_equalityI) auto
  then have "mix_loop 0 ?n (mp_buffer zero_pipeline) (mp_buffer p) =
      take ?n (mp_buffer p) @ replicate (MIXER_BUFFER_SIZE - ?n) 0"
    using len by (simp add: mix_loop_map2 min_absorb1)
  then show ?thesis
    using len by (simp add: mixer_thread_mix_def Let_def pl_ok_def pl_samples_def max_def
        word_le_nat_alt)
qed

section \<open>Lemmas on the copy loop\<close>

definition chunk_size :: "ext_mixer_pipeline \<Rightarrow> u32 \<Rightarrow> u32 \<Rightarrow> nat" where
  "chunk_size p count w =
     min (unat count - unat w) (2 * (MIXER_BUFFER_SIZE - unat (mp_position p)))"

lemma unat_chunk:
  assumes "pl_ok p" and "w \<le> count"
  shows "unat (ucast (min (ucast (count - w) :: u64)
      (ucast ((of_nat MIXER_BUFFER_SIZE :: u32) - mp_position p) * 2)) :: u32) = chunk_size p count w"
proof -
  have pos: "unat (mp_position p) \<le> 4096" using assms(1) by (simp add: pl_ok_def MIXER_BUFFER_SIZE_def)
  have a: "unat (count - w) = unat count - unat w" using assms(2) by (rule unat_sub_le)
  have m: "(of_nat MIXER_BUFFER_SIZE :: u32) = 4096" by (simp add: MIXER_BUFFER_SIZE_def)
  have b: "unat ((4096 :: u32) - mp_position p) = 4096 - unat (mp_position p)"
    using pos by (subst unat_sub_le) (simp_all add: word_le_nat_alt)
  have c: "unat (ucast ((4096 :: u32) - mp_position p) * 2 :: u64) = 2 * (4096 - unat (mp_position p))"
    using pos by (subst unat_mult_bounded) (simp_all add: b)
  have "unat (min (ucast (count - w) :: u64) (ucast ((4096 :: u32) - mp_position p) * 2)) = chunk_size p count w"
    by (simp add: unat_min a c chunk_size_def MIXER_BUFFER_SIZE_def)
  moreover have "chunk_size p count w \<le> 2 * 4096"
    unfolding chunk_size_def MIXER_BUFFER_SIZE_def by (rule min.coboundedI2) simp
  then have "chunk_size p count w < 2 ^ 32" by (rule le_less_trans) simp
  ultimately show ?thesis by (simp add: m unat_ucast_32)
qed

lemma write_chunk_spec:
  assumes ok: "pl_ok p" and w: "w \<le> count" and dat: "unat count \<le> length dat"
    and ev: "even (unat count)" "even (unat w)"
  defines "B \<equiv> chunk_size p count w"
  shows "\<exists>p'. pipeline_write_chunk p dat count w = Some (p', w + of_nat B, unat w + B < unat count) \<and>
    pl_ok p' \<and> pl_bytes p' = pl_bytes p @ take B (drop (unat w) dat) \<and>
    unat (mp_position p') = unat (mp_position p) + B div 2 \<and>
    drop (unat (mp_position p')) (mp_buffer p') = drop (unat (mp_position p')) (mp_buffer p)"
proof -
  let ?pos = "unat (mp_position p)" and ?bc = "of_nat B :: u32"
  have pos: "?pos \<le> 4096" and len: "length (mp_buffer p) = 4096"
    using ok by (simp_all add: pl_ok_def MIXER_BUFFER_SIZE_def)
  have Bb: "B \<le> unat count - unat w" "B \<le> 2 * (4096 - ?pos)" "even B"
    using ev by (auto simp: B_def chunk_size_def MIXER_BUFFER_SIZE_def min_def)
  have wn: "unat w \<le> unat count" using w by (simp add: word_le_nat_alt)
  have cs: "unat count < 2 ^ 32" using unsigned_less [of count, where ?'a = nat] by simp
  have bcn: "unat ?bc = B" using Bb(1) cs by (intro unat_u32_of_nat) simp
  have bc: "ucast (min (ucast (count - w) :: u64)
      (ucast ((of_nat MIXER_BUFFER_SIZE :: u32) - mp_position p) * 2)) = ?bc"
    using unat_chunk [OF ok w] bcn unfolding B_def by (simp only: word_unat_eq_iff)
  have half: "unat (?bc div 2) = B div 2" by (simp add: unat_div bcn)
  have wB: "unat (w + ?bc) = unat w + B"
    using Bb(1) wn cs by (subst unat_add_lem [THEN iffD1]) (simp_all add: bcn)
  have inc: "w + ?bc < count \<longleftrightarrow> unat w + B < unat count" by (simp add: word_less_nat_alt wB)
  show ?thesis
  proof (cases "B = 0")
    case True
    then show ?thesis using ok inc by (simp add: pipeline_write_chunk_def bc Let_def)
  next
    case False
    let ?S = "samples_to_bytes (mp_buffer p)"
    let ?L = "take (2 * ?pos) ?S @ take B (drop (unat w) dat) @ drop (2 * ?pos + B) ?S"
    let ?p = "p\<lparr>mp_buffer := bytes_to_samples ?L, mp_position := mp_position p + ?bc div 2\<rparr>"
    have B2: "2 \<le> B" using False Bb(3) by (auto elim!: evenE)
    have src: "unat w + B \<le> length dat" using Bb(1) wn dat by linarith
    have dst: "2 * ?pos + B \<le> length ?S" using Bb(2) pos len by simp
    have lenL: "length ?L = 8192" using src dst len by simp
    have "0 < ?bc div 2" using B2 by (simp add: word_less_nat_alt half)
    then have chunk: "pipeline_write_chunk p dat count w = Some (?p, w + ?bc, unat w + B < unat count)"
      using memcpy_Some [OF src dst] inc by (simp add: pipeline_write_chunk_def bc Let_def bcn)
    have pos': "unat (mp_position ?p) = ?pos + B div 2"
      using pos Bb(2) by (simp add: unat_add_lem [THEN iffD1] half)
    have "even (length ?L)" unfolding lenL by simp
    from bytes_to_samples_length [OF this] have "length (mp_buffer ?p) = 4096"
      unfolding lenL by simp
    moreover have "?pos + B div 2 \<le> 4096" using div_le_mono [OF Bb(2), of 2] pos by simp
    ultimately have ok': "pl_ok ?p" unfolding pl_ok_def pos' MIXER_BUFFER_SIZE_def by simp
    have two: "2 * (?pos + B div 2) = 2 * ?pos + B" using Bb(3) by auto
    then have "pl_bytes ?p = take (2 * ?pos + B) (samples_to_bytes (bytes_to_samples ?L))"
      by (simp only: pl_bytes_def pl_samples_def pos' take_samples_to_bytes [symmetric]) simp
    also have "\<dots> = take (2 * ?pos + B) ?L" using lenL by (subst samples_bytes_id) simp_all
    also have "\<dots> = take (2 * ?pos) ?S @ take B (drop (unat w) dat)" using src dst by simp
    also have "\<dots> = pl_bytes p @ take B (drop (unat w) dat)"
      by (simp add: take_samples_to_bytes pl_bytes_def pl_samples_def)
    finally have bytes: "pl_bytes ?p = pl_bytes p @ take B (drop (unat w) dat)" .
    have "drop (?pos + B div 2) (bytes_to_samples ?L) = bytes_to_samples (drop (2 * ?pos + B) ?L)"
      unfolding two [symmetric] by (rule bytes_to_samples_drop [symmetric])
    also have "\<dots> = bytes_to_samples (drop (2 * ?pos + B) ?S)" using src dst by simp
    also have "\<dots> = drop (?pos + B div 2) (mp_buffer p)"
      unfolding two [symmetric] bytes_to_samples_drop by simp
    finally have rest: "drop (unat (mp_position ?p)) (mp_buffer ?p) = drop (unat (mp_position ?p)) (mp_buffer p)"
      unfolding pos' by simp
    show ?thesis by (intro exI [of _ ?p] conjI chunk ok' bytes pos' rest)
  qed
qed

text \<open>
  One round of the loop in numbers: the counter advances by the chunk; a round that leaves something has
  filled the pipeline; and when the mixer has emptied the pipeline in between, \<open>write_measure\<close> decreases.
\<close>

definition write_measure :: "ext_mixer_pipeline \<Rightarrow> u32 \<Rightarrow> u32 \<Rightarrow> nat" where
  "write_measure p count w = 2 * (unat count - unat w) + (if mp_position p = 0 then 0 else 1)"

lemma chunk_le: "chunk_size p count w \<le> unat count - unat w"
  by (simp add: chunk_size_def)

lemma chunk_advance:
  assumes "w \<le> count"
  shows "unat (w + of_nat (chunk_size p count w)) = unat w + chunk_size p count w"
    and "w + of_nat (chunk_size p count w) \<le> count"
proof -
  have cs: "unat count < 2 ^ 32" using unsigned_less [of count, where ?'a = nat] by simp
  have wn: "unat w \<le> unat count" using assms by (simp add: word_le_nat_alt)
  have "unat (of_nat (chunk_size p count w) :: u32) = chunk_size p count w"
    using chunk_le [of p count w] cs by (intro unat_u32_of_nat) simp
  then show wB: "unat (w + of_nat (chunk_size p count w)) = unat w + chunk_size p count w"
    using chunk_le [of p count w] cs wn by (subst unat_add_lem [THEN iffD1]) simp_all
  show "w + of_nat (chunk_size p count w) \<le> count"
    using chunk_le [of p count w] wn by (simp add: word_le_nat_alt wB)
qed

lemma chunk_full:
  "unat w + chunk_size p count w < unat count \<Longrightarrow> chunk_size p count w = 2 * (MIXER_BUFFER_SIZE - unat (mp_position p))"
  by (auto simp: chunk_size_def min_def split: if_splits)

lemma chunk_decreases:
  assumes "w \<le> count" and "unat w + chunk_size p count w < unat count" and "mp_position p' = 0"
  shows "write_measure p' count (w + of_nat (chunk_size p count w)) < write_measure p count w"
proof (cases "chunk_size p count w = 0")
  case True
  then have "mp_position p \<noteq> 0" using chunk_full [OF assms(2)] by (auto simp: MIXER_BUFFER_SIZE_def)
  then show ?thesis using True by (simp add: write_measure_def assms(3))
next
  case False
  then have "unat count - (unat w + chunk_size p count w) < unat count - unat w" using assms(2) by linarith
  then show ?thesis by (simp add: write_measure_def chunk_advance(1) [OF assms(1)] assms(3))
qed

lemma chunk_take:
  assumes "unat w + chunk_size p count w \<le> unat count"
  shows "take (unat count - unat w) (drop (unat w) dat) = take (chunk_size p count w) (drop (unat w) dat) @
    take (unat count - (unat w + chunk_size p count w)) (drop (unat w + chunk_size p count w) dat)"
  using take_add [of "chunk_size p count w" "unat count - (unat w + chunk_size p count w)" "drop (unat w) dat"] assms
  by (simp add: add.commute)

section \<open>One bus through the mixer\<close>

text \<open>
  Only the address \<open>a\<close> (up to \<open>eq\<close>) has a pipeline, and the mixer's own pipeline is silent,
  as it is whenever \<open>mixer_lock\<close> is free.
\<close>

definition one_bus ::
    "('m, nat) hashmap_api \<Rightarrow> (string \<Rightarrow> string \<Rightarrow> bool) \<Rightarrow> string \<Rightarrow> 'm ext_pcm \<Rightarrow> bool" where
  "one_bus H eq a e \<longleftrightarrow> mixer_pipeline e = zero_pipeline \<and>
     (\<forall>l. hashmapGet H (mixer_pipeline_map e) l \<noteq> None \<longrightarrow> eq a l) \<and>
     (\<forall>p. hashmapGet H (mixer_pipeline_map e) a = Some p \<longrightarrow>
        p < length (pipelines e) \<and> pl_ok (pipelines e ! p))"

text \<open>The bytes written to the address that the PCM has not received yet.\<close>

definition bus_pending :: "('m, nat) hashmap_api \<Rightarrow> string \<Rightarrow> 'm ext_pcm \<Rightarrow> bytes" where
  "bus_pending H a e =
     (case hashmapGet H (mixer_pipeline_map e) a of None \<Rightarrow> [] | Some p \<Rightarrow> pl_bytes (pipelines e ! p))"

lemma zero_pipeline_reset [simp]: "zero_pipeline\<lparr>mp_position := 0\<rparr> = zero_pipeline"
  by (simp add: zero_pipeline_def)

lemma pcm_bytes:
  assumes "pl_ok p"
  shows "(if 0 < mp_position p then take (unat (mp_position p * 2)) (samples_to_bytes (mp_buffer p)) else []) =
    pl_bytes p"
proof -
  have "unat (mp_position p * 2) = 2 * unat (mp_position p)"
    using assms by (subst unat_mult_lem [THEN iffD1]) (simp_all add: pl_ok_def MIXER_BUFFER_SIZE_def)
  then show ?thesis
    by (auto simp: pl_bytes_def pl_samples_def take_samples_to_bytes word_gt_0)
qed

text \<open>The map of pipelines: a hash map whose values are pointers.\<close>

locale mixer_map = hashmap api eq
  for api :: "('m, nat) hashmap_api" and eq
begin

lemma iteration_one_bus:
  assumes "one_bus api eq a e"
  shows "\<exists>e'. mixer_iteration api e = Some e' \<and> one_bus api eq a e' \<and>
    pcm_out e' = pcm_out e @ bus_pending api a e \<and> bus_pending api a e' = [] \<and>
    mixer_pipeline_map e' = mixer_pipeline_map e \<and> pcm e' = pcm e \<and> ref_count e' = ref_count e \<and>
    (\<forall>p. hashmapGet api (mixer_pipeline_map e) a = Some p \<longrightarrow> pipelines e' ! p = zero_pipeline)"
proof (cases "hashmapGet api (mixer_pipeline_map e) a")
  case None
  have "hashmapEntries api (mixer_pipeline_map e) = []"
  proof (rule ccontr)
    assume "hashmapEntries api (mixer_pipeline_map e) \<noteq> []"
    then obtain k v where "(k, v) \<in> set (hashmapEntries api (mixer_pipeline_map e))"
      by (cases "hashmapEntries api (mixer_pipeline_map e)") auto
    then have "hashmapGet api (mixer_pipeline_map e) k = Some v" by (rule entry_value)
    then show False using assms None get_cong [of a k] by (auto simp: one_bus_def)
  qed
  then show ?thesis using assms None
    by (simp add: mixer_iteration_def bus_pending_def one_bus_def)
next
  case (Some p)
  then have p: "p < length (pipelines e)" "pl_ok (pipelines e ! p)" and z: "mixer_pipeline e = zero_pipeline"
    and only: "\<And>l. hashmapGet api (mixer_pipeline_map e) l \<noteq> None \<Longrightarrow> eq a l"
    using assms by (auto simp: one_bus_def)
  obtain k where k: "hashmapEntries api (mixer_pipeline_map e) = [(k, p)]"
    using entries_single [OF Some only] by blast
  obtain out where out: "mixer_thread_mix zero_pipeline (pipelines e ! p) = Some (out, zero_pipeline)"
    "pl_ok out" "mp_position out = mp_position (pipelines e ! p)" "pl_samples out = pl_samples (pipelines e ! p)"
    using mix_into_silence [OF p(2)] by blast
  have "pl_bytes out = pl_bytes (pipelines e ! p)" by (simp add: pl_bytes_def out(4))
  then have "mixer_iteration api e = Some (e\<lparr>pipelines := (pipelines e)[p := zero_pipeline],
      mixer_pipeline := zero_pipeline, pcm_out := pcm_out e @ pl_bytes (pipelines e ! p)\<rparr>)"
    using p(1) pcm_bytes [OF out(2)] by (simp add: mixer_iteration_def k z out(1) split: if_splits)
  then show ?thesis using Some p(1) only
    by (auto simp: one_bus_def bus_pending_def)
qed

lemma pipeline_of_one_bus:
  assumes "one_bus api eq a e"
  shows "\<exists>e' p. pipeline_of api e a = (e', p) \<and> one_bus api eq a e' \<and>
    hashmapGet api (mixer_pipeline_map e') a = Some p \<and> pcm_out e' = pcm_out e \<and> pcm e' = pcm e \<and> ref_count e' = ref_count e \<and>
    bus_pending api a e' = bus_pending api a e"
proof (cases "hashmapGet api (mixer_pipeline_map e) a")
  case None
  then show ?thesis using assms refl
    by (auto simp: pipeline_of_def one_bus_def bus_pending_def get_put nth_append Let_def split: if_splits)
next
  case (Some p)
  then show ?thesis using assms by (simp add: pipeline_of_def)
qed

lemma one_bus_update:
  assumes "one_bus api eq a e" and "hashmapGet api (mixer_pipeline_map e) a = Some p" and "pl_ok q"
  shows "one_bus api eq a (e\<lparr>pipelines := (pipelines e)[p := q]\<rparr>)"
    and "bus_pending api a (e\<lparr>pipelines := (pipelines e)[p := q]\<rparr>) = pl_bytes q"
  using assms by (auto simp: one_bus_def bus_pending_def)

lemma write_loop_one_bus:
  assumes "one_bus api eq a e" and "hashmapGet api (mixer_pipeline_map e) a = Some p"
    and "w \<le> count" "unat count \<le> length dat" "even (unat count)" "even (unat w)"
  shows "\<exists>e'. pipeline_write_loop (\<lambda>_. mixer_iteration api) j e p dat count w = Some e' \<and>
    one_bus api eq a e' \<and> pcm e' = pcm e \<and> ref_count e' = ref_count e \<and>
    pcm_out e' @ bus_pending api a e' =
      pcm_out e @ bus_pending api a e @ take (unat count - unat w) (drop (unat w) dat)"
  using assms
proof (induction "write_measure (pipelines e ! p) count w" arbitrary: j e w rule: less_induct)
  case less
  let ?q = "pipelines e ! p" and ?B = "chunk_size (pipelines e ! p) count w"
  have p: "p < length (pipelines e)" "pl_ok ?q" using less.prems(1,2) by (auto simp: one_bus_def)
  obtain q where chunk: "pipeline_write_chunk ?q dat count w = Some (q, w + of_nat ?B, unat w + ?B < unat count)"
    and q: "pl_ok q" "pl_bytes q = pl_bytes ?q @ take ?B (drop (unat w) dat)"
    using write_chunk_spec [OF p(2) less.prems(3-6)] by blast
  let ?e = "e\<lparr>pipelines := (pipelines e)[p := q]\<rparr>"
  note e1 = one_bus_update [OF less.prems(1,2) q(1)]
  have pend: "bus_pending api a e = pl_bytes ?q" using less.prems(2) by (simp add: bus_pending_def)
  note B = chunk_le [of ?q count w] and wB = chunk_advance [OF less.prems(3), of ?q]
  show ?case
  proof (cases "unat w + ?B < unat count")
    case False
    then have "?B = unat count - unat w" using B by simp
    then show ?thesis using p False e1 q(2) pend
      by (subst pipeline_write_loop.simps) (simp add: chunk Let_def)
  next
    case True
    have ev: "even (unat (w + of_nat ?B))" unfolding wB(1) using less.prems(6) chunk_full [OF True] by simp
    obtain e2 where e2: "mixer_iteration api ?e = Some e2" "one_bus api eq a e2"
      "pcm_out e2 = pcm_out ?e @ bus_pending api a ?e" "bus_pending api a e2 = []"
      "mixer_pipeline_map e2 = mixer_pipeline_map ?e" "pipelines e2 ! p = zero_pipeline"
      "pcm e2 = pcm ?e" "ref_count e2 = ref_count ?e"
      using iteration_one_bus [OF e1(1)] less.prems(2) by auto
    have dec: "write_measure (pipelines e2 ! p) count (w + of_nat ?B) < write_measure ?q count w"
      using less.prems(3) True by (rule chunk_decreases) (simp add: e2(6))
    obtain e3 where e3:
      "pipeline_write_loop (\<lambda>_. mixer_iteration api) (Suc j) e2 p dat count (w + of_nat ?B) = Some e3"
      "one_bus api eq a e3" "pcm e3 = pcm e2" "ref_count e3 = ref_count e2"
      "pcm_out e3 @ bus_pending api a e3 =
        pcm_out e2 @ take (unat count - (unat w + ?B)) (drop (unat w + ?B) dat)"
      using less.hyps [OF dec e2(2) _ wB(2) less.prems(4,5) ev, of "Suc j"] less.prems(2) e2(4,5)
      by (auto simp: wB(1))
    have "take (unat count - unat w) (drop (unat w) dat) =
        take ?B (drop (unat w) dat) @ take (unat count - (unat w + ?B)) (drop (unat w + ?B) dat)"
      using True by (intro chunk_take) simp
    then have "pcm_out e3 @ bus_pending api a e3 =
        pcm_out e @ bus_pending api a e @ take (unat count - unat w) (drop (unat w) dat)"
      using e3(5) e2(3) e1(2) q(2) pend by simp
    then show ?thesis using p True e3(1-4) e2(1,7,8)
      by (subst pipeline_write_loop.simps) (simp add: chunk Let_def)
  qed
qed

lemma write_one_bus:
  assumes "one_bus api eq a e" and "unat count \<le> length dat" and "even (unat count)"
  shows "\<exists>e'. mixer_pipeline_write api (\<lambda>_. mixer_iteration api) e a dat count = Some (e', 0) \<and>
    one_bus api eq a e' \<and> pcm e' = pcm e \<and> ref_count e' = ref_count e \<and>
    pcm_out e' @ bus_pending api a e' = pcm_out e @ bus_pending api a e @ take (unat count) dat"
proof -
  obtain e1 p where e1: "pipeline_of api e a = (e1, p)" "one_bus api eq a e1"
    "hashmapGet api (mixer_pipeline_map e1) a = Some p" "pcm_out e1 = pcm_out e"
    "bus_pending api a e1 = bus_pending api a e" "pcm e1 = pcm e" "ref_count e1 = ref_count e"
    using pipeline_of_one_bus [OF assms(1)] by blast
  show ?thesis
    using write_loop_one_bus [OF e1(2,3) _ assms(2,3), of 0 0] e1
    by (auto simp: mixer_pipeline_write_def)
qed

end

interpretation str_mixer: mixer_map "alist_api str_eq" str_eq
  by unfold_locales

section \<open>Properties\<close>

lemma mix_saturates:
  assumes "pl_ok out" and "pl_ok inp"
  shows "\<exists>out'. mixer_thread_mix out inp = Some (out', zero_pipeline) \<and> pl_ok out' \<and>
    mp_position out' = max (mp_position out) (mp_position inp) \<and>
    (\<forall>i < MIXER_BUFFER_SIZE.
       sint (mp_buffer out' ! i) =
         (if i < unat (mp_position out')
          then max (- 32768) (min 32767 (sint (mp_buffer out ! i) + sint (mp_buffer inp ! i)))
          else sint (mp_buffer out ! i)))"
proof -
  let ?n = "unat (max (mp_position out) (mp_position inp))"
  have n: "?n \<le> MIXER_BUFFER_SIZE" using assms by (simp add: pl_ok_def unat_max)
  let ?out = "out\<lparr>mp_position := max (mp_position out) (mp_position inp),
    mp_buffer := mix_loop 0 ?n (mp_buffer out) (mp_buffer inp)\<rparr>"
  have "mixer_thread_mix out inp = Some (?out, zero_pipeline)"
    using n assms by (simp add: mixer_thread_mix_def Let_def pl_ok_def)
  moreover have "pl_ok ?out" and
    "\<forall>i < MIXER_BUFFER_SIZE. sint (mp_buffer ?out ! i) = (if i < unat (mp_position ?out)
       then max (- 32768) (min 32767 (sint (mp_buffer out ! i) + sint (mp_buffer inp ! i)))
       else sint (mp_buffer out ! i))"
    using mix_loop_nth [of ?n "mp_buffer out" 0 "mp_buffer inp"] n assms
    by (auto simp: pl_ok_def sint_mix_sample)
  ultimately show ?thesis by (intro exI [of _ ?out]) simp
qed

text \<open>
  C20. One pipeline mixed into another: the position becomes the larger one, every sample before
  it is the sum clamped to the 16 bit range, no sample after it changes, and the source pipeline
  is cleared.
\<close>

theorem mixer_mix_saturates:
  assumes "pl_ok out" and "pl_ok inp"
  shows "\<exists>out'. mixer_thread_mix out inp = Some (out', zero_pipeline) \<and> pl_ok out' \<and>
    mp_position out' = max (mp_position out) (mp_position inp) \<and>
    (\<forall>i < MIXER_BUFFER_SIZE.
       sint (mp_buffer out' ! i) =
         (if i < unat (mp_position out')
          then max (- 32768) (min 32767 (sint (mp_buffer out ! i) + sint (mp_buffer inp ! i)))
          else sint (mp_buffer out ! i)))"
  using assms by (rule mix_saturates)

theorem mixer_mix_saturates_witness:
  "\<exists>out'. mixer_thread_mix zero_pipeline zero_pipeline = Some (out', zero_pipeline) \<and> mp_position out' = 0"
  using mixer_mix_saturates [of zero_pipeline zero_pipeline] by auto

text \<open>A pipeline is silent after its position, so that mixing it adds nothing there.\<close>

definition pl_silent :: "ext_mixer_pipeline \<Rightarrow> bool" where
  "pl_silent p \<longleftrightarrow> (\<forall>s \<in> set (drop (unat (mp_position p)) (mp_buffer p)). s = 0)"

lemma pl_silent_nth: "pl_silent p \<Longrightarrow> unat (mp_position p) \<le> i \<Longrightarrow> i < length (mp_buffer p) \<Longrightarrow> mp_buffer p ! i = 0"
  unfolding pl_silent_def
  using nth_mem [of "i - unat (mp_position p)" "drop (unat (mp_position p)) (mp_buffer p)"] by simp

lemma pl_silentI: "(\<And>i. unat (mp_position p) \<le> i \<Longrightarrow> i < length (mp_buffer p) \<Longrightarrow> mp_buffer p ! i = 0) \<Longrightarrow> pl_silent p"
  by (auto simp: pl_silent_def in_set_conv_nth)

text \<open>The exact (unsaturated) sum at sample \<open>i\<close> of the pipelines the entries point to.\<close>

definition exact_sum :: "nat \<Rightarrow> (string \<times> nat) list \<Rightarrow> ext_mixer_pipeline list \<Rightarrow> int" where
  "exact_sum i es heap = (\<Sum>e \<leftarrow> es. sint (mp_buffer (heap ! snd e) ! i))"

definition exact_amplitude :: "nat \<Rightarrow> (string \<times> nat) list \<Rightarrow> ext_mixer_pipeline list \<Rightarrow> int" where
  "exact_amplitude i es heap = (\<Sum>e \<leftarrow> es. \<bar>sint (mp_buffer (heap ! snd e) ! i)\<bar>)"

lemma exact_sum_update [simp]:
  "p \<notin> snd ` set es \<Longrightarrow> exact_sum i es (heap[p := q]) = exact_sum i es heap"
  "p \<notin> snd ` set es \<Longrightarrow> exact_amplitude i es (heap[p := q]) = exact_amplitude i es heap"
proof -
  assume p: "p \<notin> snd ` set es"
  have "heap[p := q] ! snd e = heap ! snd e" if "e \<in> set es" for e
    using that p by (intro nth_list_update_neq) auto
  then show "exact_sum i es (heap[p := q]) = exact_sum i es heap"
    "exact_amplitude i es (heap[p := q]) = exact_amplitude i es heap"
    unfolding exact_sum_def exact_amplitude_def
    by (auto intro!: arg_cong [where f = sum_list] map_cong simp del: sum_list.Cons)
qed

lemma exact_amplitude_nonneg: "0 \<le> exact_amplitude i es heap"
  by (auto simp: exact_amplitude_def intro!: sum_list_nonneg)

definition pipelines_ok :: "(string \<times> nat) list \<Rightarrow> ext_mixer_pipeline list \<Rightarrow> bool" where
  "pipelines_ok es heap \<longleftrightarrow> distinct (map snd es) \<and>
     (\<forall>p \<in> snd ` set es. p < length heap \<and> pl_ok (heap ! p) \<and> pl_silent (heap ! p))"

lemma pipelines_ok_step:
  "pipelines_ok (e # es) heap \<Longrightarrow> snd e < length heap \<and> pl_ok (heap ! snd e) \<and> pl_silent (heap ! snd e) \<and>
     snd e \<notin> snd ` set es \<and> pipelines_ok es (heap[snd e := q])"
  unfolding pipelines_ok_def by (auto simp: nth_list_update)

lemma mix_step_exact:
  assumes "pl_ok out" "pl_ok inp" "pl_silent out" "pl_silent inp"
    and amp: "\<forall>i < MIXER_BUFFER_SIZE. \<bar>sint (mp_buffer out ! i)\<bar> + \<bar>sint (mp_buffer inp ! i)\<bar> \<le> 32767"
  shows "\<exists>out'. mixer_thread_mix out inp = Some (out', zero_pipeline) \<and> pl_ok out' \<and> pl_silent out' \<and>
    (\<forall>i < MIXER_BUFFER_SIZE. sint (mp_buffer out' ! i) = sint (mp_buffer out ! i) + sint (mp_buffer inp ! i))"
proof -
  obtain out' where out': "mixer_thread_mix out inp = Some (out', zero_pipeline)" "pl_ok out'"
    "mp_position out' = max (mp_position out) (mp_position inp)"
    "\<forall>i < MIXER_BUFFER_SIZE. sint (mp_buffer out' ! i) =
       (if i < unat (mp_position out')
        then max (- 32768) (min 32767 (sint (mp_buffer out ! i) + sint (mp_buffer inp ! i)))
        else sint (mp_buffer out ! i))"
    using mix_saturates [OF assms(1,2)] by blast
  have len: "length (mp_buffer p) = MIXER_BUFFER_SIZE" if "pl_ok p" for p using that by (simp add: pl_ok_def)
  have quiet: "mp_buffer inp ! i = 0" "mp_buffer out ! i = 0"
    if "\<not> i < unat (mp_position out')" "i < MIXER_BUFFER_SIZE" for i
    using that pl_silent_nth [OF assms(4), of i] pl_silent_nth [OF assms(3), of i] assms(1,2)
    by (simp_all add: out'(3) unat_max len)
  have sum: "sint (mp_buffer out' ! i) = sint (mp_buffer out ! i) + sint (mp_buffer inp ! i)"
    if i: "i < MIXER_BUFFER_SIZE" for i
  proof (cases "i < unat (mp_position out')")
    case True
    then show ?thesis using out'(4) i amp [rule_format, OF i] by (simp add: max_def min_def abs_if split: if_splits)
  next
    case False
    then show ?thesis using out'(4) i quiet by simp
  qed
  have "pl_silent out'"
  proof (rule pl_silentI)
    fix i assume i: "unat (mp_position out') \<le> i" "i < length (mp_buffer out')"
    then have "i < MIXER_BUFFER_SIZE" by (simp add: len out'(2))
    with i show "mp_buffer out' ! i = 0" using sum [of i] quiet [of i] by (simp add: signed_eq_0_iff)
  qed
  then show ?thesis using out'(1,2) sum by blast
qed

text \<open>
  C19. Mixing any set of pipelines: when at every sample position the absolute values add up to
  at most 32767, the result is the exact sum of all of them, so the unspecified order of the
  hash map does not matter; every mixed pipeline is cleared and no other is touched.
\<close>

theorem mix_entries_exact:
  assumes "pipelines_ok es heap" and "pl_ok out" and "pl_silent out"
    and "\<forall>i < MIXER_BUFFER_SIZE. \<bar>sint (mp_buffer out ! i)\<bar> + exact_amplitude i es heap \<le> 32767"
  shows "\<exists>out' heap'. mix_entries es out heap = Some (out', heap') \<and> pl_ok out' \<and>
    (\<forall>i < MIXER_BUFFER_SIZE. sint (mp_buffer out' ! i) = sint (mp_buffer out ! i) + exact_sum i es heap) \<and>
    (\<forall>p < length heap. heap' ! p = (if p \<in> snd ` set es then zero_pipeline else heap ! p))"
  using assms
proof (induction es arbitrary: out heap)
  case Nil
  then show ?case by (auto simp: exact_sum_def)
next
  case (Cons e es)
  obtain key p where e: "e = (key, p)" by (cases e)
  from pipelines_ok_step [OF Cons.prems(1), of zero_pipeline]
  have p: "p < length heap" "pl_ok (heap ! p)" "pl_silent (heap ! p)" "p \<notin> snd ` set es"
    and ok: "pipelines_ok es (heap[p := zero_pipeline])" by (simp_all add: e)
  have amp: "\<bar>sint (mp_buffer out ! i)\<bar> + \<bar>sint (mp_buffer (heap ! p) ! i)\<bar> + exact_amplitude i es heap \<le> 32767"
    if "i < MIXER_BUFFER_SIZE" for i
    using Cons.prems(4) that by (auto simp: exact_amplitude_def e)
  have amp1: "\<forall>i < MIXER_BUFFER_SIZE. \<bar>sint (mp_buffer out ! i)\<bar> + \<bar>sint (mp_buffer (heap ! p) ! i)\<bar> \<le> 32767"
    using amp exact_amplitude_nonneg by (smt (verit))
  obtain out1 where out1: "mixer_thread_mix out (heap ! p) = Some (out1, zero_pipeline)" "pl_ok out1" "pl_silent out1"
    "\<And>i. i < MIXER_BUFFER_SIZE \<Longrightarrow> sint (mp_buffer out1 ! i) = sint (mp_buffer out ! i) + sint (mp_buffer (heap ! p) ! i)"
    using mix_step_exact [OF Cons.prems(2) p(2) Cons.prems(3) p(3) amp1] by blast
  have "\<forall>i < MIXER_BUFFER_SIZE. \<bar>sint (mp_buffer out1 ! i)\<bar> + exact_amplitude i es (heap[p := zero_pipeline]) \<le> 32767"
    using amp out1(4) p(4) by fastforce
  from Cons.IH [OF ok out1(2,3) this] obtain out' heap' where r:
    "mix_entries es out1 (heap[p := zero_pipeline]) = Some (out', heap')" "pl_ok out'"
    "\<forall>i < MIXER_BUFFER_SIZE. sint (mp_buffer out' ! i) = sint (mp_buffer out1 ! i) + exact_sum i es heap"
    "\<forall>q < length heap. heap' ! q = (if q \<in> snd ` set es then zero_pipeline else heap[p := zero_pipeline] ! q)"
    using p(4) by auto
  have "\<forall>i < MIXER_BUFFER_SIZE. sint (mp_buffer out' ! i) = sint (mp_buffer out ! i) + exact_sum i (e # es) heap"
    using r(3) out1(4) by (simp add: exact_sum_def e)
  moreover have "\<forall>q < length heap. heap' ! q = (if q \<in> snd ` set (e # es) then zero_pipeline else heap ! q)"
    using r(4) by (simp add: e nth_list_update)
  ultimately show ?case using r(1,2) out1(1) p(1) by (simp add: e)
qed

theorem mix_entries_exact_witness:
  "\<exists>out' heap'. mix_entries [(''a'', 1), (''b'', 0)] zero_pipeline [zero_pipeline, zero_pipeline] = Some (out', heap') \<and>
     (\<forall>i < MIXER_BUFFER_SIZE. sint (mp_buffer out' ! i) = 0)"
proof -
  have "pl_silent zero_pipeline" by (simp add: pl_silent_def)
  then show ?thesis
    using mix_entries_exact [of "[(''a'', 1), (''b'', 0)]" "[zero_pipeline, zero_pipeline]" zero_pipeline]
    by (auto simp: pipelines_ok_def exact_sum_def exact_amplitude_def)
qed

text \<open>
  One bus on the shared PCM: with the mixer thread running one iteration during every wait,
  a write of an even number of bytes returns 0, and what the PCM has received followed by what
  is still in the bus's pipeline grows by exactly the bytes written, in order, whatever their
  number: nothing is lost, repeated or reordered, and no write waits for ever.
\<close>

theorem mixer_write_in_order:
  assumes "mixer_map H eq" and "one_bus H eq addr e" and "unat count \<le> length dat" and "even (unat count)"
  shows "\<exists>e'. mixer_pipeline_write H (\<lambda>_. mixer_iteration H) e addr dat count = Some (e', 0) \<and>
    one_bus H eq addr e' \<and>
    pcm_out e' @ bus_pending H addr e' = pcm_out e @ bus_pending H addr e @ take (unat count) dat"
  using mixer_map.write_one_bus [OF assms] by blast

theorem mixer_write_in_order_witness:
  "\<exists>e'. mixer_pipeline_write (alist_api str_eq) (\<lambda>_. mixer_iteration (alist_api str_eq))
       \<lparr>pcm = Some 0, run_mixer = True, ref_count = 1, mixer_pipeline = zero_pipeline, mixer_pipeline_map = [],
        pipelines = [], pcm_out = []\<rparr> ''bus0'' [1, 2, 3, 4] 4 = Some (e', 0) \<and>
     pcm_out e' @ bus_pending (alist_api str_eq) ''bus0'' e' = [1, 2, 3, 4]"
  using mixer_write_in_order [OF str_mixer.mixer_map_axioms, of "''bus0''"
      "\<lparr>pcm = Some 0, run_mixer = True, ref_count = 1, mixer_pipeline = zero_pipeline, mixer_pipeline_map = [],
        pipelines = [], pcm_out = []\<rparr>" 4 "[1, 2, 3, 4]"]
  by (auto simp: one_bus_def bus_pending_def alist_api_def)

end
