(* ===== verification/Audio_Ext_Pcm.thy ===== *)
theory Audio_Ext_Pcm
  imports Audio_Mixer
begin

text \<open>
  Opening and closing the shared PCM, \<open>hals/audio/driver/ext_pcm.c\<close>. The global
  \<open>shared_ext_pcm\<close> points into \<open>pcm_objects\<close>, the heap of \<open>struct ext_pcm\<close>
  objects (\<open>None\<close> once freed). Every function returns \<open>None\<close> where the code would follow a
  dangling pointer. \<open>closed_pcms\<close> records what each closed PCM had received.
\<close>

section \<open>State and operations\<close>

record 'm pcm_world =
  shared_ext_pcm :: "nat option"
  pcm_objects :: "'m ext_pcm option list"
  closed_pcms :: "(nat \<times> bytes) list"

definition pcm_object :: "'m pcm_world \<Rightarrow> nat \<Rightarrow> 'm ext_pcm option" where
  "pcm_object w i = (if i < length (pcm_objects w) then pcm_objects w ! i else None)"

definition set_pcm_object :: "nat \<Rightarrow> 'm ext_pcm option \<Rightarrow> 'm pcm_world \<Rightarrow> 'm pcm_world" where
  "set_pcm_object i e w = w\<lparr>pcm_objects := (pcm_objects w)[i := e]\<rparr>"

text \<open>
  \<open>popen\<close> is the result of \<open>pcm_open\<close> of \<open>tinyalsa\<close>, used when there is no shared
  object yet. The mixer thread is created before \<open>mixer_pipeline_map\<close> and \<open>run_mixer\<close>
  are set; the object is shown here as \<open>ext_pcm_open\<close> leaves it.
\<close>

definition ext_pcm_new :: "('m, nat) hashmap_api \<Rightarrow> nat option \<Rightarrow> 'm ext_pcm" where
  "ext_pcm_new H popen = \<lparr>pcm = popen, run_mixer = True, ref_count = 0, mixer_pipeline = zero_pipeline,
     mixer_pipeline_map = hashmapCreate H, pipelines = [], pcm_out = []\<rparr>"

definition ext_pcm_open ::
    "('m, nat) hashmap_api \<Rightarrow> nat option \<Rightarrow> 'm pcm_world \<Rightarrow> ('m pcm_world \<times> nat) option" where
  "ext_pcm_open H popen w =
     (let w' = (case shared_ext_pcm w of
                  None \<Rightarrow> w\<lparr>shared_ext_pcm := Some (length (pcm_objects w)),
                            pcm_objects := pcm_objects w @ [Some (ext_pcm_new H popen)]\<rparr>
                | Some _ \<Rightarrow> w)
      in case shared_ext_pcm w' of
           None \<Rightarrow> None
         | Some i \<Rightarrow>
            (case pcm_object w' i of
               None \<Rightarrow> None
             | Some e \<Rightarrow> Some (set_pcm_object i (Some (e\<lparr>ref_count := ref_count e + 1\<rparr>)) w', i)))"

text \<open>
  \<open>ext_pcm_close\<close>. The decremented counter is stored in an \<open>int\<close> before the test.
  \<open>join\<close> is what the mixer thread still does to the object before \<open>pthread_join\<close>
  returns; afterwards the PCM is closed and the object and its pipelines are freed.
\<close>

definition ext_pcm_close ::
    "('m ext_pcm \<Rightarrow> 'm ext_pcm option) \<Rightarrow> nat option \<Rightarrow> 'm pcm_world \<Rightarrow> ('m pcm_world \<times> int) option" where
  "ext_pcm_close join ext w =
     (case ext of
        None \<Rightarrow> Some (w, - EINVAL)
      | Some i \<Rightarrow>
         (case pcm_object w i of
            None \<Rightarrow> None
          | Some e \<Rightarrow>
             (case pcm e of
                None \<Rightarrow> Some (w, - EINVAL)
              | Some h \<Rightarrow>
                 (let e = e\<lparr>ref_count := ref_count e - 1\<rparr>; count = to_int32 (uint (ref_count e)) in
                  if count \<le> 0 then
                    (case join (e\<lparr>run_mixer := False\<rparr>) of
                       None \<Rightarrow> None
                     | Some e' \<Rightarrow>
                        Some ((set_pcm_object i None w)\<lparr>shared_ext_pcm := None,
                                closed_pcms := closed_pcms w @ [(h, pcm_out e')]\<rparr>, 0))
                  else Some (set_pcm_object i (Some e) w, 0)))))"

text \<open>
  The remaining calls. \<open>pcm_is_ready\<close>, \<open>pcm_get_error\<close> and \<open>pcm_frames_to_bytes\<close> of
  \<open>tinyalsa\<close> are parameters; a null pointer gives \<open>-EINVAL\<close> converted to
  \<open>unsigned int\<close>.
\<close>

definition ext_pcm_is_ready :: "(nat \<Rightarrow> int) \<Rightarrow> 'm ext_pcm option \<Rightarrow> int" where
  "ext_pcm_is_ready pcm_is_ready ext =
     (case Option.bind ext pcm of None \<Rightarrow> 0 | Some h \<Rightarrow> pcm_is_ready h)"

definition ext_pcm_get_error :: "(nat \<Rightarrow> string) \<Rightarrow> 'm ext_pcm option \<Rightarrow> string option" where
  "ext_pcm_get_error pcm_get_error ext = map_option pcm_get_error (Option.bind ext pcm)"

definition ext_pcm_frames_to_bytes :: "(nat \<Rightarrow> u32 \<Rightarrow> u32) \<Rightarrow> 'm ext_pcm option \<Rightarrow> u32 \<Rightarrow> u32" where
  "ext_pcm_frames_to_bytes pcm_frames_to_bytes ext frames =
     (case Option.bind ext pcm of None \<Rightarrow> word_of_int (- EINVAL) | Some h \<Rightarrow> pcm_frames_to_bytes h frames)"

section \<open>The clients' protocol\<close>

text \<open>
  The clients are the output workers: each holds the pointers it opened and closes each once.
  A state is the world and the multiset of held pointers, here a list. The bound on the number
  of holders is that of the \<open>int\<close> the close function compares.
\<close>

inductive pcm_step ::
    "('m, nat) hashmap_api \<Rightarrow> ('m ext_pcm \<Rightarrow> 'm ext_pcm option) \<Rightarrow>
     'm pcm_world \<times> nat list \<Rightarrow> 'm pcm_world \<times> nat list \<Rightarrow> bool"
  for H join where
  step_open: "length hs < 2 ^ 31 - 1 \<Longrightarrow> ext_pcm_open H (Some h) w = Some (w', i) \<Longrightarrow>
    pcm_step H join (w, hs) (w', i # hs)"
| step_close: "i \<in> set hs \<Longrightarrow> ext_pcm_close join (Some i) w = Some (w', r) \<Longrightarrow>
    pcm_step H join (w, hs) (w', remove1 i hs)"

inductive_cases pcm_stepE: "pcm_step H join s s'"

definition pcm_init :: "'m pcm_world" where
  "pcm_init = \<lparr>shared_ext_pcm = None, pcm_objects = [], closed_pcms = []\<rparr>"

definition live_objects :: "'m pcm_world \<Rightarrow> nat list" where
  "live_objects w = filter (\<lambda>i. pcm_objects w ! i \<noteq> None) [0..<length (pcm_objects w)]"

text \<open>
  The invariant: with no holder nothing is allocated; otherwise there is one object, every
  holder points to it, and its counter is the number of holders.
\<close>

definition pcm_inv :: "'m pcm_world \<times> nat list \<Rightarrow> bool" where
  "pcm_inv s \<longleftrightarrow> (let (w, hs) = s in
     length hs < 2 ^ 31 \<and>
     (case shared_ext_pcm w of
        None \<Rightarrow> hs = [] \<and> (\<forall>i. pcm_object w i = None)
      | Some i \<Rightarrow> hs \<noteq> [] \<and> set hs = {i} \<and>
          (\<exists>e. pcm_object w i = Some e \<and> pcm e \<noteq> None \<and> unat (ref_count e) = length hs) \<and>
          (\<forall>j. j \<noteq> i \<longrightarrow> pcm_object w j = None)))"

lemma pcm_object_set [simp]:
  "pcm_object (set_pcm_object i e w) j =
     (if i = j \<and> i < length (pcm_objects w) then e else pcm_object w j)"
  by (auto simp: pcm_object_def set_pcm_object_def)

lemma pcm_object_len: "pcm_object w i = Some e \<Longrightarrow> i < length (pcm_objects w)"
  by (auto simp: pcm_object_def split: if_splits)

lemma shared_set [simp]: "shared_ext_pcm (set_pcm_object i e w) = shared_ext_pcm w"
  by (simp add: set_pcm_object_def)

lemma unat_succ32: "unat x < 2 ^ 31 \<Longrightarrow> unat (x + 1 :: u32) = Suc (unat x)"
  by (subst unat_add_lem [THEN iffD1]) simp_all

lemma unat_pred32: "0 < unat x \<Longrightarrow> unat (x - 1 :: u32) = unat x - 1"
  by (subst unat_sub_le) (auto simp: word_le_nat_alt)

lemma pcm_inv_init: "pcm_inv (pcm_init, [])"
  by (simp add: pcm_inv_def pcm_init_def pcm_object_def)

lemma open_keeps_inv:
  assumes "pcm_inv (w, hs)" and "length hs < 2 ^ 31 - 1"
  shows "\<exists>w' i. ext_pcm_open H (Some h) w = Some (w', i) \<and> pcm_inv (w', i # hs)"
proof (cases "shared_ext_pcm w")
  case None
  let ?i = "length (pcm_objects w)"
  have none: "hs = []" "\<And>j. pcm_object w j = None"
    using assms(1) None by (auto simp: pcm_inv_def)
  have obj: "pcm_object (w\<lparr>shared_ext_pcm := Some ?i, pcm_objects := pcm_objects w @ [Some e]\<rparr>) j =
      (if j = ?i then Some e else None)" for e j
    using none(2) [of j] by (auto simp: pcm_object_def nth_append split: if_splits)
  show ?thesis using none
    by (simp add: ext_pcm_open_def None obj pcm_inv_def ext_pcm_new_def)
next
  case (Some i)
  then obtain e where e: "pcm_object w i = Some e" "pcm e \<noteq> None" "unat (ref_count e) = length hs"
    "set hs = {i}" "\<And>j. j \<noteq> i \<Longrightarrow> pcm_object w j = None"
    using assms(1) by (auto simp: pcm_inv_def)
  have "unat (ref_count e + 1) = Suc (length hs)"
    using assms(2) e(3) by (subst unat_succ32) simp_all
  then show ?thesis using assms(2) e pcm_object_len [OF e(1)]
    by (auto simp: ext_pcm_open_def Some pcm_inv_def Let_def)
qed

lemma close_keeps_inv_of:
  assumes "pcm_inv (w, hs)" and "i \<in> set hs"
    and "\<And>e. pcm_object w i = Some e \<Longrightarrow> join (e\<lparr>ref_count := ref_count e - 1, run_mixer := False\<rparr>) \<noteq> None"
  shows "\<exists>w'. ext_pcm_close join (Some i) w = Some (w', 0) \<and> pcm_inv (w', remove1 i hs)"
proof -
  obtain e where e: "shared_ext_pcm w = Some i" "pcm_object w i = Some e" "pcm e \<noteq> None"
    "unat (ref_count e) = length hs" "set hs = {i}" "\<And>j. j \<noteq> i \<Longrightarrow> pcm_object w j = None"
    "length hs < 2 ^ 31"
    using assms(1,2) by (auto simp: pcm_inv_def split: option.splits)
  obtain h where h: "pcm e = Some h" using e(3) by blast
  have pos: "0 < length hs" using e(5) by auto
  let ?n = "ref_count e - 1"
  have n: "unat ?n = length hs - 1" using pos e(4) by (simp add: unat_pred32)
  then have "uint ?n = int (length hs - 1)" by (metis of_nat_unat)
  then have cnt: "to_int32 (uint ?n) = int (length hs - 1)"
    using e(7) by (subst to_int32_id) simp_all
  have len: "length (remove1 i hs) = length hs - 1" using assms(2) by (simp add: length_remove1)
  note il = pcm_object_len [OF e(2)]
  show ?thesis
  proof (cases "length hs = 1")
    case True
    then have hs: "hs = [i]" using e(5) by (cases hs) auto
    obtain e' where e': "join (e\<lparr>ref_count := ?n, run_mixer := False\<rparr>) = Some e'"
      using assms(3) [OF e(2)] by blast
    let ?w = "(set_pcm_object i None w)\<lparr>shared_ext_pcm := None,
       closed_pcms := closed_pcms w @ [(h, pcm_out e')]\<rparr>"
    have "pcm_object ?w j = pcm_object (set_pcm_object i None w) j" for j
      by (simp add: pcm_object_def)
    then have "pcm_inv (?w, [])" using e(6) il by (simp add: pcm_inv_def)
    moreover have "ext_pcm_close join (Some i) w = Some (?w, 0)"
      using cnt True e' by (simp add: ext_pcm_close_def e(2) h Let_def)
    ultimately show ?thesis by (simp add: hs)
  next
    case False
    with pos have two: "2 \<le> length hs" by linarith
    let ?w = "set_pcm_object i (Some (e\<lparr>ref_count := ?n\<rparr>)) w"
    have "set (remove1 i hs) = {i}"
    proof (rule subset_antisym)
      show sub: "set (remove1 i hs) \<subseteq> {i}" using set_remove1_subset [of i hs] e(5) by simp
      have "remove1 i hs \<noteq> []" using len two by (auto simp flip: length_greater_0_conv)
      then obtain j where "j \<in> set (remove1 i hs)" by (meson list.set_sel(1))
      with sub show "{i} \<subseteq> set (remove1 i hs)" by auto
    qed
    then have "pcm_inv (?w, remove1 i hs)"
      using e il n len two by (auto simp: pcm_inv_def)
    moreover have "ext_pcm_close join (Some i) w = Some (?w, 0)"
      using cnt two by (simp add: ext_pcm_close_def e(2) h Let_def)
    ultimately show ?thesis by blast
  qed
qed

lemma close_keeps_inv:
  assumes "pcm_inv (w, hs)" and "i \<in> set hs" and "\<And>e. join e \<noteq> None"
  shows "\<exists>w'. ext_pcm_close join (Some i) w = Some (w', 0) \<and> pcm_inv (w', remove1 i hs)"
  using assms by (intro close_keeps_inv_of)

text \<open>Opening and closing change no object but its counter, and only make the new one.\<close>

definition recounted :: "'m ext_pcm \<Rightarrow> 'm ext_pcm \<Rightarrow> bool" where
  "recounted e e' \<longleftrightarrow> (\<exists>c. e' = e\<lparr>ref_count := c\<rparr>)"

lemma recounted_simps [simp, intro!]: "recounted e e" "recounted e (e\<lparr>ref_count := c\<rparr>)"
proof -
  show "recounted e (e\<lparr>ref_count := c\<rparr>)" by (auto simp: recounted_def)
  have "e = e\<lparr>ref_count := ref_count e\<rparr>" by simp
  then show "recounted e e" unfolding recounted_def by (rule exI)
qed

lemma open_objects:
  assumes "ext_pcm_open H popen w = Some (w', i)" and "pcm_object w' j = Some e'"
  shows "recounted (ext_pcm_new H popen) e' \<or> (\<exists>e. pcm_object w j = Some e \<and> recounted e e')"
proof -
  let ?n = "length (pcm_objects w)"
  have new: "pcm_object (w\<lparr>shared_ext_pcm := Some ?n, pcm_objects := pcm_objects w @ [Some x]\<rparr>) k =
      (if k = ?n then Some x else pcm_object w k)" for x k
    by (auto simp: pcm_object_def nth_append)
  show ?thesis using assms
    by (auto simp: ext_pcm_open_def Let_def new split: option.splits if_splits)
qed

lemma close_objects:
  assumes "ext_pcm_close join ext w = Some (w', r)" and "pcm_object w' j = Some e'"
  shows "\<exists>e. pcm_object w j = Some e \<and> recounted e e'"
proof -
  have world: "pcm_object (v\<lparr>shared_ext_pcm := x, closed_pcms := y\<rparr>) j = pcm_object v j" for v :: "'a pcm_world" and x y
    by (simp add: pcm_object_def)
  show ?thesis using assms
    by (auto simp: ext_pcm_close_def Let_def world split: option.splits if_splits)
qed

text \<open>The invariant sees the holders only through their set and number.\<close>

lemma pcm_inv_holders: "pcm_inv (w, hs) \<Longrightarrow> set hs' = set hs \<Longrightarrow> length hs' = length hs \<Longrightarrow> pcm_inv (w, hs')"
  by (auto simp: pcm_inv_def split: option.splits)

lemma pcm_inv_update:
  assumes "pcm_inv (w, hs)" and "pcm_object w i = Some e" and "pcm e' = pcm e" and "ref_count e' = ref_count e"
  shows "pcm_inv (set_pcm_object i (Some e') w, hs)"
  using assms pcm_object_len [OF assms(2)] by (auto simp: pcm_inv_def split: option.splits)

lemma pcm_reachable_inv:
  assumes "(pcm_step H join)\<^sup>*\<^sup>* (pcm_init, []) s" and join: "\<And>e. join e \<noteq> None"
  shows "pcm_inv s"
  using assms(1)
proof (induction rule: rtranclp_induct)
  case base
  show ?case by (rule pcm_inv_init)
next
  case (step s t)
  from step.hyps(2) step.IH show ?case
  proof (cases rule: pcm_step.cases)
    case (step_open hs h w w' i)
    then show ?thesis using open_keeps_inv [of w hs H h] step.IH by auto
  next
    case (step_close i hs w w' r)
    then show ?thesis using close_keeps_inv [of w hs i join] step.IH join by auto
  qed
qed

section \<open>Properties\<close>

text \<open>
  The reference counting of the shared PCM. After any sequence of opens (with a working
  \<open>pcm_open\<close>) and closes by the holders, every holder's pointer is live, the counter is
  the number of holders, any holder can close without following a dangling pointer, and when
  nobody holds the PCM every object is freed and the next open makes a new one.
\<close>

theorem ext_pcm_refcount:
  assumes "(pcm_step H join)\<^sup>*\<^sup>* (pcm_init, []) (w, hs)" and "\<And>e. join e \<noteq> None"
  shows "(\<forall>i \<in> set hs. \<exists>e. pcm_object w i = Some e \<and> unat (ref_count e) = length hs) \<and>
    (\<forall>i \<in> set hs. \<exists>w'. ext_pcm_close join (Some i) w = Some (w', 0)) \<and>
    (hs = [] \<longrightarrow> shared_ext_pcm w = None \<and> (\<forall>i. pcm_object w i = None))"
proof -
  have inv: "pcm_inv (w, hs)" by (rule pcm_reachable_inv [OF assms])
  then have "\<forall>i \<in> set hs. \<exists>e. pcm_object w i = Some e \<and> unat (ref_count e) = length hs"
    and "hs = [] \<longrightarrow> shared_ext_pcm w = None \<and> (\<forall>i. pcm_object w i = None)"
    by (auto simp: pcm_inv_def split: option.splits)
  moreover have "\<forall>i \<in> set hs. \<exists>w'. ext_pcm_close join (Some i) w = Some (w', 0)"
    using close_keeps_inv [where join = join, OF inv _ assms(2)] by blast
  ultimately show ?thesis by blast
qed

theorem ext_pcm_refcount_witness:
  "\<exists>w e. ext_pcm_open (alist_api str_eq) (Some 7) pcm_init = Some (w, 0) \<and> pcm_object w 0 = Some e \<and>
     unat (ref_count e) = 1 \<and> (\<exists>w'. ext_pcm_close Some (Some 0) w = Some (w', 0))"
proof -
  obtain w where w: "ext_pcm_open (alist_api str_eq) (Some 7) pcm_init = Some (w, 0)"
    by (simp add: ext_pcm_open_def pcm_init_def pcm_object_def Let_def)
  then have "pcm_step (alist_api str_eq) Some (pcm_init, []) (w, [0])" by (intro step_open) simp_all
  then have "(pcm_step (alist_api str_eq) Some)\<^sup>*\<^sup>* (pcm_init, []) (w, [0])" by blast
  from ext_pcm_refcount [OF this] w show ?thesis by auto
qed

text \<open>
  When \<open>pcm_open\<close> gives no PCM, closing neither decrements the counter nor frees the
  object: the close fails, and the next open returns the same dead object.
\<close>

theorem ext_pcm_failed_open_stays:
  assumes "shared_ext_pcm w = None"
  shows "\<exists>w' i. ext_pcm_open H None w = Some (w', i) \<and>
    ext_pcm_close join (Some i) w' = Some (w', - EINVAL) \<and>
    (\<exists>w''. ext_pcm_open H popen w' = Some (w'', i) \<and>
       (\<exists>e. pcm_object w'' i = Some e \<and> pcm e = None \<and> ref_count e = 2))"
  using assms
  by (auto simp: ext_pcm_open_def ext_pcm_close_def ext_pcm_new_def pcm_object_def set_pcm_object_def Let_def)

theorem ext_pcm_failed_open_stays_witness:
  "\<exists>w' i. ext_pcm_open (alist_api str_eq) None pcm_init = Some (w', i) \<and>
     ext_pcm_close Some (Some i) w' = Some (w', - EINVAL)"
  using ext_pcm_failed_open_stays [of pcm_init "alist_api str_eq" Some None] by (auto simp: pcm_init_def)

end
