(* ===== verification/C_Float.thy ===== *)
theory C_Float
  imports Complex_Main Trout_Prelude
begin

text \<open>
  C floating point arithmetic as IEEE 754 defines it: an operation computes the real result and
  rounds it to the nearest representable number, ties to even. The exponent is unbounded here;
  the audio code stays far from overflow and underflow. \<open>float\<close> has a 24 bit significand,
  \<open>double\<close> a 53 bit one. The clients use only the laws of the locale \<open>float_format\<close>.
\<close>

section \<open>Round to nearest, ties to even\<close>

definition rne :: "real \<Rightarrow> int" where
  "rne x = (let f = \<lfloor>x\<rfloor>; d = x - of_int f
            in if d < 1 / 2 then f else if 1 / 2 < d then f + 1 else if even f then f else f + 1)"

lemma rne_of_int [simp]: "rne (of_int n) = n"
  by (simp add: rne_def)

lemma rne_nearest:
  assumes "\<bar>x - of_int n\<bar> < 1 / 2"
  shows "rne x = n"
proof -
  have "n - 1 \<le> \<lfloor>x\<rfloor>" "\<lfloor>x\<rfloor> \<le> n" using assms by linarith+
  then consider "\<lfloor>x\<rfloor> = n" | "\<lfloor>x\<rfloor> = n - 1" by linarith
  then show ?thesis using assms by cases (auto simp: rne_def Let_def abs_if split: if_splits)
qed

lemma rne_floor: "\<lfloor>x\<rfloor> \<le> rne x" "rne x \<le> \<lfloor>x\<rfloor> + 1"
  by (simp_all add: rne_def Let_def)

lemma rne_mono: "x \<le> y \<Longrightarrow> rne x \<le> rne y"
proof -
  assume xy: "x \<le> y"
  then have "\<lfloor>x\<rfloor> \<le> \<lfloor>y\<rfloor>" by (rule floor_mono)
  then consider "\<lfloor>x\<rfloor> + 1 \<le> \<lfloor>y\<rfloor>" | "\<lfloor>x\<rfloor> = \<lfloor>y\<rfloor>" by linarith
  then show ?thesis
  proof cases
    case 1
    then show ?thesis using rne_floor [of x] rne_floor [of y] by linarith
  next
    case 2
    then show ?thesis using xy by (auto simp: rne_def Let_def)
  qed
qed

lemma rne_minus: "rne (- x) = - rne x"
proof (cases "x = of_int \<lfloor>x\<rfloor>")
  case True
  then have "- x = of_int (- \<lfloor>x\<rfloor>)" by simp
  then have "rne (- x) = - \<lfloor>x\<rfloor>" by (simp only: rne_of_int)
  moreover have "rne x = \<lfloor>x\<rfloor>" by (subst True) (rule rne_of_int)
  ultimately show ?thesis by simp
next
  case False
  then have "\<lfloor>- x\<rfloor> = - \<lfloor>x\<rfloor> - 1" by linarith
  then show ?thesis by (auto simp: rne_def Let_def)
qed

text \<open>The grid of numbers with a \<open>p\<close> bit significand around \<open>x\<close>.\<close>

definition binade :: "real \<Rightarrow> int" where
  "binade x = \<lfloor>log 2 \<bar>x\<bar>\<rfloor>"

definition round_to :: "nat \<Rightarrow> real \<Rightarrow> real" where
  "round_to p x =
     (if x = 0 then 0
      else let ulp = 2 powr of_int (binade x - int p + 1) in of_int (rne (x / ulp)) * ulp)"

lemma round_to_0 [simp]: "round_to p 0 = 0"
  by (simp add: round_to_def)

lemma round_to_minus: "round_to p (- x) = - round_to p x"
  by (simp add: round_to_def binade_def Let_def rne_minus)

lemma binade_bounds: "0 < x \<Longrightarrow> 2 powr of_int (binade x) \<le> x \<and> x < 2 powr (of_int (binade x) + 1)"
  unfolding binade_def by (simp add: powr_le_iff less_powr_iff)

lemma binade_eq: "2 powr of_int e \<le> x \<Longrightarrow> x < 2 powr (of_int e + 1) \<Longrightarrow> binade x = e"
proof -
  assume a: "2 powr of_int e \<le> x" "x < 2 powr (of_int e + 1)"
  have "0 < x" using a(1) powr_gt_zero [of 2 "of_int e"] by linarith
  with a show ?thesis unfolding binade_def by (simp add: powr_le_iff less_powr_iff floor_eq_iff)
qed

text \<open>The value on a known binade, which is how concrete roundings are computed.\<close>

lemma round_to_binade:
  assumes "2 powr of_int e \<le> x" and "x < 2 powr (of_int e + 1)"
  shows "round_to p x = of_int (rne (x / 2 powr of_int (e - int p + 1))) * 2 powr of_int (e - int p + 1)"
proof -
  have "x \<noteq> 0" using assms(1) powr_gt_zero [of 2 "of_int e"] by linarith
  then show ?thesis using binade_eq [OF assms] by (simp add: round_to_def Let_def)
qed

lemma two_powr_nat: "2 powr of_int (int n) = (of_int (2 ^ n) :: real)"
  by (simp add: powr_realpow)

lemma round_to_bounds:
  assumes "0 < x" and p: "0 < p"
  shows "2 powr of_int (binade x) \<le> round_to p x \<and> round_to p x \<le> 2 powr (of_int (binade x) + 1)"
proof -
  let ?e = "binade x" and ?u = "2 powr of_int (binade x - int p + 1) :: real"
  note b = binade_bounds [OF assms(1)]
  obtain q where q: "p = Suc q" using p by (cases p) auto
  have lo: "2 powr of_int ?e = of_int (2 ^ q) * ?u"
    unfolding two_powr_nat [symmetric] by (simp add: q flip: powr_add)
  have hi: "2 powr (of_int ?e + 1) = of_int (2 ^ p) * ?u"
    unfolding two_powr_nat [symmetric] by (simp add: q add.commute flip: powr_add)
  have "of_int (2 ^ q) \<le> x / ?u" using b lo by (simp add: pos_le_divide_eq)
  from rne_mono [OF this] have 1: "2 ^ q \<le> rne (x / ?u)" by (simp only: rne_of_int)
  have "x / ?u \<le> of_int (2 ^ p)" using b hi by (simp add: pos_divide_le_eq)
  from rne_mono [OF this] have 2: "rne (x / ?u) \<le> 2 ^ p" by (simp only: rne_of_int)
  have r: "round_to p x = of_int (rne (x / ?u)) * ?u" using assms(1) by (simp add: round_to_def Let_def)
  show ?thesis unfolding r lo hi using 1 2
    by (intro conjI mult_right_mono) (simp_all only: of_int_le_iff powr_ge_zero)
qed

lemma round_to_mono_pos:
  assumes "0 < x" and "x \<le> y" and p: "0 < p"
  shows "round_to p x \<le> round_to p y"
proof -
  have y: "0 < y" using assms by linarith
  have "binade x \<le> binade y" unfolding binade_def using assms by (intro floor_mono) simp
  then consider "binade x + 1 \<le> binade y" | "binade x = binade y" by linarith
  then show ?thesis
  proof cases
    case 1
    have "(2::real) powr (of_int (binade x) + 1) \<le> 2 powr of_int (binade y)"
      using 1 by (intro powr_mono) linarith+
    then show ?thesis using round_to_bounds [OF assms(1) p] round_to_bounds [OF y p] by linarith
  next
    case 2
    let ?u = "2 powr of_int (binade y - int p + 1) :: real"
    have "rne (x / ?u) \<le> rne (y / ?u)" using assms(2) by (intro rne_mono divide_right_mono) simp_all
    then show ?thesis using assms(1) y 2
      by (simp add: round_to_def Let_def mult_right_mono)
  qed
qed

lemma round_to_sign: "0 < x \<Longrightarrow> 0 < p \<Longrightarrow> 0 < round_to p x"
  using round_to_bounds [of x p] powr_gt_zero [of 2 "of_int (binade x)"] by linarith

lemma round_to_mono:
  assumes "x \<le> y" and p: "0 < p"
  shows "round_to p x \<le> round_to p y"
proof -
  consider "0 < x" | "y < 0" | "x \<le> 0" "0 \<le> y" by linarith
  then show ?thesis
  proof cases
    case 1
    then show ?thesis by (rule round_to_mono_pos [OF _ assms])
  next
    case 2
    then have "round_to p (- y) \<le> round_to p (- x)" using assms by (intro round_to_mono_pos) auto
    then show ?thesis by (simp add: round_to_minus)
  next
    case 3
    have "round_to p x \<le> 0"
      using 3(1) round_to_sign [of "- x" p] p by (cases "x = 0") (auto simp: round_to_minus)
    moreover have "0 \<le> round_to p y" using 3(2) round_to_sign [of y p] p by (cases "y = 0") auto
    ultimately show ?thesis by linarith
  qed
qed
lemma round_to_nat:
  assumes "0 < p" and "n \<le> 2 ^ p"
  shows "round_to p (real n) = real n"
proof (cases "n = 0")
  case False
  let ?x = "real n"
  have x: "0 < ?x" using False by simp
  define k where "k = binade ?x - int p + 1"
  have r: "round_to p ?x = of_int (rne (?x / 2 powr of_int k)) * 2 powr of_int k"
    using x by (simp add: round_to_def Let_def k_def)
  have whole: "round_to p ?x = ?x" if "?x / 2 powr of_int k = of_int m" for m
  proof -
    have "of_int (rne (?x / 2 powr of_int k)) = ?x / 2 powr of_int k"
      by (subst (1 2) that) (simp only: rne_of_int)
    then show ?thesis unfolding r by simp
  qed
  show ?thesis
  proof (cases "k \<le> 0")
    case True
    then have "(2::real) powr of_int k = 1 / 2 ^ nat (- k)"
      by (simp add: powr_minus_divide powr_realpow [symmetric])
    then have "?x / 2 powr of_int k = of_int (int n * 2 ^ nat (- k))" by simp
    then show ?thesis by (rule whole)
  next
    case False
    have "2 powr of_int (binade ?x) \<le> ?x" using binade_bounds [OF x] by simp
    also have "?x \<le> 2 powr of_int (int p)" using assms(2) by (simp add: powr_realpow flip: of_nat_le_iff)
    finally have "binade ?x \<le> int p" by (subst (asm) powr_le_cancel_iff) simp_all
    with False have k1: "k = 1" "binade ?x = int p" by (auto simp: k_def)
    then have "(2::real) ^ p \<le> ?x" using binade_bounds [OF x] by (simp add: powr_realpow)
    then have n: "n = 2 ^ p" using assms(2) by (metis antisym of_nat_le_iff of_nat_numeral of_nat_power)
    obtain q where q: "p = Suc q" using assms(1) by (cases p) auto
    have "?x / 2 powr of_int k = of_int (2 ^ q)" by (simp add: k1 n q)
    then show ?thesis by (rule whole)
  qed
qed simp

lemma round_to_int:
  assumes "0 < p" and "\<bar>n\<bar> \<le> 2 ^ p"
  shows "round_to p (of_int n) = of_int n"
proof (cases "0 \<le> n")
  case True
  then obtain m where m: "n = int m" using nonneg_int_cases by blast
  have "int m \<le> int (2 ^ p)" using assms(2) by (simp add: m)
  then have "m \<le> 2 ^ p" by (simp only: of_nat_le_iff)
  then show ?thesis using round_to_nat [OF assms(1), of m] by (simp add: m)
next
  case False
  then obtain m where m: "n = - int m" by (metis int_cases2 le_cases of_nat_0_le_iff)
  have "int m \<le> int (2 ^ p)" using assms(2) by (simp add: m)
  then have "m \<le> 2 ^ p" by (simp only: of_nat_le_iff)
  then show ?thesis using round_to_nat [OF assms(1), of m] by (simp add: m round_to_minus)
qed

section \<open>The laws of a format\<close>

locale float_format =
  fixes rnd :: "real \<Rightarrow> real" and prec :: nat
  assumes rnd_mono: "x \<le> y \<Longrightarrow> rnd x \<le> rnd y"
    and rnd_int: "\<bar>n\<bar> \<le> 2 ^ prec \<Longrightarrow> rnd (of_int n) = of_int n"
    and rnd_minus: "rnd (- x) = - rnd x"
begin

lemma rnd_0: "rnd 0 = 0"
  using rnd_int [of 0] by simp

lemma rnd_nonneg: "0 \<le> x \<Longrightarrow> 0 \<le> rnd x"
  using rnd_mono [of 0 x] by (simp add: rnd_0)

lemma rnd_nonpos: "x \<le> 0 \<Longrightarrow> rnd x \<le> 0"
  using rnd_mono [of x 0] by (simp add: rnd_0)

lemma rnd_abs_le: "\<bar>x\<bar> \<le> of_int n \<Longrightarrow> n \<le> 2 ^ prec \<Longrightarrow> \<bar>rnd x\<bar> \<le> of_int n"
proof -
  assume a: "\<bar>x\<bar> \<le> of_int n" "n \<le> 2 ^ prec"
  have n0: "0 \<le> n" using a(1) by (meson abs_ge_zero of_int_0_le_iff order_trans)
  have "rnd (of_int n) = of_int n" "rnd (of_int (- n)) = of_int (- n)"
    using a(2) n0 by (simp_all only: rnd_int abs_minus_cancel abs_of_nonneg)
  then show "\<bar>rnd x\<bar> \<le> of_int n"
    using rnd_mono [of x "of_int n"] rnd_mono [of "of_int (- n)" x] a(1) by (simp add: abs_le_iff)
qed

text \<open>A factor of at most one never enlarges an exactly representable integer.\<close>

lemma rnd_scale_le:
  assumes "\<bar>n\<bar> \<le> 2 ^ prec" and "0 \<le> a" and "a \<le> 1"
  shows "\<bar>rnd (of_int n * a)\<bar> \<le> of_int \<bar>n\<bar>"
proof (rule rnd_abs_le)
  show "\<bar>of_int n * a\<bar> \<le> of_int \<bar>n\<bar>"
    using mult_left_mono [OF assms(3), of "\<bar>of_int n\<bar>"] assms(2) by (simp add: abs_mult)
qed (use assms in simp)

end

text \<open>The two formats of the program.\<close>

definition to_float :: "real \<Rightarrow> real" where "to_float x = round_to 24 x"
definition to_double :: "real \<Rightarrow> real" where "to_double x = round_to 53 x"

interpretation binary32: float_format to_float 24
  by unfold_locales (simp_all add: to_float_def round_to_mono round_to_int round_to_minus)

interpretation binary64: float_format to_double 53
  by unfold_locales (simp_all add: to_double_def round_to_mono round_to_int round_to_minus)

text \<open>Conversion of a floating point value to an integer type: truncation towards zero.\<close>

definition c_trunc :: "real \<Rightarrow> int" where
  "c_trunc x = (if 0 \<le> x then \<lfloor>x\<rfloor> else \<lceil>x\<rceil>)"

lemma c_trunc_of_int [simp]: "c_trunc (of_int n) = n"
  by (simp add: c_trunc_def)

lemma c_trunc_mono: "x \<le> y \<Longrightarrow> c_trunc x \<le> c_trunc y"
proof -
  assume xy: "x \<le> y"
  consider "0 \<le> x" | "x < 0" "0 \<le> y" | "y < 0" by linarith
  then show ?thesis
  proof cases
    case 2
    then have "\<lceil>x\<rceil> \<le> 0" "0 \<le> \<lfloor>y\<rfloor>" by simp_all
    then have "\<lceil>x\<rceil> \<le> \<lfloor>y\<rfloor>" by linarith
    moreover have "c_trunc x = \<lceil>x\<rceil>" "c_trunc y = \<lfloor>y\<rfloor>" using 2 by (simp_all add: c_trunc_def)
    ultimately show ?thesis by simp
  qed (use xy in \<open>simp_all add: c_trunc_def floor_mono ceiling_mono\<close>)
qed

lemma c_trunc_abs: "\<bar>x\<bar> \<le> of_int n \<Longrightarrow> \<bar>c_trunc x\<bar> \<le> n"
proof -
  assume "\<bar>x\<bar> \<le> of_int n"
  then have "c_trunc x \<le> c_trunc (of_int n)" "c_trunc (of_int (- n)) \<le> c_trunc x"
    by (intro c_trunc_mono; simp add: abs_le_iff)+
  then show ?thesis unfolding c_trunc_of_int by (simp add: abs_le_iff)
qed

end
