(* ===== verification/Audio_Out.thy ===== *)
theory Audio_Out
  imports Audio_VBuffer Audio_Config Audio_Mixer C_Float
begin

text \<open>
  The output stream of \<open>hals/audio/driver/audio_hw.c\<close>: its record, the calls that read or set
  parameters, the gain applied to samples (\<open>out_apply_gain\<close>) and the gain curve
  (\<open>adev_set_audio_port_config\<close>). Functions of the platform's headers that compute a frame
  size, and the \<open>str_parms\<close> and \<open>pow\<close> libraries, are parameters.
\<close>

section \<open>State\<close>

record timespec =
  tv_sec :: int
  tv_nsec :: int

record pcm_config =
  pc_channels :: u32
  pc_rate :: u32
  pc_period_size :: u32
  pc_period_count :: u32
  pc_format :: u32
  pc_stop_threshold :: u32

record audio_gain =
  min_value :: int
  max_value :: int
  step_value :: u32

text \<open>\<open>output_channel_enable\<close> is the enumeration of the header, here as its bit values.\<close>

definition LEFT_CHANNEL :: u32 where "LEFT_CHANNEL = 1"
definition RIGHT_CHANNEL :: u32 where "RIGHT_CHANNEL = 2"
definition BOTH_CHANNELS :: u32 where "BOTH_CHANNELS = LEFT_CHANNEL OR RIGHT_CHANNEL"

record generic_stream_out =
  so_device :: u32
  so_req_config :: audio_config
  so_pcm_config :: pcm_config
  so_buffer :: audio_vbuffer
  so_bus_address :: "string option"
  so_gain_stage :: audio_gain
  so_amplitude_ratio :: real
  so_enabled_channels :: u32
  so_is_ducked :: bool
  so_is_muted :: bool
  so_standby :: bool
  so_underrun_position :: u64
  so_underrun_time :: timespec
  so_last_write_time_us :: u64
  so_frames_total_buffered :: u64
  so_frames_written :: u64
  so_frames_rendered :: u64
  so_worker_standby :: bool
  so_worker_exit :: bool

section \<open>Parameters of the stream\<close>

definition out_get_sample_rate :: "'z generic_stream_out_scheme \<Rightarrow> u32" where
  "out_get_sample_rate out = sample_rate (so_req_config out)"

definition out_set_sample_rate :: "generic_stream_out \<Rightarrow> u32 \<Rightarrow> int" where
  "out_set_sample_rate out rate = - ENOSYS"

text \<open>The product is computed as \<open>size_t\<close>, stored in an \<open>int\<close> and returned as \<open>size_t\<close>.\<close>

definition out_get_buffer_size :: "(audio_config \<Rightarrow> size_t) \<Rightarrow> generic_stream_out \<Rightarrow> size_t" where
  "out_get_buffer_size frame_size_of out =
     int_to_size (size_to_int (ucast (pc_period_size (so_pcm_config out)) * frame_size_of (so_req_config out)))"

definition out_get_channels :: "generic_stream_out \<Rightarrow> u32" where
  "out_get_channels out = channel_mask (so_req_config out)"

definition out_get_format :: "generic_stream_out \<Rightarrow> u32" where
  "out_get_format out = format (so_req_config out)"

definition out_set_format :: "generic_stream_out \<Rightarrow> u32 \<Rightarrow> int" where
  "out_set_format out fmt = - ENOSYS"

definition AUDIO_PARAMETER_STREAM_ROUTING :: string where
  "AUDIO_PARAMETER_STREAM_ROUTING = ''routing''"

definition out_set_parameters ::
    "(string \<Rightarrow> str_parms) \<Rightarrow> generic_stream_out \<Rightarrow> string \<Rightarrow> generic_stream_out \<times> int" where
  "out_set_parameters str_parms_create_str out kvpairs =
     (if \<not> so_standby out then (out, - ENOSYS)
      else case get_int_value (str_parms_create_str kvpairs) AUDIO_PARAMETER_STREAM_ROUTING of
             (ret, val) \<Rightarrow>
               if 0 \<le> ret then (out\<lparr>so_device := word_of_int (case val of None \<Rightarrow> 0 | Some v \<Rightarrow> v)\<rparr>, 0)
               else (out, ret))"

text \<open>\<open>reply k v\<close> is the text of a parameter list that binds \<open>k\<close> to the integer \<open>v\<close>.\<close>

definition out_get_parameters ::
    "(string \<Rightarrow> str_parms) \<Rightarrow> (string \<Rightarrow> int \<Rightarrow> string) \<Rightarrow> generic_stream_out \<Rightarrow> string \<Rightarrow> string" where
  "out_get_parameters str_parms_create_str reply out keys =
     (if 0 \<le> fst (str_parms_create_str keys AUDIO_PARAMETER_STREAM_ROUTING 256)
      then reply AUDIO_PARAMETER_STREAM_ROUTING (sint (so_device out)) else keys)"

text \<open>\<open>None\<close> is the division by a zero rate.\<close>

definition out_get_latency :: "generic_stream_out \<Rightarrow> u32 option" where
  "out_get_latency out =
     (if pc_rate (so_pcm_config out) = 0 then None
      else Some ((pc_period_size (so_pcm_config out) * 1000) div pc_rate (so_pcm_config out)))"

definition out_set_volume :: "generic_stream_out \<Rightarrow> real \<Rightarrow> real \<Rightarrow> int" where
  "out_set_volume out left right = - ENOSYS"

definition out_add_audio_effect :: "generic_stream_out \<Rightarrow> 'e \<Rightarrow> int" where
  "out_add_audio_effect out effect = 0"

definition out_remove_audio_effect :: "generic_stream_out \<Rightarrow> 'e \<Rightarrow> int" where
  "out_remove_audio_effect out effect = 0"

definition out_get_next_write_timestamp :: "generic_stream_out \<Rightarrow> int" where
  "out_get_next_write_timestamp out = - ENOSYS"

section \<open>Gain\<close>

text \<open>
  One sample: the products are rounded to \<open>float\<close>; the ducking factor is a \<open>double\<close>
  constant, so that product is computed as \<open>double\<close> and rounded again.
\<close>

definition DUCKING_MULTIPLIER :: real where "DUCKING_MULTIPLIER = to_double (2 / 10)"

definition gain_sample :: "real \<Rightarrow> bool \<Rightarrow> s16 \<Rightarrow> s16" where
  "gain_sample ratio ducked s =
     (let multiplied = to_float (of_int (sint s) * ratio);
          multiplied = (if ducked then to_float (to_double (multiplied * DUCKING_MULTIPLIER)) else multiplied)
      in if of_int 32767 < multiplied then word_of_int 32767
         else if multiplied < of_int (- 32768) then word_of_int (- 32768)
         else word_of_int (c_trunc multiplied))"

definition apply_gain_at :: "'z generic_stream_out_scheme \<Rightarrow> nat \<Rightarrow> s16 \<Rightarrow> s16" where
  "apply_gain_at out i s =
     (if i mod 2 \<noteq> 0 \<and> so_enabled_channels out AND RIGHT_CHANNEL = 0 then 0
      else if i mod 2 = 0 \<and> so_enabled_channels out AND LEFT_CHANNEL = 0 then 0
      else gain_sample (so_amplitude_ratio out) (so_is_ducked out) s)"

text \<open>
  The loop over the buffer, in place. An odd last byte is left as it is. (\<open>i\<close> is an
  \<open>int\<close>, compared as \<open>size_t\<close>; buffers are below \<open>2 ^ 31\<close> samples.)
\<close>

fun apply_gain_loop :: "'z generic_stream_out_scheme \<Rightarrow> nat \<Rightarrow> s16 list \<Rightarrow> s16 list" where
  "apply_gain_loop out i [] = []"
| "apply_gain_loop out i (s # ss) = apply_gain_at out i s # apply_gain_loop out (Suc i) ss"

definition out_apply_gain :: "'z generic_stream_out_scheme \<Rightarrow> bytes \<Rightarrow> size_t \<Rightarrow> bytes" where
  "out_apply_gain out buf nbytes =
     (let n = 2 * (unat nbytes div 2)
      in samples_to_bytes (apply_gain_loop out 0 (bytes_to_samples (take n buf))) @ drop n buf)"

section \<open>The gain curve\<close>

text \<open>
  The amplitude that \<open>adev_set_audio_port_config\<close> computes from a gain value in millibels.
  \<open>step_value\<close> is unsigned, so both divisions are unsigned; \<open>minDb\<close> and \<open>maxDb\<close> are
  signed. \<open>pow\<close> is the library function on \<open>double\<close>.
\<close>

definition gain_index :: "audio_gain \<Rightarrow> int \<Rightarrow> int" where
  "gain_index g val = sint (word_of_int (val - min_value g) div step_value g)"

definition gain_total_steps :: "audio_gain \<Rightarrow> int" where
  "gain_total_steps g = sint (word_of_int (max_value g - min_value g) div step_value g)"

definition gain_exponent :: "audio_gain \<Rightarrow> int \<Rightarrow> real" where
  "gain_exponent g val =
     (let minDb = c_div (min_value g) 100; maxDb = c_div (max_value g) 100
      in to_float (to_float (of_int minDb + to_float (of_int (maxDb - minDb) *
           to_float (to_float (of_int (gain_index g val)) / to_float (of_int (gain_total_steps g))))) / 20))"

definition amplitude_of_gain :: "(real \<Rightarrow> real \<Rightarrow> real) \<Rightarrow> audio_gain \<Rightarrow> int \<Rightarrow> real" where
  "amplitude_of_gain c_pow g val = to_float (c_pow 10 (gain_exponent g val))"

definition default_gain_stage :: audio_gain where
  "default_gain_stage = \<lparr>min_value = - 3200, max_value = 600, step_value = 100\<rparr>"
section \<open>Lemmas on the gain\<close>

lemma clamp_trunc_range:
  "x \<le> of_int 32767 \<Longrightarrow> of_int (- 32768) \<le> x \<Longrightarrow> - 32768 \<le> c_trunc x \<and> c_trunc x \<le> 32767"
  using c_trunc_mono [of x "of_int 32767"] c_trunc_mono [of "of_int (- 32768)" x]
  unfolding c_trunc_of_int by simp

definition clamp16 :: "real \<Rightarrow> int" where
  "clamp16 x = max (- 32768) (min 32767 (c_trunc x))"

lemma clamp16_mono: "x \<le> y \<Longrightarrow> clamp16 x \<le> clamp16 y"
  unfolding clamp16_def by (intro max.mono min.mono c_trunc_mono) simp_all

text \<open>The value \<open>multiplied\<close> of the loop, and the sample as its clamped truncation.\<close>

definition gain_product :: "real \<Rightarrow> bool \<Rightarrow> s16 \<Rightarrow> real" where
  "gain_product ratio ducked s =
     (let m = to_float (of_int (sint s) * ratio)
      in if ducked then to_float (to_double (m * DUCKING_MULTIPLIER)) else m)"

lemma sint_gain_sample: "sint (gain_sample ratio ducked s) = clamp16 (gain_product ratio ducked s)"
proof -
  let ?m = "gain_product ratio ducked s"
  have g: "gain_sample ratio ducked s =
      (if of_int 32767 < ?m then word_of_int 32767
       else if ?m < of_int (- 32768) then word_of_int (- 32768) else word_of_int (c_trunc ?m))"
    by (simp add: gain_sample_def gain_product_def Let_def)
  consider "of_int 32767 < ?m" | "?m < of_int (- 32768)" | "?m \<le> of_int 32767" "of_int (- 32768) \<le> ?m"
    by linarith
  then show ?thesis
  proof cases
    case 1
    then have "32767 \<le> c_trunc ?m" using c_trunc_mono [of "of_int 32767" ?m] unfolding c_trunc_of_int by simp
    then show ?thesis using 1 by (simp add: g clamp16_def sint_of_int16)
  next
    case 2
    then have "c_trunc ?m \<le> - 32768" using c_trunc_mono [of ?m "of_int (- 32768)"] unfolding c_trunc_of_int by simp
    then show ?thesis using 2 by (simp add: g clamp16_def sint_of_int16)
  next
    case 3
    then show ?thesis using clamp_trunc_range [OF 3]
      by (simp add: g clamp16_def sint_of_int16 not_less)
  qed
qed

lemma ducking_factor: "0 \<le> DUCKING_MULTIPLIER" "DUCKING_MULTIPLIER \<le> 1"
  using binary64.rnd_nonneg [of "2 / 10"] binary64.rnd_mono [of "2 / 10" 1] binary64.rnd_int [of 1]
  by (simp_all add: DUCKING_MULTIPLIER_def)

lemma gain_product_mono:
  assumes "0 \<le> ratio" and "sint s \<le> sint t"
  shows "gain_product ratio ducked s \<le> gain_product ratio ducked t"
proof -
  have "to_float (of_int (sint s) * ratio) \<le> to_float (of_int (sint t) * ratio)"
    using assms by (intro binary32.rnd_mono mult_right_mono) (simp_all only: of_int_le_iff)
  then show ?thesis unfolding gain_product_def Let_def
    by (auto intro!: binary32.rnd_mono binary64.rnd_mono mult_right_mono ducking_factor)
qed

lemma gain_product_abs:
  assumes "0 \<le> ratio" and "ratio \<le> 1"
  shows "\<bar>gain_product ratio ducked s\<bar> \<le> of_int \<bar>sint s\<bar>"
proof -
  have s: "\<bar>sint s\<bar> \<le> 2 ^ 24" "\<bar>sint s\<bar> \<le> 2 ^ 53" using sint_range16 [of s] by (auto simp: abs_le_iff)
  let ?m = "to_float (of_int (sint s) * ratio)"
  have m: "\<bar>?m\<bar> \<le> of_int \<bar>sint s\<bar>" by (rule binary32.rnd_scale_le [OF s(1) assms])
  have "\<bar>?m * DUCKING_MULTIPLIER\<bar> \<le> \<bar>?m\<bar> * 1"
    unfolding abs_mult using ducking_factor by (intro mult_left_mono) simp_all
  then have "\<bar>?m * DUCKING_MULTIPLIER\<bar> \<le> of_int \<bar>sint s\<bar>" using m by linarith
  then have "\<bar>to_double (?m * DUCKING_MULTIPLIER)\<bar> \<le> of_int \<bar>sint s\<bar>" by (rule binary64.rnd_abs_le [OF _ s(2)])
  then have "\<bar>to_float (to_double (?m * DUCKING_MULTIPLIER))\<bar> \<le> of_int \<bar>sint s\<bar>"
    by (rule binary32.rnd_abs_le [OF _ s(1)])
  then show ?thesis using m by (simp add: gain_product_def Let_def)
qed

lemma gain_sample_abs:
  assumes "0 \<le> ratio" and "ratio \<le> 1"
  shows "\<bar>sint (gain_sample ratio ducked s)\<bar> \<le> \<bar>sint s\<bar>"
proof -
  have "\<bar>c_trunc (gain_product ratio ducked s)\<bar> \<le> \<bar>sint s\<bar>"
    by (rule c_trunc_abs [OF gain_product_abs [OF assms]])
  then show ?thesis unfolding sint_gain_sample clamp16_def using sint_range16 [of s] by linarith
qed

lemma gain_sample_unity: "gain_sample 1 False s = s"
proof -
  have "\<bar>sint s\<bar> \<le> 2 ^ 24" using sint_range16 [of s] by (auto simp: abs_le_iff)
  then have "gain_product 1 False s = of_int (sint s)"
    by (simp only: gain_product_def Let_def mult_1_right binary32.rnd_int if_False)
  then have "sint (gain_sample 1 False s) = max (- 32768) (min 32767 (sint s))"
    by (simp only: sint_gain_sample clamp16_def c_trunc_of_int)
  then have "sint (gain_sample 1 False s) = sint s" using sint_range16 [of s] by simp
  then show ?thesis by (rule signed_word_eqI)
qed

lemma apply_gain_loop_length [simp]: "length (apply_gain_loop out i ss) = length ss"
  by (induction ss arbitrary: i) simp_all

lemma apply_gain_loop_nth:
  "j < length ss \<Longrightarrow> apply_gain_loop out i ss ! j = apply_gain_at out (i + j) (ss ! j)"
proof (induction ss arbitrary: i j)
  case (Cons s ss)
  then show ?case by (cases j) auto
qed simp

lemma even_take: "n \<le> length buf \<Longrightarrow> samples_to_bytes (bytes_to_samples (take (2 * (n div 2)) buf)) = take (2 * (n div 2)) buf"
proof (rule samples_bytes_id)
  assume "n \<le> length buf"
  then have "length (take (2 * (n div 2)) buf) = 2 * (n div 2)" by simp
  then show "even (length (take (2 * (n div 2)) buf))" by (simp only: dvd_triv_left)
qed

lemma samples_of_take: "n \<le> length buf \<Longrightarrow> length (bytes_to_samples (take (2 * (n div 2)) buf)) = n div 2"
proof -
  assume "n \<le> length buf"
  then have l: "length (take (2 * (n div 2)) buf) = 2 * (n div 2)" by simp
  then have "even (length (take (2 * (n div 2)) buf))" by (simp only: dvd_triv_left)
  from bytes_to_samples_length [OF this] show ?thesis unfolding l by simp
qed

section \<open>Properties of the gain\<close>


text \<open>
  A stream at its initial gain (ratio 1, both channels, not ducked) passes every byte of the
  buffer through unchanged.
\<close>

theorem apply_gain_unity:
  assumes "so_amplitude_ratio out = 1" and "\<not> so_is_ducked out" and "so_enabled_channels out = BOTH_CHANNELS"
    and "unat n \<le> length buf"
  shows "out_apply_gain out buf n = buf"
proof -
  have "apply_gain_at out i s = s" for i s
    using assms(1-3) by (simp add: apply_gain_at_def gain_sample_unity BOTH_CHANNELS_def LEFT_CHANNEL_def RIGHT_CHANNEL_def)
  then have "apply_gain_loop out i ss = ss" for i ss by (induction ss arbitrary: i) simp_all
  then show ?thesis using even_take [OF assms(4)] by (simp add: out_apply_gain_def Let_def)
qed

definition so_example :: generic_stream_out where
  "so_example = \<lparr>so_device = 2, so_req_config = \<lparr>sample_rate = 48000, channel_mask = 3, format = 1\<rparr>,
     so_pcm_config = \<lparr>pc_channels = 2, pc_rate = 48000, pc_period_size = 720, pc_period_count = 4, pc_format = 0,
       pc_stop_threshold = 0\<rparr>,
     so_buffer = vb_example, so_bus_address = Some ''bus0'', so_gain_stage = default_gain_stage,
     so_amplitude_ratio = 1, so_enabled_channels = BOTH_CHANNELS, so_is_ducked = False, so_is_muted = False,
     so_standby = True, so_underrun_position = 0, so_underrun_time = \<lparr>tv_sec = 0, tv_nsec = 0\<rparr>,
     so_last_write_time_us = 0, so_frames_total_buffered = 0, so_frames_written = 0, so_frames_rendered = 0,
     so_worker_standby = True, so_worker_exit = False\<rparr>"


theorem apply_gain_unity_witness: "out_apply_gain so_example [1, 2, 3, 4] 4 = [1, 2, 3, 4]"
  by (rule apply_gain_unity) (simp_all add: so_example_def)

lemma sint_div_100: "0 \<le> x \<Longrightarrow> x < 2 ^ 31 \<Longrightarrow> sint (word_of_int x div (100 :: u32)) = x div 100"
proof -
  assume x: "0 \<le> x" "x < 2 ^ 31"
  then have "uint (word_of_int x div (100 :: u32)) = x div 100"
    by (simp add: uint_div uint_word_of_int_eq take_bit_int_eq_self)
  moreover have "x div 100 < 2 ^ 31" "- (2 ^ 31) \<le> x div 100"
    using x by (simp_all add: div_less_iff_less_mult) 
  ultimately show ?thesis
    by (simp add: sint_uint signed_take_bit_int_eq_self)
qed

lemma default_gain_index:
  "- 3200 \<le> v \<Longrightarrow> v < 2 ^ 31 - 3200 \<Longrightarrow> gain_index default_gain_stage v = (v + 3200) div 100"
proof -
  assume "- 3200 \<le> v" "v < 2 ^ 31 - 3200"
  then have "0 \<le> v - - 3200" "v - - 3200 < 2 ^ 31" by simp_all
  from sint_div_100 [OF this] show ?thesis
    unfolding gain_index_def default_gain_stage_def by (simp only: audio_gain.simps minus_minus diff_minus_eq_add)
qed

lemma default_gain_steps: "gain_total_steps default_gain_stage = 38"
  using sint_div_100 [of 3800] by (simp add: gain_total_steps_def default_gain_stage_def)

lemma to_float_numeral: "to_float (of_int (numeral n)) = of_int (numeral n)" if "numeral n \<le> (2 :: int) ^ 24"
  using that by (intro binary32.rnd_int) simp

lemma float_32_38: "to_float (32 / 38) = 14128182 / 2 ^ 24"
proof -
  have "rne (32 / 38 / 2 powr of_int (- 1 - int 24 + 1)) = 14128182"
    by (rule rne_nearest) (simp add: powr_minus_divide powr_numeral)
  then show ?thesis unfolding to_float_def
    by (subst round_to_binade [of "- 1"]) (simp_all add: powr_minus_divide powr_numeral)
qed

lemma float_unity_exponent: "to_float (38 * (14128182 / 2 ^ 24)) = 32"
proof -
  have "rne (38 * (14128182 / 2 ^ 24) / 2 powr of_int (5 - int 24 + 1)) = 8388608"
    by (rule rne_nearest) (simp add: powr_minus_divide powr_numeral)
  then show ?thesis unfolding to_float_def
    by (subst round_to_binade [of 5]) (simp_all add: powr_minus_divide powr_numeral)
qed

lemma exponent_default:
  "gain_exponent default_gain_stage v =
     to_float (to_float (- 32 + to_float (38 * to_float (to_float (of_int (gain_index default_gain_stage v)) / 38))) / 20)"
  using to_float_numeral [of "num.Bit0 (num.Bit1 (num.Bit1 (num.Bit0 (num.Bit0 num.One))))"] 
  by (simp add: gain_exponent_def default_gain_steps) (simp add: default_gain_stage_def c_div_def to_float_numeral)

text \<open>The exponent is a monotone function of the gain index.\<close>

definition exponent_at :: "int \<Rightarrow> real" where
  "exponent_at k = to_float (to_float (- 32 + to_float (38 * to_float (to_float (of_int k) / 38))) / 20)"

lemma gain_exponent_at: "gain_exponent default_gain_stage v = exponent_at (gain_index default_gain_stage v)"
  by (simp add: exponent_default exponent_at_def)

lemma exponent_at_mono: "j \<le> k \<Longrightarrow> exponent_at j \<le> exponent_at k"
  unfolding exponent_at_def
  by (intro binary32.rnd_mono divide_right_mono add_left_mono mult_left_mono) simp_all

lemma exponent_at_unity: "exponent_at 32 = 0"
proof -
  have "to_float (of_int 32) = 32" using to_float_numeral [of "num.Bit0 (num.Bit0 (num.Bit0 (num.Bit0 (num.Bit0 num.One))))"] by simp
  then have "to_float (to_float (of_int 32) / 38) = 14128182 / 2 ^ 24" by (simp only: float_32_38)
  then show ?thesis unfolding exponent_at_def
    by (simp only: float_unity_exponent) (simp add: binary32.rnd_0)
qed

lemma below_minimum_index:
  assumes "- (2 ^ 31) \<le> v" and "v < - 3200"
  shows "gain_index default_gain_stage v = (2 ^ 32 + v + 3200) div 100"
proof -
  let ?w = "word_of_int (v - - 3200) :: u32"
  have "uint ?w = (v - - 3200) mod 2 ^ 32" by (subst uint_word_of_int) simp
  also have "\<dots> = (v - - 3200 + 2 ^ 32) mod 2 ^ 32" by (rule mod_add_self2 [symmetric])
  also have "\<dots> = 2 ^ 32 + v + 3200"
    using assms by (subst mod_pos_pos_trivial) simp_all
  finally have u: "uint (?w div 100) = (2 ^ 32 + v + 3200) div 100" by (simp add: uint_div)
  moreover have "(2 ^ 32 + v + 3200) div 100 < 2 ^ 31" "- (2 ^ 31) \<le> (2 ^ 32 + v + 3200) div 100"
    using assms by (simp_all add: div_less_iff_less_mult)
  ultimately have "sint (?w div 100) = (2 ^ 32 + v + 3200) div 100"
    by (simp add: sint_uint signed_take_bit_int_eq_self)
  then show ?thesis unfolding gain_index_def default_gain_stage_def by (simp only: audio_gain.simps)
qed

text \<open>What the code relies on of \<open>pow\<close>: monotone in the exponent, and exact at 0.\<close>

definition pow_ok :: "(real \<Rightarrow> real \<Rightarrow> real) \<Rightarrow> bool" where
  "pow_ok c_pow \<longleftrightarrow> c_pow 10 0 = 1 \<and> (\<forall>x y. x \<le> y \<longrightarrow> c_pow 10 x \<le> c_pow 10 y)"

lemma pow_okD: "pow_ok c_pow \<Longrightarrow> c_pow 10 0 = 1" "pow_ok c_pow \<Longrightarrow> x \<le> y \<Longrightarrow> c_pow 10 x \<le> c_pow 10 y"
  by (auto simp: pow_ok_def)

lemma amplitude_index_mono:
  assumes "pow_ok c_pow" and "gain_index default_gain_stage v \<le> gain_index default_gain_stage w"
  shows "amplitude_of_gain c_pow default_gain_stage v \<le> amplitude_of_gain c_pow default_gain_stage w"
  unfolding amplitude_of_gain_def gain_exponent_at
  by (intro binary32.rnd_mono pow_okD(2) [OF assms(1)] exponent_at_mono assms(2))

text \<open>
  The gain curve of a stream at the default stage (-32 dB to 6 dB in steps of 1 dB): a larger
  gain value never gives a smaller amplitude, the value 0 gives exactly the amplitude 1, and so no
  value from the minimum up to 0 amplifies.
\<close>

theorem gain_curve_monotone:
  assumes "pow_ok c_pow" and "- 3200 \<le> v" and "v \<le> w" and "w < 2 ^ 31 - 3200"
  shows "amplitude_of_gain c_pow default_gain_stage v \<le> amplitude_of_gain c_pow default_gain_stage w \<and>
    amplitude_of_gain c_pow default_gain_stage 0 = 1 \<and>
    (w \<le> 0 \<longrightarrow> amplitude_of_gain c_pow default_gain_stage w \<le> 1)"
proof -
  have zero: "amplitude_of_gain c_pow default_gain_stage 0 = 1"
    using default_gain_index [of 0] binary32.rnd_int [of 1]
    by (simp add: amplitude_of_gain_def gain_exponent_at exponent_at_unity pow_okD(1) [OF assms(1)])
  have idx: "gain_index default_gain_stage a \<le> gain_index default_gain_stage b"
    if "- 3200 \<le> a" "a \<le> b" "b < 2 ^ 31 - 3200" for a b
    using that by (simp add: default_gain_index zdiv_mono1)
  have "amplitude_of_gain c_pow default_gain_stage v \<le> amplitude_of_gain c_pow default_gain_stage w"
    using assms by (intro amplitude_index_mono idx) simp_all
  moreover have "w \<le> 0 \<longrightarrow> amplitude_of_gain c_pow default_gain_stage w \<le> amplitude_of_gain c_pow default_gain_stage 0"
    using assms by (auto intro!: amplitude_index_mono idx)
  ultimately show ?thesis using zero by simp
qed

lemma powr_pow_ok: "pow_ok (powr)"
  by (auto simp: pow_ok_def intro: powr_mono)

theorem gain_curve_monotone_witness:
  "amplitude_of_gain (powr) default_gain_stage (- 3200) \<le> amplitude_of_gain (powr) default_gain_stage (- 100) \<and>
   amplitude_of_gain (powr) default_gain_stage (- 100) \<le> 1"
  using gain_curve_monotone [OF powr_pow_ok, of "- 3200" "- 100"] by simp

text \<open>
  A gain value below the stage's minimum is not rejected: the unsigned division turns the
  negative difference into a huge index, and the amplitude is at least that of the maximum gain.
\<close>

theorem gain_below_minimum_amplifies:
  assumes "pow_ok c_pow" and "- (2 ^ 31) \<le> v" and "v < - 3200"
  shows "21474836 \<le> gain_index default_gain_stage v \<and>
    amplitude_of_gain c_pow default_gain_stage 600 \<le> amplitude_of_gain c_pow default_gain_stage v"
proof -
  have "21474836 \<le> gain_index default_gain_stage v"
    using assms(2,3) by (simp add: below_minimum_index)
  moreover have "gain_index default_gain_stage 600 = 38" using default_gain_index [of 600] by simp
  ultimately show ?thesis by (auto intro!: amplitude_index_mono [OF assms(1)])
qed

theorem gain_below_minimum_amplifies_witness:
  "amplitude_of_gain (powr) default_gain_stage 600 \<le> amplitude_of_gain (powr) default_gain_stage (- 3300)"
  using gain_below_minimum_amplifies [OF powr_pow_ok, of "- 3300"] by simp

end
