(* ===== verification/Audio_Out_Write.thy ===== *)
theory Audio_Out_Write
  imports Audio_Out
begin

text \<open>
  Time and data of the output stream, \<open>hals/audio/driver/audio_hw.c\<close>: the presentation
  position, \<open>out_write\<close>, the render position and standby. The monotonic clock is an argument.
  Where the code releases \<open>out->lock\<close> (sleeping, or waiting on \<open>write_wake\<close>), what the
  other threads do to the stream is a parameter.
\<close>

section \<open>The presentation position\<close>

text \<open>
  Microseconds of a \<open>timespec\<close>. Products are 64 bit; \<open>to_int64\<close> marks where a signed
  overflow, undefined in C, would change the value.
\<close>

definition clock_us :: "timespec \<Rightarrow> int" where
  "clock_us t = c_div (to_int64 (tv_sec t * 1000000000 + tv_nsec t)) 1000"

definition position_since :: "u32 \<Rightarrow> timespec \<Rightarrow> timespec \<Rightarrow> int" where
  "position_since rate first curtime =
     (let d = c_div (to_int64 ((clock_us curtime - clock_us first) * uint rate)) 1000000
      in if d < 0 then 0 else d)"

text \<open>The position and the updated stream.\<close>

definition get_current_output_position ::
    "timespec \<Rightarrow> 'z generic_stream_out_scheme \<Rightarrow> u64 \<times> 'z generic_stream_out_scheme" where
  "get_current_output_position curtime out =
     (let position_since_underrun =
            (if so_standby out then 0
             else position_since (out_get_sample_rate out) (so_underrun_time out) curtime);
          position = so_underrun_position out + word_of_int position_since_underrun
      in if so_frames_written out < position
         then (so_frames_written out,
               out\<lparr>so_underrun_position := so_frames_written out, so_underrun_time := curtime,
                   so_frames_total_buffered := 0\<rparr>)
         else (position, out))"

definition out_get_presentation_position ::
    "bool \<Rightarrow> timespec \<Rightarrow> 'z generic_stream_out_scheme option \<Rightarrow>
     int \<times> u64 option \<times> timespec option \<times> 'z generic_stream_out_scheme option" where
  "out_get_presentation_position pointers_ok curtime stream =
     (case stream of
        Some out \<Rightarrow>
          if pointers_ok then
            (case get_current_output_position curtime out of
               (p, out') \<Rightarrow> (0, Some p, Some curtime, Some out'))
          else (- EINVAL, None, None, stream)
      | None \<Rightarrow> (- EINVAL, None, None, None))"

text \<open>\<open>frames_rendered\<close> is truncated to 32 bits.\<close>

definition out_get_render_position :: "bool \<Rightarrow> 'z generic_stream_out_scheme option \<Rightarrow> int \<times> u32 option" where
  "out_get_render_position pointer_ok stream =
     (case stream of
        Some out \<Rightarrow> if pointer_ok then (0, Some (ucast (so_frames_rendered out))) else (- EINVAL, None)
      | None \<Rightarrow> (- EINVAL, None))"

section \<open>Writing\<close>

text \<open>
  The loop that fills the ring. \<open>env j\<close> is what happens to the stream during the \<open>j\<close>-th
  wait on \<open>write_wake\<close>; \<open>None\<close> is a fault or a wait that never ends.
\<close>

partial_function (option) out_write_loop ::
    "(nat \<Rightarrow> 'z generic_stream_out_scheme \<Rightarrow> 'z generic_stream_out_scheme option) \<Rightarrow> nat \<Rightarrow>
     'z generic_stream_out_scheme \<Rightarrow> bytes \<Rightarrow> size_t \<Rightarrow> size_t \<Rightarrow> size_t \<Rightarrow>
     'z generic_stream_out_scheme option" where
  "out_write_loop env j out buf fs frames frames_written =
     (case audio_vbuffer_write (so_buffer out) (drop (unat (frames_written * fs)) buf) (frames - frames_written) of
        None \<Rightarrow> None
      | Some (vb, k) \<Rightarrow>
         (let out' = out\<lparr>so_buffer := vb\<rparr>; frames_written' = frames_written + k
          in if frames_written' < frames
             then Option.bind (env j out') (\<lambda>out''. out_write_loop env (Suc j) out'' buf fs frames frames_written')
             else Some out'))"

text \<open>The part of \<open>out_write\<close> before the data: leaving standby and the time to sleep.\<close>

definition out_write_begin :: "timespec \<Rightarrow> 'z generic_stream_out_scheme \<Rightarrow> 'z generic_stream_out_scheme" where
  "out_write_begin current_time out =
     (let out = out\<lparr>so_worker_standby := False\<rparr>;
          out = snd (get_current_output_position current_time out)
      in if so_standby out
         then out\<lparr>so_standby := False, so_underrun_time := current_time, so_frames_rendered := 0,
                  so_frames_total_buffered := 0\<rparr>
         else out)"

definition out_write_sleep_us :: "size_t \<Rightarrow> 'z generic_stream_out_scheme \<Rightarrow> u64" where
  "out_write_sleep_us frames out =
     (let available_frames_in_buffer = int_to_size (audio_vbuffer_dead (Some (so_buffer out)));
          frames_sleep = (if frames < available_frames_in_buffer then 0
                          else size_to_int (frames - available_frames_in_buffer))
      in word_of_int (c_div (frames_sleep * 1000000) (uint (out_get_sample_rate out))))"

text \<open>
  \<open>out_write\<close>: the stream afterwards, the caller's buffer (the gain is applied in place) and
  the result. \<open>slept us\<close> is what happens during the sleep, \<open>master_mute\<close> the device's flag.
  \<open>None\<close> covers a zero frame size or rate.
\<close>

definition out_write ::
    "(audio_config \<Rightarrow> size_t) \<Rightarrow> bool \<Rightarrow> (u64 \<Rightarrow> 'z generic_stream_out_scheme \<Rightarrow> 'z generic_stream_out_scheme) \<Rightarrow>
     (nat \<Rightarrow> 'z generic_stream_out_scheme \<Rightarrow> 'z generic_stream_out_scheme option) \<Rightarrow>
     timespec \<Rightarrow> 'z generic_stream_out_scheme \<Rightarrow> bytes \<Rightarrow> size_t \<Rightarrow>
     ('z generic_stream_out_scheme \<times> bytes \<times> int) option" where
  "out_write frame_size_of master_mute slept env current_time out buf nbytes =
     (let fs = frame_size_of (so_req_config out); frames = nbytes div fs in
      if fs = 0 \<or> out_get_sample_rate out = 0 then None
      else
        let out = out_write_begin current_time out;
            sleep_time_us = out_write_sleep_us frames out;
            out = (if 0 < sleep_time_us then slept sleep_time_us out else out);
            muted = master_mute \<or> so_is_muted out;
            buf' = (if muted then buf else out_apply_gain out buf nbytes)
        in map_option
             (\<lambda>out. (out\<lparr>so_frames_written := so_frames_written out + frames,
                         so_frames_rendered := so_frames_rendered out + frames,
                         so_frames_total_buffered := so_frames_total_buffered out + frames\<rparr>,
                     buf', to_int64 (uint nbytes)))
             (if muted then Some out else out_write_loop env 0 out buf' fs frames 0))"

section \<open>Standby\<close>

text \<open>
  \<open>do_out_standby\<close> passes the address of \<open>out->underrun_position\<close> as the result, so each
  round also moves the start of the count to the position just computed. \<open>slept j us\<close> gives
  the stream and the clock after the \<open>j\<close>-th sleep.
\<close>

partial_function (option) out_standby_loop ::
    "(nat \<Rightarrow> u64 \<Rightarrow> 'z generic_stream_out_scheme \<times> timespec \<Rightarrow> 'z generic_stream_out_scheme \<times> timespec) \<Rightarrow>
     nat \<Rightarrow> 'z generic_stream_out_scheme \<times> timespec \<Rightarrow> ('z generic_stream_out_scheme \<times> timespec) option" where
  "out_standby_loop slept j s =
     (let (position, out) = get_current_output_position (snd s) (fst s);
          out = out\<lparr>so_underrun_position := position\<rparr>;
          frames_sleep = to_int32 (uint (so_frames_written out - so_underrun_position out))
      in if frames_sleep = 0 then Some (out, snd s)
         else out_standby_loop slept (Suc j)
                (slept j (word_of_int (c_div (frames_sleep * 1000000) (uint (out_get_sample_rate out)))) (out, snd s)))"

definition do_out_standby ::
    "(nat \<Rightarrow> u64 \<Rightarrow> 'z generic_stream_out_scheme \<times> timespec \<Rightarrow> 'z generic_stream_out_scheme \<times> timespec) \<Rightarrow>
     timespec \<Rightarrow> 'z generic_stream_out_scheme \<Rightarrow> ('z generic_stream_out_scheme \<times> timespec) option" where
  "do_out_standby slept now out =
     (if so_standby out then Some (out, now)
      else map_option (\<lambda>(out, now). (out\<lparr>so_worker_standby := True, so_standby := True\<rparr>, now))
             (out_standby_loop slept 0 (out, now)))"

definition out_standby ::
    "(nat \<Rightarrow> u64 \<Rightarrow> 'z generic_stream_out_scheme \<times> timespec \<Rightarrow> 'z generic_stream_out_scheme \<times> timespec) \<Rightarrow>
     timespec \<Rightarrow> 'z generic_stream_out_scheme \<Rightarrow> ('z generic_stream_out_scheme \<times> timespec \<times> int) option" where
  "out_standby slept now out = map_option (\<lambda>(out, now). (out, now, 0)) (do_out_standby slept now out)"
section \<open>Lemmas on the position\<close>

lemma c_div_nonpos: "a \<le> 0 \<Longrightarrow> 0 < b \<Longrightarrow> c_div a b \<le> 0"
  using pos_imp_zdiv_nonneg_iff [of b "- a"] by (auto simp: c_div_def sgn_if)

lemma c_div_bound: "0 < b \<Longrightarrow> \<bar>c_div a b\<bar> \<le> \<bar>a\<bar> div b"
  using pos_imp_zdiv_nonneg_iff [of b "\<bar>a\<bar>"] by (auto simp: c_div_def sgn_if abs_if)

lemma position_since_bounds: "0 \<le> position_since rate a b" "position_since rate a b < 2 ^ 44"
proof -
  let ?x = "to_int64 ((clock_us b - clock_us a) * uint rate)"
  have "- (2 ^ 63) \<le> ?x" "?x < 2 ^ 63"
    using signed_take_bit_int_greater_eq_minus_exp [of 63 "(clock_us b - clock_us a) * uint rate"]
      signed_take_bit_int_less_exp [of 63 "(clock_us b - clock_us a) * uint rate"]
    by (simp_all add: to_int64_def)
  then have "\<bar>?x\<bar> \<le> 2 ^ 63" by (simp add: abs_le_iff)
  then have "\<bar>?x\<bar> div 1000000 \<le> 2 ^ 63 div 1000000" by (rule zdiv_mono1) simp
  then have "c_div ?x 1000000 < 2 ^ 44" using c_div_bound [of 1000000 ?x] by simp
  then show "0 \<le> position_since rate a b" "position_since rate a b < 2 ^ 44"
    by (simp_all add: position_since_def Let_def)
qed

definition clock_in_range :: "'z generic_stream_out_scheme \<Rightarrow> timespec \<Rightarrow> bool" where
  "clock_in_range out t \<longleftrightarrow>
     \<bar>(clock_us t - clock_us (so_underrun_time out)) * uint (out_get_sample_rate out)\<bar> < 2 ^ 63"

lemma position_since_eq:
  assumes "\<bar>(clock_us t - clock_us first) * uint rate\<bar> < 2 ^ 63"
  shows "position_since rate first t = max 0 ((clock_us t - clock_us first) * uint rate) div 1000000"
proof -
  let ?x = "(clock_us t - clock_us first) * uint rate"
  have x: "to_int64 ?x = ?x" using assms by (intro to_int64_id) (simp_all add: abs_less_iff)
  show ?thesis
  proof (cases "0 \<le> ?x")
    case True
    then show ?thesis by (simp add: position_since_def x c_div_nonneg Let_def max_absorb2 pos_imp_zdiv_neg_iff not_less)
  next
    case False
    then have "c_div ?x 1000000 \<le> 0" by (intro c_div_nonpos) simp_all
    then show ?thesis using False by (simp add: position_since_def x Let_def)
  qed
qed

text \<open>The counters of a stream: the count starts no later than what was written.\<close>

definition out_time_ok :: "'z generic_stream_out_scheme \<Rightarrow> bool" where
  "out_time_ok out \<longleftrightarrow> so_underrun_position out \<le> so_frames_written out \<and> unat (so_frames_written out) < 2 ^ 63"

definition out_elapsed :: "timespec \<Rightarrow> 'z generic_stream_out_scheme \<Rightarrow> nat" where
  "out_elapsed t out =
     (if so_standby out then 0
      else nat (position_since (out_get_sample_rate out) (so_underrun_time out) t))"

lemma out_elapsed_small: "out_elapsed t out < 2 ^ 44"
  using position_since_bounds [of "out_get_sample_rate out" "so_underrun_time out" t]
  by (simp add: out_elapsed_def nat_less_iff)

lemma position_spec:
  assumes "out_time_ok out" and "get_current_output_position t out = (p, out')"
  shows "unat p = min (unat (so_frames_written out)) (unat (so_underrun_position out) + out_elapsed t out)"
    and "out' = (if unat (so_frames_written out) < unat (so_underrun_position out) + out_elapsed t out
      then out\<lparr>so_underrun_position := so_frames_written out, so_underrun_time := t, so_frames_total_buffered := 0\<rparr>
      else out)"
proof -
  let ?d = "out_elapsed t out"
  define q where "q = so_underrun_position out + of_nat ?d"
  have since: "(if so_standby out then 0
      else position_since (out_get_sample_rate out) (so_underrun_time out) t) = int ?d"
    using position_since_bounds [of "out_get_sample_rate out" "so_underrun_time out" t] by (simp add: out_elapsed_def)
  have b: "unat (so_underrun_position out) < 2 ^ 63" "?d < 2 ^ 44"
    using assms(1) out_elapsed_small by (auto simp: out_time_ok_def word_le_nat_alt)
  then have "unat (so_underrun_position out) + ?d < 2 ^ 64" by simp
  then have q: "unat q = unat (so_underrun_position out) + ?d"
    unfolding q_def by (rule unat_add_nat_bounded)
  have "get_current_output_position t out =
      (if so_frames_written out < q
       then (so_frames_written out, out\<lparr>so_underrun_position := so_frames_written out, so_underrun_time := t,
               so_frames_total_buffered := 0\<rparr>)
       else (q, out))"
    unfolding get_current_output_position_def Let_def since by (simp add: q_def)
  with assms(2) q show "unat p = min (unat (so_frames_written out)) (unat (so_underrun_position out) + ?d)"
    and "out' = (if unat (so_frames_written out) < unat (so_underrun_position out) + ?d
      then out\<lparr>so_underrun_position := so_frames_written out, so_underrun_time := t, so_frames_total_buffered := 0\<rparr>
      else out)"
    by (auto simp: word_less_nat_alt min_def split: if_splits)
qed

lemma elapsed_mono:
  assumes "clock_in_range out t1" and "clock_in_range out t2" and "clock_us t1 \<le> clock_us t2"
  shows "out_elapsed t1 out \<le> out_elapsed t2 out"
proof -
  have "(clock_us t1 - clock_us (so_underrun_time out)) * uint (out_get_sample_rate out) \<le>
      (clock_us t2 - clock_us (so_underrun_time out)) * uint (out_get_sample_rate out)"
    using assms(3) by (intro mult_right_mono) simp_all
  then show ?thesis
    using assms(1,2) unfolding out_elapsed_def clock_in_range_def
    by (auto simp: position_since_eq intro!: nat_mono zdiv_mono1)
qed

section \<open>Properties of the position\<close>

text \<open>
  C36. The presentation position. At every call it is the position at the last underrun plus the
  frames that have elapsed since, but never more than the frames written; two calls in clock order
  return positions in order, and the counters stay consistent.
\<close>

theorem output_position_monotone:
  assumes "out_time_ok out" and "clock_in_range out t1" and "clock_in_range out t2"
    and "clock_us t1 \<le> clock_us t2"
    and "get_current_output_position t1 out = (p1, out1)" and "get_current_output_position t2 out1 = (p2, out2)"
  shows "unat p1 = min (unat (so_frames_written out)) (unat (so_underrun_position out) + out_elapsed t1 out) \<and>
    p1 \<le> p2 \<and> p2 \<le> so_frames_written out \<and>
    out_time_ok out2 \<and> so_frames_written out2 = so_frames_written out"
proof -
  note s1 = position_spec [OF assms(1,5)]
  have ok1: "out_time_ok out1" and fw1: "so_frames_written out1 = so_frames_written out"
    using assms(1) by (auto simp: s1(2) out_time_ok_def)
  note s2 = position_spec [OF ok1 assms(6)]
  have "out_time_ok out2" "so_frames_written out2 = so_frames_written out"
    using ok1 fw1 by (auto simp: s2(2) out_time_ok_def)
  moreover have "unat p1 \<le> unat p2"
    using s1 s2(1) elapsed_mono [OF assms(2-4)] fw1 by (auto split: if_splits)
  moreover have "unat p2 \<le> unat (so_frames_written out)" using s2(1) fw1 by simp
  ultimately show ?thesis using s1(1) by (simp add: word_le_nat_alt)
qed

theorem output_position_monotone_witness:
  "\<exists>p1 p2 out1 out2.
     get_current_output_position \<lparr>tv_sec = 1, tv_nsec = 0\<rparr>
       (so_example\<lparr>so_standby := False, so_frames_written := 60000\<rparr>) = (p1, out1) \<and>
     get_current_output_position \<lparr>tv_sec = 2, tv_nsec = 0\<rparr> out1 = (p2, out2) \<and>
     unat p1 = 48000 \<and> p1 \<le> p2 \<and> p2 \<le> 60000"
proof -
  let ?o = "so_example\<lparr>so_standby := False, so_frames_written := 60000\<rparr>"
  let ?t1 = "\<lparr>tv_sec = 1, tv_nsec = 0\<rparr>" and ?t2 = "\<lparr>tv_sec = 2, tv_nsec = 0\<rparr>"
  have c: "clock_us ?t1 = 1000000" "clock_us ?t2 = 2000000" "clock_us \<lparr>tv_sec = 0, tv_nsec = 0\<rparr> = 0"
    by (simp_all add: clock_us_def to_int64_id c_div_def)
  obtain p1 out1 where p1: "get_current_output_position ?t1 ?o = (p1, out1)" by fastforce
  obtain p2 out2 where p2: "get_current_output_position ?t2 out1 = (p2, out2)" by fastforce
  have "out_elapsed ?t1 ?o = 48000"
    by (simp add: out_elapsed_def position_since_eq c so_example_def out_get_sample_rate_def)
  then show ?thesis
    using output_position_monotone [OF _ _ _ _ p1 p2] p1 p2
    by (auto simp: c out_time_ok_def clock_in_range_def so_example_def out_get_sample_rate_def)
qed

section \<open>Writing against a worker\<close>

text \<open>The stream together with a record of what the worker has taken out of the ring.\<close>

record stream_log = generic_stream_out +
  so_log :: bytes

text \<open>
  What a wait must achieve: the worker takes \<open>n\<close> frames out of the ring, at least one if there
  is one, and touches nothing else of the stream.
\<close>

definition drains :: "nat \<Rightarrow> (nat \<Rightarrow> stream_log \<Rightarrow> stream_log option) \<Rightarrow> bool" where
  "drains fs env \<longleftrightarrow> (\<forall>j out. vb_ok (so_buffer out) \<and> vb_fs (so_buffer out) = fs \<longrightarrow> (\<exists>vb n.
     env j out = Some (out\<lparr>so_buffer := vb, so_log := so_log out @ take (n * vb_fs (so_buffer out)) (vb_contents (so_buffer out))\<rparr>) \<and>
     vb_ok vb \<and> vb_fs vb = vb_fs (so_buffer out) \<and> vb_cap vb = vb_cap (so_buffer out) \<and>
     vb_level vb = vb_level (so_buffer out) - n \<and> (0 < vb_level (so_buffer out) \<longrightarrow> 0 < n) \<and>
     vb_contents vb = drop (n * vb_fs (so_buffer out)) (vb_contents (so_buffer out))))"

text \<open>The read of \<open>out_write_worker\<close>, one period at a time, is such a wait.\<close>

definition worker_drains :: "size_t \<Rightarrow> nat \<Rightarrow> stream_log \<Rightarrow> stream_log option" where
  "worker_drains period j out =
     (case audio_vbuffer_read (so_buffer out) (replicate (unat period * vb_fs (so_buffer out)) 0) period of
        None \<Rightarrow> None
      | Some (vb, dat, k) \<Rightarrow>
         Some (out\<lparr>so_buffer := vb, so_log := so_log out @ take (unat k * vb_fs (so_buffer out)) dat\<rparr>))"

text \<open>The two transfers of the ring, in the form the loops use.\<close>

lemma vb_read_some:
  assumes "vb_ok v" and "unat n * vb_fs v < 2 ^ 64"
  shows "\<exists>v' dat. audio_vbuffer_read v (replicate (unat n * vb_fs v) 0) n =
      Some (v', dat, of_nat (min (unat n) (vb_level v))) \<and>
    take (min (unat n) (vb_level v) * vb_fs v) dat = take (min (unat n) (vb_level v) * vb_fs v) (vb_contents v) \<and>
    vb_ok v' \<and> vb_fs v' = vb_fs v \<and> vb_cap v' = vb_cap v \<and>
    vb_level v' = vb_level v - min (unat n) (vb_level v) \<and>
    vb_contents v' = drop (min (unat n) (vb_level v) * vb_fs v) (vb_contents v)"
proof -
  let ?m = "min (unat n) (vb_level v)"
  have l: "length (take (?m * vb_fs v) (vb_contents v)) = ?m * vb_fs v"
    by (simp add: vb.contents_length [OF assms(1)])
  have lev: "vb_level v - unat n = vb_level v - ?m" by simp
  have buf: "unat n * vb_fs v \<le> length (replicate (unat n * vb_fs v) (0 :: 8 word))"
    "length (replicate (unat n * vb_fs v) (0 :: 8 word)) < 2 ^ 64" using assms(2) by simp_all
  obtain v' where v': "audio_vbuffer_read v (replicate (unat n * vb_fs v) 0) n =
      Some (v', take (?m * vb_fs v) (vb_contents v) @ drop (?m * vb_fs v) (replicate (unat n * vb_fs v) 0), of_nat ?m)"
    "vb_ok v'" "vb_fs v' = vb_fs v" "vb_cap v' = vb_cap v" "vb_level v' = vb_level v - unat n"
    "vb_contents v' = drop (?m * vb_fs v) (vb_contents v)"
    using vb.read_law [OF assms(1) buf] by blast
  have "take (?m * vb_fs v) (take (?m * vb_fs v) (vb_contents v) @ drop (?m * vb_fs v) (replicate (unat n * vb_fs v) 0))
      = take (?m * vb_fs v) (vb_contents v)"
    using l by simp
  then show ?thesis using v' unfolding lev by blast
qed

lemma worker_drains_drains:
  assumes "0 < unat period" and "unat period * fs < 2 ^ 64"
  shows "drains fs (worker_drains period)"
  unfolding drains_def
proof (intro allI impI)
  fix j :: nat and out :: stream_log
  assume "vb_ok (so_buffer out) \<and> vb_fs (so_buffer out) = fs"
  then have ok: "vb_ok (so_buffer out)" and fs: "fs = vb_fs (so_buffer out)" by simp_all
  let ?v = "so_buffer out"
  let ?n = "min (unat period) (vb_level ?v)"
  obtain vb dat where r: "audio_vbuffer_read ?v (replicate (unat period * vb_fs ?v) 0) period = Some (vb, dat, of_nat ?n)"
    "take (?n * vb_fs ?v) dat = take (?n * vb_fs ?v) (vb_contents ?v)" "vb_ok vb" "vb_fs vb = vb_fs ?v"
    "vb_cap vb = vb_cap ?v" "vb_level vb = vb_level ?v - ?n" "vb_contents vb = drop (?n * vb_fs ?v) (vb_contents ?v)"
    using vb_read_some [OF ok assms(2) [unfolded fs]] by blast
  have "worker_drains period j out =
      Some (out\<lparr>so_buffer := vb, so_log := so_log out @ take (?n * vb_fs ?v) (vb_contents ?v)\<rparr>)"
    by (simp add: worker_drains_def r(1) vb.unat_moved(1) [OF ok] r(2))
  moreover have "0 < vb_level ?v \<longrightarrow> 0 < ?n" using assms(1) by simp
  ultimately show "\<exists>vb n. worker_drains period j out =
      Some (out\<lparr>so_buffer := vb, so_log := so_log out @ take (n * vb_fs ?v) (vb_contents ?v)\<rparr>) \<and>
     vb_ok vb \<and> vb_fs vb = vb_fs ?v \<and> vb_cap vb = vb_cap ?v \<and> vb_level vb = vb_level ?v - n \<and>
     (0 < vb_level ?v \<longrightarrow> 0 < n) \<and> vb_contents vb = drop (n * vb_fs ?v) (vb_contents ?v)"
    using r(3-7) by (intro exI [of _ vb] exI [of _ ?n] conjI)
qed

lemma drainsD:
  assumes "drains fs env" and "vb_ok (so_buffer out)" and "vb_fs (so_buffer out) = fs"
  shows "\<exists>out' n. env j out = Some out' \<and> vb_ok (so_buffer out') \<and> vb_fs (so_buffer out') = fs \<and>
    vb_cap (so_buffer out') = vb_cap (so_buffer out) \<and>
    vb_level (so_buffer out') = vb_level (so_buffer out) - n \<and> (0 < vb_level (so_buffer out) \<longrightarrow> 0 < n) \<and>
    so_log out' @ vb_contents (so_buffer out') = so_log out @ vb_contents (so_buffer out) \<and>
    out' = out\<lparr>so_buffer := so_buffer out', so_log := so_log out'\<rparr>"
proof -
  obtain vb n where v: "env j out =
      Some (out\<lparr>so_buffer := vb, so_log := so_log out @ take (n * fs) (vb_contents (so_buffer out))\<rparr>)"
    "vb_ok vb" "vb_fs vb = fs" "vb_cap vb = vb_cap (so_buffer out)" "vb_level vb = vb_level (so_buffer out) - n"
    "0 < vb_level (so_buffer out) \<longrightarrow> 0 < n" "vb_contents vb = drop (n * fs) (vb_contents (so_buffer out))"
    using assms unfolding drains_def by blast
  then show ?thesis by (intro exI conjI) (assumption | simp)+
qed

lemma take_split_frames:
  fixes w k f s :: nat
  assumes "w + k \<le> f"
  shows "take ((f - w) * s) (drop (w * s) b) =
    take (k * s) (drop (w * s) b) @ take ((f - (w + k)) * s) (drop ((w + k) * s) b)"
proof -
  have "f - w = k + (f - (w + k))" using assms by simp
  then have "(f - w) * s = k * s + (f - (w + k)) * s" by (metis add_mult_distrib)
  then show ?thesis by (simp only: take_add drop_drop) (simp add: add_mult_distrib add.commute)
qed

text \<open>Every second round moves at least one frame.\<close>

lemma loop_measure:
  "w + k < f \<Longrightarrow> (k = 0 \<Longrightarrow> full) \<Longrightarrow> 2 * (f - (w + k)) + 0 < 2 * (f - w) + (if full then 1 else 0)"
  for w k f :: nat
  by (cases "k = 0") auto

text \<open>The loop ends with all frames in the ring or already taken, in order.\<close>

lemma out_write_loop_spec:
  assumes "drains (unat fs) env" and "vb_ok (so_buffer out)" and "vb_fs (so_buffer out) = unat fs"
    and "unat frames * unat fs \<le> length buf" and "length buf < 2 ^ 64" and "w \<le> frames"
  shows "\<exists>out'. out_write_loop env j out buf fs frames w = Some out' \<and>
    vb_ok (so_buffer out') \<and> vb_fs (so_buffer out') = unat fs \<and> vb_cap (so_buffer out') = vb_cap (so_buffer out) \<and>
    so_log out' @ vb_contents (so_buffer out') =
      so_log out @ vb_contents (so_buffer out) @ take ((unat frames - unat w) * unat fs) (drop (unat w * unat fs) buf) \<and>
    out' = out\<lparr>so_buffer := so_buffer out', so_log := so_log out'\<rparr>"
  using assms(2,3,6)
proof (induction "2 * (unat frames - unat w) + (if vb_level (so_buffer out) = vb_cap (so_buffer out) then 1 else 0)"
    arbitrary: j out w rule: less_induct)
  case less
  let ?v = "so_buffer out" and ?fs = "unat fs" and ?b = "drop (unat w * unat fs) buf"
  let ?k = "min (unat frames - unat w) (vb_cap ?v - vb_level ?v)"
  have wf: "unat w \<le> unat frames" using less.prems(3) by (simp add: word_le_nat_alt)
  have rem: "unat (frames - w) = unat frames - unat w" using less.prems(3) by (rule unat_sub_le)
  have wfs: "unat w * ?fs \<le> unat frames * ?fs" using wf by (rule mult_right_mono) simp
  then have off: "unat (w * fs) = unat w * ?fs" using assms(4,5) by (intro unat_mult_bounded) linarith
  have pre: "unat (frames - w) * vb_fs ?v \<le> length ?b" "length ?b < 2 ^ 64"
    using assms(4,5) wfs by (simp_all add: rem less.prems(2) diff_mult_distrib)
  obtain v' where wr: "audio_vbuffer_write ?v ?b (frames - w) = Some (v', of_nat ?k)"
    "vb_ok v'" "vb_fs v' = ?fs" "vb_cap v' = vb_cap ?v" "vb_level v' = vb_level ?v + ?k"
    "vb_contents v' = vb_contents ?v @ take (?k * ?fs) ?b"
    using vb.write_law [OF less.prems(1) pre] unfolding rem less.prems(2) by blast
  have k: "unat (of_nat ?k :: size_t) = ?k" by (rule vb.unat_moved(2) [OF less.prems(1)])
  have "unat w + ?k < 2 ^ 64" using wf unsigned_less [of frames, where ?'a = nat] by simp
  then have wk: "unat (w + of_nat ?k) = unat w + ?k" by (rule unat_add_nat_bounded)
  note step = out_write_loop.simps [of env j out buf fs frames w]
  show ?case
  proof (cases "unat w + ?k < unat frames")
    case False
    then have all: "?k = unat frames - unat w" by simp
    have "\<not> w + of_nat ?k < frames" unfolding word_less_nat_alt wk by (rule False)
    then have "out_write_loop env j out buf fs frames w = Some (out\<lparr>so_buffer := v'\<rparr>)"
      by (subst step) (simp add: off wr(1) Let_def)
    then show ?thesis using wr all by simp
  next
    case True
    then have full: "?k = vb_cap ?v - vb_level ?v" by (simp add: min_def split: if_splits)
    have lev: "vb_level v' = vb_cap ?v" using wr(5) full vb.level_le [OF less.prems(1)] by simp
    let ?o = "out\<lparr>so_buffer := v'\<rparr>"
    obtain o2 n where o2: "env j ?o = Some o2" "vb_ok (so_buffer o2)" "vb_fs (so_buffer o2) = ?fs"
      "vb_cap (so_buffer o2) = vb_cap ?v" "vb_level (so_buffer o2) = vb_level v' - n" "0 < vb_level v' \<longrightarrow> 0 < n"
      "so_log o2 @ vb_contents (so_buffer o2) = so_log out @ vb_contents v'"
      "o2 = ?o\<lparr>so_buffer := so_buffer o2, so_log := so_log o2\<rparr>"
      using drainsD [OF assms(1), of ?o j] wr(2-4) by auto
    have room: "vb_level (so_buffer o2) \<noteq> vb_cap (so_buffer o2)"
      using o2(4-6) lev vb_okD(1) [OF less.prems(1)] by simp
    have w': "w + of_nat ?k \<le> frames" unfolding word_le_nat_alt wk using True by simp
    have "?k = 0 \<Longrightarrow> vb_level ?v = vb_cap ?v"
      using full vb.level_le [OF less.prems(1)] by simp
    note measure = loop_measure [OF True this]
    have dec: "2 * (unat frames - unat (w + of_nat ?k)) +
        (if vb_level (so_buffer o2) = vb_cap (so_buffer o2) then 1 else 0) <
        2 * (unat frames - unat w) + (if vb_level ?v = vb_cap ?v then 1 else 0)"
      unfolding wk if_not_P [OF room] by (rule measure)
    obtain o3 where o3: "out_write_loop env (Suc j) o2 buf fs frames (w + of_nat ?k) = Some o3"
      "vb_ok (so_buffer o3)" "vb_fs (so_buffer o3) = ?fs" "vb_cap (so_buffer o3) = vb_cap (so_buffer o2)"
      "so_log o3 @ vb_contents (so_buffer o3) = so_log o2 @ vb_contents (so_buffer o2) @
         take ((unat frames - (unat w + ?k)) * ?fs) (drop ((unat w + ?k) * ?fs) buf)"
      "o3 = o2\<lparr>so_buffer := so_buffer o3, so_log := so_log o3\<rparr>"
      using less.hyps [OF dec o2(2,3) w', of "Suc j"] unfolding wk by blast
    have "so_log o3 @ vb_contents (so_buffer o3) = so_log out @ vb_contents ?v @
        (take (?k * ?fs) ?b @ take ((unat frames - (unat w + ?k)) * ?fs) (drop ((unat w + ?k) * ?fs) buf))"
      using o3(5) o2(7) wr(6) by simp
    then have "so_log o3 @ vb_contents (so_buffer o3) =
        so_log out @ vb_contents ?v @ take ((unat frames - unat w) * ?fs) ?b"
      unfolding take_split_frames [OF less_imp_le [OF True]] .
    moreover have "o3 = out\<lparr>so_buffer := so_buffer o3, so_log := so_log o3\<rparr>"
      by (subst o3(6), subst o2(8)) simp
    moreover have "w + of_nat ?k < frames" unfolding word_less_nat_alt wk by (rule True)
    then have "out_write_loop env j out buf fs frames w = Some o3"
      using o3(1) o2(1) by (subst step) (simp add: off wr(1) Let_def)
    ultimately show ?thesis using o3(2-4) o2(4) by auto
  qed
qed

section \<open>Properties of writing\<close>

lemma position_keeps [simp]:
  "so_buffer (snd (get_current_output_position t out)) = so_buffer out"
  "so_standby (snd (get_current_output_position t out)) = so_standby out"
  "so_is_muted (snd (get_current_output_position t out)) = so_is_muted out"
  "so_worker_standby (snd (get_current_output_position t out)) = so_worker_standby out"
  "so_frames_written (snd (get_current_output_position t out)) = so_frames_written out"
  "so_req_config (snd (get_current_output_position t out)) = so_req_config out"
  "so_amplitude_ratio (snd (get_current_output_position t out)) = so_amplitude_ratio out"
  "so_is_ducked (snd (get_current_output_position t out)) = so_is_ducked out"
  "so_enabled_channels (snd (get_current_output_position t out)) = so_enabled_channels out"
  "so_log (snd (get_current_output_position t lg)) = so_log lg"
  by (simp_all add: get_current_output_position_def Let_def)

lemma write_begin_fields [simp]:
  "so_buffer (out_write_begin t out) = so_buffer out"
  "so_is_muted (out_write_begin t out) = so_is_muted out"
  "\<not> so_standby (out_write_begin t out)" "\<not> so_worker_standby (out_write_begin t out)"
  "so_frames_written (out_write_begin t out) = so_frames_written out"
  "so_req_config (out_write_begin t out) = so_req_config out"
  "so_log (out_write_begin t lg) = so_log lg"
  by (simp_all add: out_write_begin_def Let_def)

lemma apply_gain_cong:
  assumes "so_amplitude_ratio a = so_amplitude_ratio b" and "so_is_ducked a = so_is_ducked b"
    and "so_enabled_channels a = so_enabled_channels b"
  shows "out_apply_gain a buf n = out_apply_gain b buf n"
proof -
  have "apply_gain_at a i s = apply_gain_at b i s" for i s using assms by (simp add: apply_gain_at_def)
  then have "apply_gain_loop a i ss = apply_gain_loop b i ss" for i ss by (induction ss arbitrary: i) simp_all
  then show ?thesis by (simp add: out_apply_gain_def)
qed

lemma write_begin_gain: "out_apply_gain (out_write_begin t out) buf n = out_apply_gain out buf n"
  by (rule apply_gain_cong) (simp_all add: out_write_begin_def Let_def)

lemma apply_gain_length: "unat n \<le> length buf \<Longrightarrow> length (out_apply_gain out buf n) = length buf"
proof -
  assume n: "unat n \<le> length buf"
  then have "2 * (unat n div 2) \<le> length buf" by linarith
  then show ?thesis using samples_of_take [OF n] by (simp add: out_apply_gain_def Let_def)
qed

text \<open>
  C12. A write to a stream that is not muted, while the worker keeps taking frames: it returns all
  \<open>bytes\<close>, however small the ring; the frames the worker has taken followed by what the ring
  still holds grow by exactly the caller's whole frames after gain, in order; the written counter
  grows by their number and the stream has left standby.
\<close>

theorem out_write_delivers:
  assumes "drains (unat fs) env" and "vb_ok (so_buffer out)" and "vb_fs (so_buffer out) = unat fs"
    and "fs = frame_size_of (so_req_config out)" and "fs \<noteq> 0" and "out_get_sample_rate out \<noteq> 0"
    and "unat nbytes \<le> length buf" and "length buf < 2 ^ 64"
    and "\<not> so_is_muted out" and "\<And>us o'. slept us o' = o'"
  shows "\<exists>out'. out_write frame_size_of False slept env t out buf nbytes =
      Some (out', out_apply_gain out buf nbytes, to_int64 (uint nbytes)) \<and>
    vb_ok (so_buffer out') \<and>
    so_log out' @ vb_contents (so_buffer out') = so_log out @ vb_contents (so_buffer out) @
      take (unat nbytes div unat fs * unat fs) (out_apply_gain out buf nbytes) \<and>
    so_frames_written out' = so_frames_written out + nbytes div fs \<and>
    \<not> so_standby out' \<and> \<not> so_worker_standby out'"
proof -
  let ?o = "out_write_begin t out" and ?g = "out_apply_gain out buf nbytes" and ?n = "nbytes div fs"
  have "unat ?n * unat fs \<le> unat nbytes" by (simp add: unat_div)
  then have len: "unat ?n * unat fs \<le> length ?g" "length ?g < 2 ^ 64"
    using assms(7,8) by (simp_all add: apply_gain_length)
  have bufo: "vb_ok (so_buffer ?o)" "vb_fs (so_buffer ?o) = unat fs" using assms(2,3) by simp_all
  have w0: "(0 :: size_t) \<le> ?n" by simp
  obtain o' where l: "out_write_loop env 0 ?o ?g fs ?n 0 = Some o'" "vb_ok (so_buffer o')"
    "so_log o' @ vb_contents (so_buffer o') = so_log ?o @ vb_contents (so_buffer ?o) @
       take ((unat ?n - unat (0 :: size_t)) * unat fs) (drop (unat (0 :: size_t) * unat fs) ?g)"
    "o' = ?o\<lparr>so_buffer := so_buffer o', so_log := so_log o'\<rparr>"
    using out_write_loop_spec [OF assms(1) bufo len w0, of 0] by blast
  have fields: "\<not> so_standby o'" "\<not> so_worker_standby o'" "so_frames_written o' = so_frames_written out"
    by (subst l(4), simp)+
  let ?out = "o'\<lparr>so_frames_written := so_frames_written o' + ?n, so_frames_rendered := so_frames_rendered o' + ?n,
    so_frames_total_buffered := so_frames_total_buffered o' + ?n\<rparr>"
  have "out_write frame_size_of False slept env t out buf nbytes = Some (?out, ?g, to_int64 (uint nbytes))"
    using assms(5,6,9) l(1) unfolding out_write_def Let_def assms(4) [symmetric] assms(10) if_cancel
    by (simp add: write_begin_gain)
  then show ?thesis
    using l(2,3) fields by (intro exI [of _ ?out]) (simp add: unat_div)
qed

text \<open>
  A muted write returns all \<open>bytes\<close> as well and advances the counters, but neither the
  ring nor the caller's buffer changes.
\<close>

theorem out_write_muted:
  assumes "frame_size_of (so_req_config out) \<noteq> 0" and "out_get_sample_rate out \<noteq> 0"
    and "master_mute \<or> so_is_muted out" and "\<And>us o'. slept us o' = o'"
  shows "\<exists>out'. out_write frame_size_of master_mute slept env t out buf nbytes =
      Some (out', buf, to_int64 (uint nbytes)) \<and>
    so_buffer out' = so_buffer out \<and>
    so_frames_written out' = so_frames_written out + nbytes div frame_size_of (so_req_config out) \<and>
    \<not> so_standby out'"
  using assms(1-3) unfolding out_write_def Let_def assms(4) if_cancel by auto

definition sl_example :: stream_log where
  "sl_example = generic_stream_out.extend so_example (stream_log.fields [])"

lemma sl_example_facts [simp]:
  "so_buffer sl_example = vb_example" "so_log sl_example = []" "\<not> so_is_muted sl_example"
  "out_get_sample_rate sl_example = 48000" "so_frames_written sl_example = 0"
  by (simp_all add: sl_example_def so_example_def generic_stream_out.extend_def stream_log.fields_def
      out_get_sample_rate_def)

theorem out_write_delivers_witness:
  "\<exists>out'. out_write (\<lambda>_. 2) False (\<lambda>_ o'. o') (worker_drains 1) \<lparr>tv_sec = 1, tv_nsec = 0\<rparr> sl_example
       [1, 0, 2, 0, 3, 0, 4, 0] 8 = Some (out', out_apply_gain sl_example [1, 0, 2, 0, 3, 0, 4, 0] 8, 8) \<and>
     so_frames_written out' = 4 \<and>
     so_log out' @ vb_contents (so_buffer out') = [5, 6] @ out_apply_gain sl_example [1, 0, 2, 0, 3, 0, 4, 0] 8"
proof -
  have d: "drains (unat (2 :: size_t)) (worker_drains 1)" by (rule worker_drains_drains) simp_all
  have len: "length (out_apply_gain sl_example [1, 0, 2, 0, 3, 0, 4, 0] 8) = 8"
    by (subst apply_gain_length) simp_all
  show ?thesis
    using out_write_delivers [OF d, of sl_example "\<lambda>_. 2" 8 "[1, 0, 2, 0, 3, 0, 4, 0]" "\<lambda>_ o'. o'"
        "\<lparr>tv_sec = 1, tv_nsec = 0\<rparr>"] len
    by (auto simp: vb_example_ok to_int64_id)
qed

theorem out_write_muted_witness:
  "\<exists>out'. out_write (\<lambda>_. 4) True (\<lambda>_ o'. o') (\<lambda>_ _. None) \<lparr>tv_sec = 1, tv_nsec = 0\<rparr> so_example [1, 2, 3, 4] 4 =
     Some (out', [1, 2, 3, 4], 4) \<and> so_frames_written out' = 1"
  using out_write_muted [of "\<lambda>_. 4" so_example True "\<lambda>_ o'. o'" "\<lambda>_ _. None" "\<lparr>tv_sec = 1, tv_nsec = 0\<rparr>" "[1, 2, 3, 4]" 4]
  by (auto simp: so_example_def out_get_sample_rate_def to_int64_id)

section \<open>Standby ends\<close>

definition out_gap :: "'z generic_stream_out_scheme \<Rightarrow> nat" where
  "out_gap out = unat (so_frames_written out) - unat (so_underrun_position out)"

definition out_age :: "'z generic_stream_out_scheme \<Rightarrow> timespec \<Rightarrow> int" where
  "out_age out t = clock_us t - clock_us (so_underrun_time out)"

text \<open>
  What a run of \<open>n\<close> sleeps needs of the clock readings \<open>clk\<close>: none before the underrun time, each
  sleep takes at least a microsecond, and the 64 bit product of the position does not overflow.
\<close>

definition clock_ticks :: "'z generic_stream_out_scheme \<Rightarrow> nat \<Rightarrow> (nat \<Rightarrow> timespec) \<Rightarrow> bool" where
  "clock_ticks out n clk \<longleftrightarrow> 0 \<le> out_age out (clk 0) \<and>
     (\<forall>j \<le> n. clock_in_range out (clk j)) \<and> (\<forall>j < n. clock_us (clk j) < clock_us (clk (Suc j)))"

lemma elapsed_value:
  assumes "clock_in_range out t" and "\<not> so_standby out" and "0 \<le> out_age out t"
  shows "int (out_elapsed t out) = out_age out t * uint (out_get_sample_rate out) div 1000000"
  using assms unfolding out_elapsed_def clock_in_range_def out_age_def
  by (simp add: position_since_eq max_absorb2 pos_imp_zdiv_nonneg_iff)

lemma no_elapsed_age:
  assumes "clock_in_range out t" and "\<not> so_standby out" and "0 \<le> out_age out t"
    and "out_get_sample_rate out \<noteq> 0" and "out_elapsed t out = 0"
  shows "out_age out t < 1000000"
proof (rule ccontr)
  assume "\<not> out_age out t < 1000000"
  moreover have "1 \<le> uint (out_get_sample_rate out)"
    using assms(4) uint_ge_0 [of "out_get_sample_rate out"] unsigned_eq_0_iff [of "out_get_sample_rate out", where ?'a = int]
    by linarith
  ultimately have "1000000 * 1 \<le> out_age out t * uint (out_get_sample_rate out)" by (intro mult_mono) simp_all
  then have "1 \<le> out_age out t * uint (out_get_sample_rate out) div 1000000"
    using zdiv_mono1 [of 1000000 "out_age out t * uint (out_get_sample_rate out)" 1000000] by simp
  then show False using elapsed_value [OF assms(1-3)] assms(5) by simp
qed

text \<open>One round: the count moves to the position, and either the gap closes or the clock matters.\<close>

lemma standby_round:
  assumes "out_time_ok out" and "get_current_output_position t out = (p, out')"
  shows "out_gap out \<le> out_elapsed t out \<Longrightarrow> p = so_frames_written out \<and> so_frames_written out' = so_frames_written out"
    and "out_elapsed t out < out_gap out \<Longrightarrow> out' = out \<and>
      unat p = unat (so_underrun_position out) + out_elapsed t out"
proof -
  note s = position_spec [OF assms]
  have u: "unat (so_underrun_position out) \<le> unat (so_frames_written out)"
    using assms(1) by (simp add: out_time_ok_def word_le_nat_alt)
  show "p = so_frames_written out \<and> so_frames_written out' = so_frames_written out"
    if "out_gap out \<le> out_elapsed t out"
  proof -
    have "unat p = unat (so_frames_written out)" using s(1) u that by (simp add: out_gap_def)
    then show ?thesis using s(2) by (simp add: word_unat_eq_iff)
  qed
  show "out' = out \<and> unat p = unat (so_underrun_position out) + out_elapsed t out"
    if "out_elapsed t out < out_gap out"
    using s u that by (simp add: out_gap_def)
qed

lemma standby_loop_ends:
  assumes "out_time_ok (out\<lparr>so_underrun_position := u\<rparr>)" and "\<not> so_standby out" and "out_get_sample_rate out \<noteq> 0"
    and "out_gap (out\<lparr>so_underrun_position := u\<rparr>) < 2 ^ 31"
    and "clock_ticks out n clk" and "\<And>j us o' t. slept j us (o', t) = (o', clk (Suc j))"
    and "j + (out_gap (out\<lparr>so_underrun_position := u\<rparr>) + nat (1000000 - out_age out (clk j))) \<le> n"
    and "0 \<le> out_age out (clk j)"
  shows "\<exists>out' t. out_standby_loop slept j (out\<lparr>so_underrun_position := u\<rparr>, clk j) = Some (out', t) \<and>
    so_underrun_position out' = so_frames_written out \<and> so_frames_written out' = so_frames_written out"
  using assms(1,4,7,8)
proof (induction "out_gap (out\<lparr>so_underrun_position := u\<rparr>) + nat (1000000 - out_age out (clk j))"
    arbitrary: j u rule: less_induct)
  case less
  let ?o = "out\<lparr>so_underrun_position := u\<rparr>" and ?t = "clk j"
  let ?e = "out_elapsed ?t ?o"
  obtain p o' where r: "get_current_output_position ?t ?o = (p, o')" by fastforce
  note round = standby_round [OF less.prems(1) r]
  note step = out_standby_loop.simps [of slept j "(?o, ?t)"]
  show ?case
  proof (cases "out_gap ?o \<le> ?e")
    case True
    then have p: "p = so_frames_written out" "so_frames_written o' = so_frames_written out" using round(1) by simp_all
    have "out_standby_loop slept j (?o, ?t) = Some (o'\<lparr>so_underrun_position := p\<rparr>, ?t)"
      by (subst step) (simp add: r p to_int32_id)
    then show ?thesis by (simp add: p)
  next
    case False
    then have p: "o' = ?o" "unat p = unat u + ?e" using round(2) by simp_all
    let ?o2 = "out\<lparr>so_underrun_position := p\<rparr>"
    have ok: "unat u \<le> unat (so_frames_written out)" "unat (so_frames_written out) < 2 ^ 63"
      using less.prems(1) by (auto simp: out_time_ok_def word_le_nat_alt)
    have le: "unat p < unat (so_frames_written out)" using False p(2) by (simp add: out_gap_def)
    have gap: "out_gap ?o2 = out_gap ?o - ?e" "0 < out_gap ?o2" using le p(2) by (simp_all add: out_gap_def)
    have ok2: "out_time_ok ?o2" using le ok by (simp add: out_time_ok_def word_le_nat_alt)
    have "unat (so_frames_written out - p) = out_gap ?o2"
      using le by (subst unat_sub_le) (simp_all add: out_gap_def word_le_nat_alt)
    then have "uint (so_frames_written out - p) = int (out_gap ?o2)" by (metis of_nat_unat)
    then have sleep: "to_int32 (uint (so_frames_written out - p)) = int (out_gap ?o2)"
      using less.prems(2) gap(1) by (simp add: to_int32_id)
    have loop: "out_standby_loop slept j (?o, ?t) = out_standby_loop slept (Suc j) (?o2, clk (Suc j))"
      using gap(2) by (subst step) (simp add: r p(1) sleep assms(6))
    have j: "j < n" using less.prems(3) gap by simp
    have age: "out_age out (clk j) < out_age out (clk (Suc j))"
      using assms(5) j by (simp add: clock_ticks_def out_age_def)
    have rng: "clock_in_range ?o ?t" using assms(5) j by (simp add: clock_ticks_def clock_in_range_def out_get_sample_rate_def)
    have "?e = 0 \<Longrightarrow> out_age out (clk j) < 1000000"
      using no_elapsed_age [OF rng _ _ _ ] assms(2,3) less.prems(4) by (simp add: out_age_def out_get_sample_rate_def)
    then have dec: "out_gap ?o2 + nat (1000000 - out_age out (clk (Suc j))) <
        out_gap ?o + nat (1000000 - out_age out (clk j))"
      using age gap by (cases "?e = 0") auto
    show ?thesis unfolding loop
      using less.hyps [OF dec ok2] less.prems(2-4) gap(1) dec age by simp
  qed
qed

text \<open>
  C37. Going to standby ends: with a clock on which every sleep takes at least a microsecond,
  \<open>do_out_standby\<close> on a running stream returns after finitely many sleeps (at most the gap plus a
  million), with the position equal to the frames written and both standby flags set.
\<close>

theorem out_standby_ends:
  assumes "\<not> so_standby out" and "out_time_ok out" and "out_get_sample_rate out \<noteq> 0" and "out_gap out < 2 ^ 31"
    and "clock_ticks out (out_gap out + 1000000) clk" and "\<And>j us o' t. slept j us (o', t) = (o', clk (Suc j))"
  shows "\<exists>out' t. do_out_standby slept (clk 0) out = Some (out', t) \<and> so_standby out' \<and> so_worker_standby out' \<and>
    so_underrun_position out' = so_frames_written out \<and> so_frames_written out' = so_frames_written out"
proof -
  have o: "out\<lparr>so_underrun_position := so_underrun_position out\<rparr> = out" by simp
  have "0 \<le> out_age out (clk 0)" using assms(5) by (simp add: clock_ticks_def)
  then have age: "0 \<le> out_age out (clk 0)" "nat (1000000 - out_age out (clk 0)) \<le> 1000000" by simp_all
  from age standby_loop_ends [where j = 0 and u = "so_underrun_position out" and out = out and slept = slept
      and clk = clk, unfolded o, OF assms(2,1,3,4,5,6)]
  obtain out' t where "out_standby_loop slept 0 (out, clk 0) = Some (out', t)"
    "so_underrun_position out' = so_frames_written out" "so_frames_written out' = so_frames_written out" by auto
  then show ?thesis using assms(1) by (simp add: do_out_standby_def)
qed

definition so_running :: generic_stream_out where
  "so_running = so_example\<lparr>so_standby := False, so_worker_standby := False, so_frames_written := 96000\<rparr>"

definition clk_example :: "nat \<Rightarrow> timespec" where
  "clk_example j = \<lparr>tv_sec = int j, tv_nsec = 0\<rparr>"

lemma clk_example_us: "j < 2 ^ 30 \<Longrightarrow> clock_us (clk_example j) = int j * 1000000"
proof -
  assume "j < 2 ^ 30"
  then have j: "int j < 2 ^ 30" by (simp flip: of_nat_less_iff)
  then have "to_int64 (int j * 1000000000) = int j * 1000000000" by (intro to_int64_id) simp_all
  then show ?thesis by (simp add: clock_us_def clk_example_def c_div_nonneg)
qed

theorem out_standby_ends_witness:
  "\<exists>out' t. do_out_standby (\<lambda>j us (o', t). (o', clk_example (Suc j))) (clk_example 0) so_running = Some (out', t) \<and>
     so_standby out' \<and> so_underrun_position out' = 96000"
proof -
  have rng: "clock_in_range so_running (clk_example j)" if "j \<le> 1096000" for j
  proof -
    have "int j * 1000000 * 48000 \<le> 1096000 * 1000000 * 48000" using that by simp
    then show ?thesis using that clk_example_us [of j] clk_example_us [of 0]
      by (simp add: clock_in_range_def so_running_def so_example_def out_get_sample_rate_def clk_example_def [of 0] abs_mult)
  qed
  have gap: "out_gap so_running = 96000" by (simp add: out_gap_def so_running_def so_example_def)
  have "clock_ticks so_running (out_gap so_running + 1000000) clk_example"
  proof -
    have "so_underrun_time so_running = clk_example 0"
      by (simp add: so_running_def so_example_def clk_example_def)
    then have "0 \<le> out_age so_running (clk_example 0)" by (simp add: out_age_def)
    then show ?thesis using rng clk_example_us by (simp add: clock_ticks_def gap)
  qed
  from out_standby_ends [OF _ _ _ _ this, of "\<lambda>j us (o', t). (o', clk_example (Suc j))"] show ?thesis
    by (simp add: gap) (auto simp: so_running_def so_example_def out_time_ok_def out_get_sample_rate_def)
qed

end
