(* ===== verification/Audio_Out_Worker.thy ===== *)
theory Audio_Out_Worker
  imports Audio_Out_Write Audio_Ext_Pcm
begin

text \<open>
  The worker thread of an output stream, \<open>out_write_worker\<close> of
  \<open>hals/audio/driver/audio_hw.c\<close>, as a state machine whose sections are the places where the
  thread does not hold \<open>out->lock\<close>: the top of its loop, the two condition waits, and the call of
  \<open>ext_pcm_write\<close>. Each operation below runs from one of them to the next on the stream, the
  thread's locals and the shared PCM. \<open>None\<close> is a fault.
\<close>

section \<open>State\<close>

datatype out_section = AtTop | InStandbyWait | InDataWait | Playing int | Exited

record out_worker =
  ow_section :: out_section
  ow_ext_pcm :: "nat option"
  ow_buffer :: "bytes option"
  ow_buffer_frames :: int
  ow_restart :: bool
  ow_shutdown :: bool

definition out_worker_init :: out_worker where
  "out_worker_init = \<lparr>ow_section = AtTop, ow_ext_pcm = None, ow_buffer = None, ow_buffer_frames = 0,
     ow_restart = False, ow_shutdown = False\<rparr>"

text \<open>
  The libraries below the worker: the hash map, the results of \<open>pcm_open\<close> and
  \<open>pcm_is_ready\<close>, the frame size of the PCM, the allocator, what the mixer thread does while it is
  joined and while a write waits.
\<close>

record 'm worker_env =
  we_hashmap :: "('m, nat) hashmap_api"
  we_pcm_open :: "nat option"
  we_is_ready :: "nat \<Rightarrow> int"
  we_frames_to_bytes :: "nat \<Rightarrow> u32 \<Rightarrow> u32"
  we_malloc_ok :: bool
  we_join :: "'m ext_pcm \<Rightarrow> 'm ext_pcm option"
  we_wait :: "nat \<Rightarrow> 'm ext_pcm \<Rightarrow> 'm ext_pcm option"

type_synonym ('z, 'm) out_state = "'z generic_stream_out_scheme \<times> out_worker \<times> 'm pcm_world"

section \<open>Operations\<close>

text \<open>The object the worker's pointer designates.\<close>

definition held_pcm :: "out_worker \<Rightarrow> 'm pcm_world \<Rightarrow> 'm ext_pcm option" where
  "held_pcm w P = Option.bind (ow_ext_pcm w) (pcm_object P)"

text \<open>
  Playing is on the primary zone always, on another zone when it is the selected one
  (\<open>is_zone_selected_to_play\<close>); \<open>last_zone\<close> is the device's field.
\<close>

definition is_zone_selected_to_play :: "int \<Rightarrow> int \<Rightarrow> bool" where
  "is_zone_selected_to_play last_zone zone_id =
     (if zone_id \<noteq> PRIMARY_ZONE_ID then last_zone = zone_id else True)"

text \<open>Opening the PCM and allocating the period buffer; \<open>Inl\<close> is the exit of the thread.\<close>

definition worker_open ::
    "'m worker_env \<Rightarrow> 'z generic_stream_out_scheme \<Rightarrow> out_worker \<Rightarrow> 'm pcm_world \<Rightarrow>
     ((out_worker \<times> 'm pcm_world) + (out_worker \<times> 'm pcm_world)) option" where
  "worker_open E out w P =
     (if ow_ext_pcm w \<noteq> None then Some (Inr (w, P))
      else case ext_pcm_open (we_hashmap E) (we_pcm_open E) P of
             None \<Rightarrow> None
           | Some (P', i) \<Rightarrow>
              (let w = w\<lparr>ow_ext_pcm := Some i\<rparr> in
               if ext_pcm_is_ready (we_is_ready E) (held_pcm w P') = 0
               then Some (Inl (w\<lparr>ow_section := Exited\<rparr>, P'))
               else
                 let buffer_frames = pc_period_size (so_pcm_config out);
                     buffer_size = ext_pcm_frames_to_bytes (we_frames_to_bytes E) (held_pcm w P') buffer_frames
                 in if \<not> we_malloc_ok E
                    then Some (Inl (w\<lparr>ow_section := Exited, ow_buffer_frames := to_int32 (uint buffer_frames)\<rparr>, P'))
                    else Some (Inr (w\<lparr>ow_buffer_frames := to_int32 (uint buffer_frames),
                                      ow_buffer := Some (replicate (unat buffer_size) 0)\<rparr>, P'))))"

text \<open>From the data wait on: wait again, leave the thread, or read one period.\<close>

definition worker_data :: "'m worker_env \<Rightarrow> ('z, 'm) out_state \<Rightarrow> ('z, 'm) out_state option" where
  "worker_data E s =
     (case s of (out, w, P) \<Rightarrow>
        if \<not> ow_shutdown w \<and> audio_vbuffer_live (Some (so_buffer out)) = 0
        then Some (out, w\<lparr>ow_section := InDataWait\<rparr>, P)
        else if ow_shutdown w then Some (out, w\<lparr>ow_section := Exited, ow_buffer := None\<rparr>, P)
        else case worker_open E out w P of
               None \<Rightarrow> None
             | Some (Inl (w, P)) \<Rightarrow> Some (out, w, P)
             | Some (Inr (w, P)) \<Rightarrow>
                (case ow_buffer w of
                   None \<Rightarrow> None
                 | Some buffer \<Rightarrow>
                    (case audio_vbuffer_read (so_buffer out) buffer (int_to_size (ow_buffer_frames w)) of
                       None \<Rightarrow> None
                     | Some (vb, buffer, frames) \<Rightarrow>
                        Some (out\<lparr>so_buffer := vb\<rparr>,
                              w\<lparr>ow_buffer := Some buffer, ow_section := Playing (size_to_int frames)\<rparr>, P))))"

text \<open>From the top of the loop, and again after a wake-up in the standby wait.\<close>

definition worker_from_top :: "'m worker_env \<Rightarrow> ('z, 'm) out_state \<Rightarrow> ('z, 'm) out_state option" where
  "worker_from_top E s =
     (case s of (out, w, P) \<Rightarrow>
        let after = (\<lambda>w P. worker_data E (out, if so_worker_exit out then w\<lparr>ow_shutdown := True\<rparr> else w, P)) in
        if so_worker_standby out \<or> ow_restart w then
          (case (if ow_ext_pcm w = None then Some (P, 0) else ext_pcm_close (we_join E) (ow_ext_pcm w) P) of
             None \<Rightarrow> None
           | Some (P', ret) \<Rightarrow>
              (let w = (if ow_ext_pcm w = None then w\<lparr>ow_restart := False\<rparr>
                        else w\<lparr>ow_restart := False, ow_ext_pcm := None, ow_buffer := None\<rparr>)
               in if so_worker_exit out then after w P'
                  else Some (out, w\<lparr>ow_section := InStandbyWait\<rparr>, P')))
        else after w P)"

text \<open>The unlocked part: the period goes to the mixer if the stream's zone plays.\<close>

definition worker_play :: "'m worker_env \<Rightarrow> int \<Rightarrow> ('z, 'm) out_state \<Rightarrow> ('z, 'm) out_state option" where
  "worker_play E last_zone s =
     (case s of (out, w, P) \<Rightarrow>
        (case (ow_section w, so_bus_address out, ow_buffer w, ow_ext_pcm w) of
           (Playing frames, Some bus_address, Some buffer, Some i) \<Rightarrow>
             if held_pcm w P = None then None
             else if is_zone_selected_to_play last_zone (worker_zone_id bus_address) then
               (case ext_pcm_write (we_hashmap E) (we_wait E) (held_pcm w P) bus_address buffer
                       (ext_pcm_frames_to_bytes (we_frames_to_bytes E) (held_pcm w P) (word_of_int frames)) of
                  None \<Rightarrow> None
                | Some (e, write_error) \<Rightarrow>
                   Some (out, w\<lparr>ow_section := AtTop, ow_restart := (write_error \<noteq> 0 \<or> ow_restart w)\<rparr>,
                         set_pcm_object i e P))
             else Some (out, w\<lparr>ow_section := AtTop\<rparr>, P)
         | _ \<Rightarrow> None))"

section \<open>Steps\<close>

inductive out_worker_step ::
    "'m worker_env \<Rightarrow> int \<Rightarrow> ('z, 'm) out_state \<Rightarrow> ('z, 'm) out_state \<Rightarrow> bool"
  for E last_zone where
  step_top: "ow_section w = AtTop \<Longrightarrow> worker_from_top E (out, w, P) = Some s' \<Longrightarrow>
    out_worker_step E last_zone (out, w, P) s'"
| step_wake_standby: "ow_section w = InStandbyWait \<Longrightarrow> worker_from_top E (out, w, P) = Some s' \<Longrightarrow>
    out_worker_step E last_zone (out, w, P) s'"
| step_wake_data: "ow_section w = InDataWait \<Longrightarrow> worker_data E (out, w, P) = Some s' \<Longrightarrow>
    out_worker_step E last_zone (out, w, P) s'"
| step_play: "ow_section w = Playing frames \<Longrightarrow> worker_play E last_zone (out, w, P) = Some s' \<Longrightarrow>
    out_worker_step E last_zone (out, w, P) s'"

inductive_cases out_worker_stepE: "out_worker_step E last_zone (out, w, P) s'"
inductive_simps out_worker_step_iff: "out_worker_step E last_zone (out, w, P) s'"

text \<open>
  The locked part of \<open>adev_close_output_stream\<close> after \<open>do_out_standby\<close>; then it joins the
  thread, that is, it waits for the section \<open>Exited\<close>.
\<close>

definition close_request :: "'z generic_stream_out_scheme \<Rightarrow> 'z generic_stream_out_scheme" where
  "close_request out = out\<lparr>so_worker_exit := True\<rparr>"
section \<open>Lemmas\<close>

lemma vb_live_iff: "vb_ok v \<Longrightarrow> audio_vbuffer_live (Some v) = 0 \<longleftrightarrow> vb_level v = 0"
  by (simp add: vb_counters del: of_nat_unat)

lemma close_request_fields [simp]:
  "so_worker_exit (close_request out)" "so_buffer (close_request out) = so_buffer out"
  "so_worker_standby (close_request out) = so_worker_standby out"
  by (simp_all add: close_request_def)

lemmas worker_defs = worker_from_top_def worker_data_def worker_open_def worker_play_def

text \<open>In the data wait with an empty ring every wake-up leads back to the wait.\<close>

lemma data_wait_stays:
  assumes "(out_worker_step E last_zone)\<^sup>*\<^sup>* s t" and "s = (out, w, P)" and "ow_section w = InDataWait"
    and "\<not> ow_shutdown w" and "audio_vbuffer_live (Some (so_buffer out)) = 0"
  shows "t = s"
  using assms(1)
proof (induction rule: rtranclp_induct)
  case (step t u)
  have same: "w\<lparr>ow_section := InDataWait\<rparr> = w" using assms(3) by (cases w) simp
  from step.hyps(2) have "out_worker_step E last_zone (out, w, P) u" unfolding step.IH assms(2) .
  then have "worker_data E (out, w, P) = Some u"
    using assms(3) by (cases rule: out_worker_step.cases) auto
  then show ?case using assms(2,4,5) same by (simp add: worker_data_def)
qed simp

section \<open>Properties of the worker\<close>

text \<open>
  C26. Closing an output stream whose data has been played never returns. Once a started worker
  has found the ring empty it waits for data; the close request wakes it, but that wait tests only
  the ring, so after any number of steps the thread is still in the data wait and the join of
  \<open>adev_close_output_stream\<close> does not end.
\<close>

theorem out_close_deadlock:
  assumes "ow_section w = AtTop" and "\<not> ow_restart w" and "\<not> ow_shutdown w"
    and "\<not> so_worker_standby out" and "\<not> so_worker_exit out" and "vb_ok (so_buffer out)"
    and "vb_contents (so_buffer out) = []" and "0 < vb_fs (so_buffer out)"
  shows "\<exists>w'. out_worker_step E last_zone (out, w, P) (out, w', P) \<and>
    (\<forall>t. (out_worker_step E last_zone)\<^sup>*\<^sup>*
        (close_request (out\<lparr>so_worker_standby := True, so_standby := True\<rparr>), w', P) t \<longrightarrow>
      ow_section (fst (snd t)) = InDataWait)"
proof -
  have "vb_level (so_buffer out) * vb_fs (so_buffer out) = 0"
    using vb.contents_length [OF assms(6)] assms(7) by simp
  then have live: "audio_vbuffer_live (Some (so_buffer out)) = 0"
    using assms(8) by (simp only: vb_live_iff [OF assms(6)] mult_eq_0_iff) simp
  let ?w = "w\<lparr>ow_section := InDataWait\<rparr>"
  have "out_worker_step E last_zone (out, w, P) (out, ?w, P)"
    using assms(1-5) live by (intro step_top) (simp_all add: worker_from_top_def worker_data_def)
  moreover have "\<forall>t. (out_worker_step E last_zone)\<^sup>*\<^sup>*
      (close_request (out\<lparr>so_worker_standby := True, so_standby := True\<rparr>), ?w, P) t \<longrightarrow>
    ow_section (fst (snd t)) = InDataWait"
  proof (intro allI impI)
    fix t
    assume "(out_worker_step E last_zone)\<^sup>*\<^sup>*
      (close_request (out\<lparr>so_worker_standby := True, so_standby := True\<rparr>), ?w, P) t"
    from data_wait_stays [OF this refl] show "ow_section (fst (snd t)) = InDataWait"
      using assms(3) live by simp
  qed
  ultimately show ?thesis by (rule exI [of _ ?w, OF conjI])
qed

definition env_example :: "(string \<times> nat) list worker_env" where
  "env_example = \<lparr>we_hashmap = alist_api str_eq, we_pcm_open = Some 0, we_is_ready = (\<lambda>_. 1),
     we_frames_to_bytes = (\<lambda>_ f. f * 4), we_malloc_ok = True, we_join = Some,
     we_wait = (\<lambda>_. mixer_iteration (alist_api str_eq))\<rparr>"

definition vb_empty :: audio_vbuffer where
  "vb_empty = \<lparr>data = replicate 8 0, frame_size = 4, frame_count = 2, head = 0, tail = 0, live = 0\<rparr>"

lemma vb_empty_ok: "vb_ok vb_empty" "vb_contents vb_empty = []" "vb_fs vb_empty = 4"
  by (simp_all add: vb_ok_def vb_empty_def vb_contents_def)

theorem out_close_deadlock_witness:
  "\<exists>w'. out_worker_step env_example 1 (so_running\<lparr>so_buffer := vb_empty\<rparr>, out_worker_init, pcm_init)
       (so_running\<lparr>so_buffer := vb_empty\<rparr>, w', pcm_init) \<and>
    (\<forall>t. (out_worker_step env_example 1)\<^sup>*\<^sup>*
        (close_request (so_running\<lparr>so_buffer := vb_empty, so_worker_standby := True, so_standby := True\<rparr>), w', pcm_init) t \<longrightarrow>
      ow_section (fst (snd t)) \<noteq> Exited)"
proof -
  let ?o = "so_running\<lparr>so_buffer := vb_empty\<rparr>"
  have pre: "ow_section out_worker_init = AtTop" "\<not> ow_restart out_worker_init" "\<not> ow_shutdown out_worker_init"
    "\<not> so_worker_standby ?o" "\<not> so_worker_exit ?o" "vb_ok (so_buffer ?o)" "vb_contents (so_buffer ?o) = []"
    "0 < vb_fs (so_buffer ?o)"
    by (simp_all add: so_running_def so_example_def out_worker_init_def vb_empty_ok)
  from out_close_deadlock [OF pre, of env_example 1 pcm_init] obtain w' where w':
    "out_worker_step env_example 1 (?o, out_worker_init, pcm_init) (?o, w', pcm_init)"
    "\<forall>t. (out_worker_step env_example 1)\<^sup>*\<^sup>*
        (close_request (?o\<lparr>so_worker_standby := True, so_standby := True\<rparr>), w', pcm_init) t \<longrightarrow>
      ow_section (fst (snd t)) = InDataWait" by (elim exE conjE)
  have "ow_section (fst (snd t)) \<noteq> Exited" if "(out_worker_step env_example 1)\<^sup>*\<^sup>*
        (close_request (?o\<lparr>so_worker_standby := True, so_standby := True\<rparr>), w', pcm_init) t" for t
    using w'(2) [rule_format, OF that] by simp
  with w'(1) show ?thesis by (intro exI [of _ w'] conjI allI impI)
qed

lemma exits_when_shutdown:
  "ow_shutdown w \<Longrightarrow> worker_data E (out, w, P) = Some (out, w\<lparr>ow_section := Exited, ow_buffer := None\<rparr>, P)"
  by (simp add: worker_data_def)

text \<open>
  Closing does return when the worker is at the top of its loop or in the standby wait: the
  next step of the thread is its exit, with its buffer freed and its reference to the shared PCM
  given back.
\<close>

theorem out_close_from_standby:
  assumes "ow_section w \<in> {AtTop, InStandbyWait}" and "so_worker_standby out" and "pcm_inv (P, hs)"
    and "\<forall>i. ow_ext_pcm w = Some i \<longrightarrow> i \<in> set hs" and "\<And>e. we_join E e \<noteq> None"
  shows "\<exists>w' P'. out_worker_step E last_zone (close_request out, w, P) (close_request out, w', P') \<and>
    ow_section w' = Exited \<and> ow_ext_pcm w' = None \<and> ow_buffer w' = None \<and>
    pcm_inv (P', case ow_ext_pcm w of None \<Rightarrow> hs | Some i \<Rightarrow> remove1 i hs)"
proof -
  have top: "out_worker_step E last_zone (close_request out, w, P) s'"
    if "worker_from_top E (close_request out, w, P) = Some s'" for s'
    using assms(1) that by (auto intro: step_top step_wake_standby)
  show ?thesis
  proof (cases "ow_ext_pcm w")
    case None
    let ?w = "w\<lparr>ow_restart := False, ow_shutdown := True, ow_section := Exited, ow_buffer := None\<rparr>"
    have "worker_from_top E (close_request out, w, P) = Some (close_request out, ?w, P)"
      using assms(2) None by (simp add: worker_from_top_def exits_when_shutdown Let_def)
    then show ?thesis using None assms(3) top by (intro exI [of _ ?w] exI [of _ P]) simp
  next
    case (Some i)
    let ?w = "w\<lparr>ow_restart := False, ow_ext_pcm := None, ow_shutdown := True, ow_section := Exited, ow_buffer := None\<rparr>"
    obtain P' where P': "ext_pcm_close (we_join E) (Some i) P = Some (P', 0)" "pcm_inv (P', remove1 i hs)"
      using close_keeps_inv [where join = "we_join E", OF assms(3) _ assms(5)] assms(4) Some by blast
    have "worker_from_top E (close_request out, w, P) = Some (close_request out, ?w, P')"
      using assms(2) Some P'(1) by (simp add: worker_from_top_def exits_when_shutdown Let_def)
    then show ?thesis using Some P'(2) top by (intro exI [of _ ?w] exI [of _ P']) simp
  qed
qed

theorem out_close_from_standby_witness:
  "\<exists>w' P'. out_worker_step env_example 1 (close_request so_example, out_worker_init, pcm_init)
     (close_request so_example, w', P') \<and> ow_section w' = Exited"
  using out_close_from_standby [of out_worker_init so_example pcm_init "[]" env_example 1] pcm_inv_init
  by (auto simp: out_worker_init_def so_example_def env_example_def)

section \<open>From the ring to the PCM\<close>

text \<open>What the PCM has received of one address, followed by what its pipeline still holds.\<close>

definition pcm_stream :: "('m, nat) hashmap_api \<Rightarrow> string \<Rightarrow> nat \<Rightarrow> 'm pcm_world \<Rightarrow> bytes" where
  "pcm_stream H addr i P =
     (case pcm_object P i of None \<Rightarrow> [] | Some e \<Rightarrow> pcm_out e @ bus_pending H addr e)"

text \<open>
  A worker in the middle of playback: at the top of its loop with an open PCM in a state that
  \<open>Q\<close> admits, a period buffer of whole frames, a selected zone and no request to stop.
\<close>

definition worker_ready_on ::
    "'m worker_env \<Rightarrow> ('m ext_pcm \<Rightarrow> bool) \<Rightarrow> int \<Rightarrow> string \<Rightarrow> nat \<Rightarrow> ('z, 'm) out_state \<Rightarrow> bool" where
  "worker_ready_on E Q last_zone addr i s \<longleftrightarrow> (case s of (out, w, P) \<Rightarrow>
     ow_section w = AtTop \<and> \<not> ow_restart w \<and> \<not> ow_shutdown w \<and> \<not> so_worker_standby out \<and> \<not> so_worker_exit out \<and>
     so_bus_address out = Some addr \<and> is_zone_selected_to_play last_zone (worker_zone_id addr) \<and>
     vb_ok (so_buffer out) \<and> even (vb_fs (so_buffer out)) \<and> 0 < vb_fs (so_buffer out) \<and>
     ow_ext_pcm w = Some i \<and>
     (\<exists>e. pcm_object P i = Some e \<and> pcm e \<noteq> None \<and> Q e) \<and>
     (\<exists>n buffer. 0 < n \<and> n < 2 ^ 31 \<and> n * vb_fs (so_buffer out) < 2 ^ 32 \<and> ow_buffer_frames w = int n \<and>
        ow_buffer w = Some buffer \<and> length buffer = n * vb_fs (so_buffer out)) \<and>
     (\<forall>h f. unat f * vb_fs (so_buffer out) < 2 ^ 32 \<longrightarrow>
        unat (we_frames_to_bytes E h f) = unat f * vb_fs (so_buffer out)))"

text \<open>On a PCM where the worker's bus is the only one.\<close>

definition worker_ready ::
    "'m worker_env \<Rightarrow> (string \<Rightarrow> string \<Rightarrow> bool) \<Rightarrow> int \<Rightarrow> string \<Rightarrow> nat \<Rightarrow> ('z, 'm) out_state \<Rightarrow> bool" where
  "worker_ready E eq last_zone addr i s \<longleftrightarrow> worker_ready_on E (one_bus (we_hashmap E) eq addr) last_zone addr i s"

text \<open>The step that fills the period buffer from a ring that holds frames.\<close>

lemma worker_reads:
  assumes "worker_ready_on E Q last_zone addr i (out, w, P)" and "vb_contents (so_buffer out) \<noteq> []"
  shows "\<exists>out2 w2 b m. out_worker_step E last_zone (out, w, P) (out2, w2\<lparr>ow_section := Playing (int m)\<rparr>, P) \<and>
    worker_ready_on E Q last_zone addr i (out2, w2, P) \<and> ow_buffer w2 = Some b \<and> m < 2 ^ 31 \<and>
    m * vb_fs (so_buffer out2) \<le> length b \<and> length b < 2 ^ 32 \<and> 0 < m * vb_fs (so_buffer out2) \<and>
    take (m * vb_fs (so_buffer out2)) b @ vb_contents (so_buffer out2) = vb_contents (so_buffer out)"
proof -
  let ?v = "so_buffer out" and ?fs = "vb_fs (so_buffer out)"
  from assms(1) have flags: "ow_section w = AtTop" "\<not> ow_restart w" "\<not> ow_shutdown w" "\<not> so_worker_standby out"
    "\<not> so_worker_exit out" "vb_ok ?v" "0 < ?fs" "ow_ext_pcm w = Some i"
    by (simp_all add: worker_ready_on_def)
  from assms(1) obtain n b where n: "0 < n" "n < 2 ^ 31" "n * ?fs < 2 ^ 32" "ow_buffer_frames w = int n"
    "ow_buffer w = Some b" "length b = n * ?fs"
    by (simp only: worker_ready_on_def prod.case) blast
  have lev: "0 < vb_level ?v"
    using vb.contents_length [OF flags(6)] assms(2) by (metis length_0_conv mult_eq_0_iff neq0_conv)
  then have live: "audio_vbuffer_live (Some ?v) \<noteq> 0" by (simp only: vb_live_iff [OF flags(6)])
  let ?n = "int_to_size (int n)" and ?m = "min n (vb_level ?v)"
  have nn: "unat ?n = n" using n(2) by (simp add: int_to_size_nat unat_of_nat_size)
  have rd: "unat ?n * vb_fs ?v \<le> length b" "length b < 2 ^ 64" using n(3,6) by (simp_all add: nn)
  obtain v' where v': "audio_vbuffer_read ?v b ?n =
      Some (v', take (?m * ?fs) (vb_contents ?v) @ drop (?m * ?fs) b, of_nat ?m)"
    "vb_ok v'" "vb_fs v' = ?fs" "vb_contents v' = drop (?m * ?fs) (vb_contents ?v)"
    using vb.read_law [OF flags(6) rd] unfolding nn by blast
  let ?b = "take (?m * ?fs) (vb_contents ?v) @ drop (?m * ?fs) b"
  have m: "unat (of_nat ?m :: size_t) = ?m" by (rule vb.unat_moved(1) [OF flags(6)])
  have m31: "?m < 2 ^ 31" using n(2) by (rule min.strict_coboundedI1)
  have frames: "size_to_int (of_nat ?m) = int ?m" using m31 m by (subst size_to_int_small) simp_all
  let ?out = "out\<lparr>so_buffer := v'\<rparr>" and ?w2 = "w\<lparr>ow_buffer := Some ?b\<rparr>"
  have s1: "out_worker_step E last_zone (out, w, P) (?out, ?w2\<lparr>ow_section := Playing (int ?m)\<rparr>, P)"
    using flags n(4,5) live v'(1) frames
    by (intro step_top) (simp_all add: worker_from_top_def worker_data_def worker_open_def)
  have mle: "?m * ?fs \<le> n * ?fs" by (intro mult_right_mono) simp_all
  have avail: "?m * ?fs \<le> length (vb_contents ?v)" using vb.contents_length [OF flags(6)] by (simp add: mult_le_mono1)
  then have lb: "length ?b = n * ?fs" using n(6) mle by (simp add: min_absorb2)
  have "worker_ready_on E Q last_zone addr i (?out, ?w2, P)"
    using assms(1) v'(2,3) n lb by (simp add: worker_ready_on_def)
  moreover have "take (?m * ?fs) ?b @ vb_contents v' = vb_contents ?v"
    using avail by (simp add: v'(4) min_absorb2)
  moreover have "0 < ?m * ?fs" using lev n(1) flags(7) by simp
  ultimately show ?thesis using s1 m31 mle lb n(3) v'(3)
    by (intro exI [of _ ?out] exI [of _ ?w2] exI [of _ ?b] exI [of _ ?m]) simp
qed

text \<open>
  What the worker needs of the mixer: a write to the address returns 0 and keeps \<open>Q\<close>; \<open>R e bs e'\<close> relates
  the states around a write of \<open>bs\<close>, and writes compose.
\<close>

locale mixer_writer =
  fixes E :: "'m worker_env" and addr :: string and Q :: "'m ext_pcm \<Rightarrow> bool"
    and R :: "'m ext_pcm \<Rightarrow> bytes \<Rightarrow> 'm ext_pcm \<Rightarrow> bool"
  assumes write_law: "Q e \<Longrightarrow> unat count \<le> length dat \<Longrightarrow> even (unat count) \<Longrightarrow>
      \<exists>e'. mixer_pipeline_write (we_hashmap E) (we_wait E) e addr dat count = Some (e', 0) \<and>
        Q e' \<and> pcm e' = pcm e \<and> R e (take (unat count) dat) e'"
    and write_none: "R e [] e"
    and compose: "R e bs e' \<Longrightarrow> R e' cs e'' \<Longrightarrow> R e (bs @ cs) e''"
begin

text \<open>The step that hands the period to the mixer.\<close>

lemma worker_writes:
  assumes "worker_ready_on E Q last_zone addr i (out, w, P)" and "pcm_object P i = Some e" and "ow_buffer w = Some b"
    and "m < 2 ^ 31" and "m * vb_fs (so_buffer out) \<le> length b" and "length b < 2 ^ 32"
  shows "\<exists>e2. out_worker_step E last_zone (out, w\<lparr>ow_section := Playing (int m)\<rparr>, P) (out, w, set_pcm_object i (Some e2) P) \<and>
    worker_ready_on E Q last_zone addr i (out, w, set_pcm_object i (Some e2) P) \<and>
    pcm_object (set_pcm_object i (Some e2) P) i = Some e2 \<and> R e (take (m * vb_fs (so_buffer out)) b) e2"
proof -
  let ?fs = "vb_fs (so_buffer out)" and ?w1 = "w\<lparr>ow_section := Playing (int m)\<rparr>"
  from assms(1) have flags: "ow_section w = AtTop" "\<not> ow_restart w" "so_bus_address out = Some addr"
    "is_zone_selected_to_play last_zone (worker_zone_id addr)" "even ?fs" "ow_ext_pcm w = Some i"
    by (simp_all add: worker_ready_on_def)
  from assms(1) have ftb: "unat f * ?fs < 2 ^ 32 \<Longrightarrow> unat (we_frames_to_bytes E h f) = unat f * ?fs" for h f
    by (simp add: worker_ready_on_def)
  obtain h where e: "pcm e = Some h" "Q e" using assms(1,2) by (auto simp: worker_ready_on_def)
  let ?cnt = "ext_pcm_frames_to_bytes (we_frames_to_bytes E) (Some e) (word_of_int (int m))"
  have m32: "unat (word_of_int (int m) :: u32) = m" using assms(4) by (simp add: unat_u32_of_nat)
  have cnt: "unat ?cnt = m * ?fs" using ftb [of "word_of_int (int m)" h] le_less_trans [OF assms(5,6)] unfolding m32
    by (simp add: ext_pcm_frames_to_bytes_def e(1))
  obtain e2 where e2: "mixer_pipeline_write (we_hashmap E) (we_wait E) e addr b ?cnt = Some (e2, 0)" "Q e2" "pcm e2 = pcm e"
    "R e (take (m * ?fs) b) e2"
    using write_law [OF e(2), of ?cnt b] assms(5) flags(5) unfolding cnt by auto
  have held: "held_pcm ?w1 P = Some e" by (simp add: held_pcm_def flags(6) assms(2))
  have "w\<lparr>ow_section := AtTop, ow_restart := False\<rparr> = w" using flags(1,2) by (cases w) simp
  then have "worker_play E last_zone (out, ?w1, P) = Some (out, w, set_pcm_object i (Some e2) P)"
    using flags(2,3,4,6) assms(3) e2(1) by (simp add: worker_play_def held ext_pcm_write_def e(1))
  then have "out_worker_step E last_zone (out, ?w1, P) (out, w, set_pcm_object i (Some e2) P)"
    by (intro step_play) simp_all
  moreover have "worker_ready_on E Q last_zone addr i (out, w, set_pcm_object i (Some e2) P)"
    using assms(1) e2(2,3) pcm_object_len [OF assms(2)] e(1) by (simp add: worker_ready_on_def)
  ultimately show ?thesis using e2(4) pcm_object_len [OF assms(2)] by auto
qed

lemma worker_cycle:
  assumes "worker_ready_on E Q last_zone addr i (out, w, P)" and "vb_contents (so_buffer out) \<noteq> []"
    and "pcm_object P i = Some e"
  shows "\<exists>s1 out2 w2 P2 e2 bs. out_worker_step E last_zone (out, w, P) s1 \<and>
    out_worker_step E last_zone s1 (out2, w2, P2) \<and> worker_ready_on E Q last_zone addr i (out2, w2, P2) \<and>
    pcm_object P2 i = Some e2 \<and> R e bs e2 \<and> bs @ vb_contents (so_buffer out2) = vb_contents (so_buffer out) \<and>
    length (vb_contents (so_buffer out2)) < length (vb_contents (so_buffer out))"
proof -
  obtain out2 w2 b m where r: "out_worker_step E last_zone (out, w, P) (out2, w2\<lparr>ow_section := Playing (int m)\<rparr>, P)"
    "worker_ready_on E Q last_zone addr i (out2, w2, P)" "ow_buffer w2 = Some b" "m < 2 ^ 31"
    "m * vb_fs (so_buffer out2) \<le> length b" "length b < 2 ^ 32" "0 < m * vb_fs (so_buffer out2)"
    "take (m * vb_fs (so_buffer out2)) b @ vb_contents (so_buffer out2) = vb_contents (so_buffer out)"
    using worker_reads [OF assms(1,2)] by blast
  have "length (vb_contents (so_buffer out2)) < length (vb_contents (so_buffer out))"
    unfolding r(8) [symmetric] using r(5,7) by simp
  then show ?thesis using r(1,8) worker_writes [OF r(2) assms(3) r(3-6)] by blast
qed

lemma worker_plays:
  assumes "worker_ready_on E Q last_zone addr i (out, w, P)" and "pcm_object P i = Some e"
  shows "\<exists>out2 w2 P2 e2. (out_worker_step E last_zone)\<^sup>*\<^sup>* (out, w, P) (out2, w2, P2) \<and>
    vb_contents (so_buffer out2) = [] \<and> worker_ready_on E Q last_zone addr i (out2, w2, P2) \<and>
    pcm_object P2 i = Some e2 \<and> R e (vb_contents (so_buffer out)) e2"
  using assms
proof (induction "length (vb_contents (so_buffer out))" arbitrary: out w P e rule: less_induct)
  case less
  show ?case
  proof (cases "vb_contents (so_buffer out) = []")
    case True
    have "R e (vb_contents (so_buffer out)) e" unfolding True by (rule write_none)
    then show ?thesis using less.prems True by blast
  next
    case False
    obtain s1 o1 w1 P1 e1 bs where c: "out_worker_step E last_zone (out, w, P) s1"
      "out_worker_step E last_zone s1 (o1, w1, P1)" "worker_ready_on E Q last_zone addr i (o1, w1, P1)"
      "pcm_object P1 i = Some e1" "R e bs e1" "bs @ vb_contents (so_buffer o1) = vb_contents (so_buffer out)"
      "length (vb_contents (so_buffer o1)) < length (vb_contents (so_buffer out))"
      using worker_cycle [OF less.prems(1) False less.prems(2)] by blast
    obtain o2 w2 P2 e2 where r: "(out_worker_step E last_zone)\<^sup>*\<^sup>* (o1, w1, P1) (o2, w2, P2)"
      "vb_contents (so_buffer o2) = []" "worker_ready_on E Q last_zone addr i (o2, w2, P2)"
      "pcm_object P2 i = Some e2" "R e1 (vb_contents (so_buffer o1)) e2"
      using less.hyps [OF c(7,3,4)] by blast
    have "(out_worker_step E last_zone)\<^sup>*\<^sup>* (out, w, P) (o2, w2, P2)"
      using c(1,2) r(1) by (meson converse_rtranclp_into_rtranclp)
    then show ?thesis using r(2-4) compose [OF c(5) r(5)] unfolding c(6) by blast
  qed
qed

end

lemma one_bus_writer:
  assumes "mixer_map (we_hashmap E) eq" and "we_wait E = (\<lambda>_. mixer_iteration (we_hashmap E))"
  shows "mixer_writer E addr (one_bus (we_hashmap E) eq addr)
    (\<lambda>e bs e'. pcm_out e' @ bus_pending (we_hashmap E) addr e' = pcm_out e @ bus_pending (we_hashmap E) addr e @ bs)"
proof unfold_locales
  fix e and dat :: bytes and count :: u32
  assume "one_bus (we_hashmap E) eq addr e" "unat count \<le> length dat" "even (unat count)"
  from mixer_map.write_one_bus [OF assms(1) this]
  show "\<exists>e'. mixer_pipeline_write (we_hashmap E) (we_wait E) e addr dat count = Some (e', 0) \<and>
      one_bus (we_hashmap E) eq addr e' \<and> pcm e' = pcm e \<and>
      pcm_out e' @ bus_pending (we_hashmap E) addr e' =
        pcm_out e @ bus_pending (we_hashmap E) addr e @ take (unat count) dat"
    unfolding assms(2) by blast
qed simp_all

interpretation example_writer: mixer_writer env_example addr "one_bus (we_hashmap env_example) str_eq addr"
  "\<lambda>e bs e'. pcm_out e' @ bus_pending (we_hashmap env_example) addr e' = pcm_out e @ bus_pending (we_hashmap env_example) addr e @ bs"
  using str_mixer.mixer_map_axioms by (intro one_bus_writer) (simp_all add: env_example_def)

text \<open>
  From the ring to the hardware: a worker in the middle of playback whose bus is the only one
  on the PCM plays the ring empty in finitely many steps, and the bytes the PCM receives (or the
  mixer still holds) grow by exactly the bytes of the ring, in order.
\<close>

theorem out_worker_plays_ring:
  assumes "mixer_map (we_hashmap E) eq" and "we_wait E = (\<lambda>_. mixer_iteration (we_hashmap E))"
    and "worker_ready E eq last_zone addr i (out, w, P)"
  shows "\<exists>out2 w2 P2. (out_worker_step E last_zone)\<^sup>*\<^sup>* (out, w, P) (out2, w2, P2) \<and>
    vb_contents (so_buffer out2) = [] \<and> worker_ready E eq last_zone addr i (out2, w2, P2) \<and>
    pcm_stream (we_hashmap E) addr i P2 = pcm_stream (we_hashmap E) addr i P @ vb_contents (so_buffer out)"
proof -
  obtain e where e: "pcm_object P i = Some e" using assms(3) by (auto simp: worker_ready_def worker_ready_on_def)
  obtain out2 w2 P2 e2 where r: "(out_worker_step E last_zone)\<^sup>*\<^sup>* (out, w, P) (out2, w2, P2)"
    "vb_contents (so_buffer out2) = []" "worker_ready_on E (one_bus (we_hashmap E) eq addr) last_zone addr i (out2, w2, P2)"
    "pcm_object P2 i = Some e2"
    "pcm_out e2 @ bus_pending (we_hashmap E) addr e2 =
       pcm_out e @ bus_pending (we_hashmap E) addr e @ vb_contents (so_buffer out)"
    using mixer_writer.worker_plays [OF one_bus_writer [OF assms(1,2)] assms(3) [unfolded worker_ready_def] e] by blast
  have "pcm_stream (we_hashmap E) addr i P2 = pcm_stream (we_hashmap E) addr i P @ vb_contents (so_buffer out)"
    using r(5) by (simp add: pcm_stream_def e r(4))
  then show ?thesis using r(1-3) unfolding worker_ready_def by blast
qed

definition pcm_playing :: "(string \<times> nat) list pcm_world" where
  "pcm_playing = \<lparr>shared_ext_pcm = Some 0,
     pcm_objects = [Some ((ext_pcm_new (alist_api str_eq) (Some 0))\<lparr>ref_count := 1\<rparr>)], closed_pcms = []\<rparr>"

definition ow_playing :: out_worker where
  "ow_playing = out_worker_init\<lparr>ow_ext_pcm := Some 0, ow_buffer_frames := 2, ow_buffer := Some (replicate 4 0)\<rparr>"

lemma example_ready:
  assumes "pcm_object P 0 = Some e" and "pcm e \<noteq> None" and "Q e"
  shows "worker_ready_on (env_example\<lparr>we_frames_to_bytes := \<lambda>_ f. f * 2\<rparr>) Q 1 ''bus0'' 0 (so_running, ow_playing, P)"
proof -
  have zone: "is_zone_selected_to_play 1 (worker_zone_id ''bus0'')"
    by (simp add: is_zone_selected_to_play_def worker_zone_id_def c_str_def AUDIO_ZONE_KEYWORD_def
        strstr.simps has_prefix_def)
  have two: "unat f * 2 < 2 ^ 32 \<Longrightarrow> unat (f * 2) = unat f * 2" for f :: u32
    by (subst unat_mult_lem [THEN iffD1]) simp_all
  have v: "vb_fs vb_example = 2" "so_buffer so_running = vb_example"
    by (simp_all add: vb_example_def so_running_def so_example_def)
  show ?thesis unfolding worker_ready_on_def prod.case v(2)
  proof (intro conjI)
    show "\<exists>e. pcm_object P 0 = Some e \<and> pcm e \<noteq> None \<and> Q e" using assms by blast
    show "\<exists>n buffer. 0 < n \<and> n < 2 ^ 31 \<and> n * vb_fs vb_example < 2 ^ 32 \<and> ow_buffer_frames ow_playing = int n \<and>
        ow_buffer ow_playing = Some buffer \<and> length buffer = n * vb_fs vb_example"
      by (intro exI [of _ 2] exI [of _ "replicate 4 0"]) (simp add: ow_playing_def v)
  qed (use zone two in \<open>simp_all add: v ow_playing_def out_worker_init_def so_running_def so_example_def
      vb_example_ok env_example_def\<close>)
qed

theorem out_worker_plays_ring_witness:
  "\<exists>out2 w2 P2. (out_worker_step (env_example\<lparr>we_frames_to_bytes := \<lambda>_ f. f * 2\<rparr>) 1)\<^sup>*\<^sup>*
       (so_running, ow_playing, pcm_playing) (out2, w2, P2) \<and>
     pcm_stream (alist_api str_eq) ''bus0'' 0 P2 = [5, 6]"
proof -
  let ?E = "env_example\<lparr>we_frames_to_bytes := \<lambda>_ f. f * 2\<rparr>"
  let ?e = "(ext_pcm_new (alist_api str_eq) (Some 0))\<lparr>ref_count := 1\<rparr>"
  have env: "mixer_map (we_hashmap ?E) str_eq" "we_wait ?E = (\<lambda>_. mixer_iteration (we_hashmap ?E))"
    using str_mixer.mixer_map_axioms by (simp_all add: env_example_def)
  have "worker_ready ?E str_eq 1 ''bus0'' 0 (so_running, ow_playing, pcm_playing)"
    unfolding worker_ready_def
    by (rule example_ready [of _ ?e])
      (simp_all add: pcm_playing_def pcm_object_def ext_pcm_new_def one_bus_def env_example_def alist_api_def)
  from out_worker_plays_ring [OF env this] obtain out2 w2 P2 where r:
    "(out_worker_step ?E 1)\<^sup>*\<^sup>* (so_running, ow_playing, pcm_playing) (out2, w2, P2)"
    "pcm_stream (we_hashmap ?E) ''bus0'' 0 P2 =
       pcm_stream (we_hashmap ?E) ''bus0'' 0 pcm_playing @ vb_contents (so_buffer so_running)"
    by blast
  have "pcm_stream (we_hashmap ?E) ''bus0'' 0 pcm_playing = []"
    by (simp add: pcm_stream_def pcm_playing_def pcm_object_def ext_pcm_new_def bus_pending_def env_example_def alist_api_def)
  then show ?thesis using r by (auto simp: env_example_def so_running_def so_example_def)
qed

end
