(* ===== verification/Audio_Buses.thy ===== *)
theory Audio_Buses
  imports Audio_Out_Worker
begin

text \<open>
  The mixer with any number of buses. Writers of several addresses and the mixer thread take turns at
  \<open>mixer_lock\<close>; the steps between two releases of the lock are a relation on the shared object and a log
  of what was written and what was mixed. The theorems say what the PCM receives in every interleaving, that the
  write of \<open>ext_pcm.c\<close> is made of these steps, and that a worker plays its ring into such a system.
\<close>

section \<open>Mixing sequences of samples\<close>

text \<open>The specification of one mix: pointwise, the shorter sequence continued with silence.\<close>

definition mix_into :: "s16 list \<Rightarrow> s16 list \<Rightarrow> s16 list" where
  "mix_into a b = map (\<lambda>i. mix_sample (if i < length a then a ! i else 0) (if i < length b then b ! i else 0))
     [0..<max (length a) (length b)]"

definition mix_all :: "s16 list list \<Rightarrow> s16 list" where
  "mix_all xs = foldl mix_into [] xs"

lemma mix_into_length [simp]: "length (mix_into a b) = max (length a) (length b)"
  by (simp add: mix_into_def)

lemma mix_into_Nil [simp]: "mix_into [] b = b"
  by (rule nth_equalityI) (simp_all add: mix_into_def)

lemma mix_into_nth:
  assumes "pl_ok p" "pl_ok q" and "i < unat (max (mp_position p) (mp_position q))"
  shows "mix_into (pl_samples p) (pl_samples q) ! i =
    mix_sample (if i < length (pl_samples p) then pl_samples p ! i else 0) (if i < length (pl_samples q) then pl_samples q ! i else 0)"
proof -
  have "i < max (length (pl_samples p)) (length (pl_samples q))"
    using assms by (simp add: pl_ok_def pl_samples_def unat_max)
  then show ?thesis unfolding mix_into_def by (subst nth_map) simp_all
qed

lemma pl_samples_length: "pl_ok p \<Longrightarrow> length (pl_samples p) = unat (mp_position p)"
  by (simp add: pl_ok_def pl_samples_def)

lemma pl_samples_nth:
  assumes "pl_ok p" and "pl_silent p" and "i < MIXER_BUFFER_SIZE"
  shows "(if i < length (pl_samples p) then pl_samples p ! i else 0) = mp_buffer p ! i"
  using assms pl_silent_nth [OF assms(2), of i] by (simp add: pl_samples_length) (simp add: pl_samples_def pl_ok_def)

lemma mix_silent:
  assumes "pl_ok out" "pl_ok inp" "pl_silent out" "pl_silent inp"
  shows "\<exists>out'. mixer_thread_mix out inp = Some (out', zero_pipeline) \<and> pl_ok out' \<and> pl_silent out' \<and>
    pl_samples out' = mix_into (pl_samples out) (pl_samples inp)"
proof -
  let ?pos = "max (mp_position out) (mp_position inp)"
  have n: "unat ?pos \<le> MIXER_BUFFER_SIZE" using assms(1,2) by (simp add: pl_ok_def unat_max)
  have len: "length (mp_buffer out) = MIXER_BUFFER_SIZE" "length (mp_buffer inp) = MIXER_BUFFER_SIZE"
    using assms(1,2) by (simp_all add: pl_ok_def)
  let ?out = "out\<lparr>mp_position := ?pos, mp_buffer := mix_loop 0 (unat ?pos) (mp_buffer out) (mp_buffer inp)\<rparr>"
  have m: "mixer_thread_mix out inp = Some (?out, zero_pipeline)"
    using n len by (simp add: mixer_thread_mix_def Let_def)
  note nth = mix_loop_nth [of "unat ?pos" "mp_buffer out" 0 "mp_buffer inp"]
  have ok: "pl_ok ?out" using nth n len by (simp add: pl_ok_def)
  have sil: "pl_silent ?out"
  proof (rule pl_silentI)
    fix i assume i: "unat (mp_position ?out) \<le> i" "i < length (mp_buffer ?out)"
    then have "i < MIXER_BUFFER_SIZE" using ok by (simp add: pl_ok_def)
    moreover have "mp_buffer out ! i = 0"
      using i(1) pl_silent_nth [OF assms(3), of i] len calculation by (simp add: unat_max)
    ultimately show "mp_buffer ?out ! i = 0" using nth n len i(1) by simp
  qed
  have "pl_samples ?out = mix_into (pl_samples out) (pl_samples inp)"
  proof (rule nth_equalityI)
    show l: "length (pl_samples ?out) = length (mix_into (pl_samples out) (pl_samples inp))"
      using pl_samples_length [OF ok] by (simp add: pl_samples_length assms(1,2) unat_max)
    fix i assume "i < length (pl_samples ?out)"
    then have i: "i < unat ?pos" "i < MIXER_BUFFER_SIZE" using pl_samples_length [OF ok] n by simp_all
    have "pl_samples ?out ! i = mix_sample (mp_buffer out ! i) (mp_buffer inp ! i)"
      using nth n len i by (simp add: pl_samples_def)
    also have "\<dots> = mix_into (pl_samples out) (pl_samples inp) ! i"
      unfolding mix_into_nth [OF assms(1,2) i(1)] pl_samples_nth [OF assms(1,3) i(2)] pl_samples_nth [OF assms(2,4) i(2)] ..
    finally show "pl_samples ?out ! i = mix_into (pl_samples out) (pl_samples inp) ! i" .
  qed
  then show ?thesis using m ok sil by blast
qed

lemma mix_entries_all:
  assumes "pipelines_ok es heap" and "pl_ok out" and "pl_silent out"
  shows "\<exists>out' heap'. mix_entries es out heap = Some (out', heap') \<and> pl_ok out' \<and> length heap' = length heap \<and>
    pl_samples out' = foldl mix_into (pl_samples out) (map (\<lambda>e. pl_samples (heap ! snd e)) es) \<and>
    (\<forall>p < length heap. heap' ! p = (if p \<in> snd ` set es then zero_pipeline else heap ! p))"
  using assms
proof (induction es arbitrary: out heap)
  case (Cons e es)
  obtain key p where e: "e = (key, p)" by (cases e)
  from pipelines_ok_step [OF Cons.prems(1), of zero_pipeline]
  have p: "p < length heap" "pl_ok (heap ! p)" "pl_silent (heap ! p)" "p \<notin> snd ` set es"
    and ok: "pipelines_ok es (heap[p := zero_pipeline])" by (simp_all add: e)
  obtain out1 where o1: "mixer_thread_mix out (heap ! p) = Some (out1, zero_pipeline)" "pl_ok out1" "pl_silent out1"
    "pl_samples out1 = mix_into (pl_samples out) (pl_samples (heap ! p))"
    using mix_silent [OF Cons.prems(2) p(2) Cons.prems(3) p(3)] by blast
  obtain out' heap' where r: "mix_entries es out1 (heap[p := zero_pipeline]) = Some (out', heap')" "pl_ok out'" "length heap' = length heap"
    "pl_samples out' = foldl mix_into (pl_samples out1) (map (\<lambda>e. pl_samples (heap[p := zero_pipeline] ! snd e)) es)"
    "\<forall>q < length heap. heap' ! q = (if q \<in> snd ` set es then zero_pipeline else heap[p := zero_pipeline] ! q)"
    using Cons.IH [OF ok o1(2,3)] by auto
  have "map (\<lambda>e. pl_samples (heap[p := zero_pipeline] ! snd e)) es = map (\<lambda>e. pl_samples (heap ! snd e)) es"
    using p(4) by (intro map_cong refl arg_cong [where f = pl_samples] nth_list_update_neq) auto
  moreover have "\<forall>q < length heap. heap' ! q = (if q \<in> snd ` set (e # es) then zero_pipeline else heap ! q)"
    using r(5) by (simp add: e nth_list_update)
  moreover have "mix_entries (e # es) out heap = Some (out', heap')"
    unfolding e mix_entries.simps using p(1) r(1) o1(1) by simp
  moreover have "pl_samples out' = foldl mix_into (pl_samples out) (map (\<lambda>e. pl_samples (heap ! snd e)) (e # es))"
    unfolding r(4) calculation(1) by (simp add: e o1(4))
  ultimately show ?case using r(2,3) by blast
qed simp

section \<open>A chunk keeps the rest silent\<close>

lemma pl_silent_drop: "pl_silent p \<Longrightarrow> unat (mp_position p) \<le> n \<Longrightarrow> s \<in> set (drop n (mp_buffer p)) \<Longrightarrow> s = 0"
  unfolding pl_silent_def using set_drop_subset_set_drop [of "unat (mp_position p)" n "mp_buffer p"] by blast

lemma write_chunk_silent:
  assumes "pl_ok p" and "pl_silent p" and "w \<le> count" and "unat count \<le> length dat" and "even (unat count)" "even (unat w)"
    and "pipeline_write_chunk p dat count w = Some (q, w', inc)"
  shows "pl_silent q"
proof -
  have d: "drop (unat (mp_position q)) (mp_buffer q) = drop (unat (mp_position q)) (mp_buffer p)"
    and "unat (mp_position p) \<le> unat (mp_position q)"
    using write_chunk_spec [OF assms(1,3-6)] assms(7) by auto
  then show ?thesis unfolding pl_silent_def d using pl_silent_drop [OF assms(2)] by blast
qed

section \<open>The system of writers and mixer\<close>

text \<open>
  The shared object whenever \<open>mixer_lock\<close> is free: the mixer's own pipeline is silent, every mapped pointer
  is a well-formed pipeline that is silent after its position, and different addresses have different pipelines.
\<close>

definition buses_ok :: "('m, nat) hashmap_api \<Rightarrow> (string \<Rightarrow> string \<Rightarrow> bool) \<Rightarrow> 'm ext_pcm \<Rightarrow> bool" where
  "buses_ok H eq e \<longleftrightarrow> mixer_pipeline e = zero_pipeline \<and>
     (\<forall>k p. hashmapGet H (mixer_pipeline_map e) k = Some p \<longrightarrow>
        p < length (pipelines e) \<and> pl_ok (pipelines e ! p) \<and> pl_silent (pipelines e ! p)) \<and>
     (\<forall>k l p. hashmapGet H (mixer_pipeline_map e) k = Some p \<longrightarrow> hashmapGet H (mixer_pipeline_map e) l = Some p \<longrightarrow> eq k l)"

text \<open>
  What happens between two releases of the lock: the mixer mixes what every pipeline holds, or a writer puts
  bytes into the pipeline of its address.
\<close>

datatype mixer_event = Mixed "(string \<times> s16 list) list" | Put string bytes

definition round_of :: "('m, nat) hashmap_api \<Rightarrow> 'm ext_pcm \<Rightarrow> (string \<times> s16 list) list" where
  "round_of H e = map (\<lambda>(k, p). (k, pl_samples (pipelines e ! p))) (hashmapEntries H (mixer_pipeline_map e))"

inductive mixer_step :: "('m, nat) hashmap_api \<Rightarrow> 'm ext_pcm \<Rightarrow> mixer_event \<Rightarrow> 'm ext_pcm \<Rightarrow> bool" for H where
  step_round: "mixer_iteration H e = Some e' \<Longrightarrow> mixer_step H e (Mixed (round_of H e)) e'"
| step_put: "pipeline_of H e a = (e1, p) \<Longrightarrow> w \<le> count \<Longrightarrow> unat count \<le> length dat \<Longrightarrow>
    even (unat count) \<Longrightarrow> even (unat w) \<Longrightarrow> pipeline_write_chunk (pipelines e1 ! p) dat count w = Some (q, w', inc) \<Longrightarrow>
    mixer_step H e (Put a (take (unat w' - unat w) (drop (unat w) dat))) (e1\<lparr>pipelines := (pipelines e1)[p := q]\<rparr>)"

inductive mixer_run :: "('m, nat) hashmap_api \<Rightarrow> 'm ext_pcm \<Rightarrow> mixer_event list \<Rightarrow> 'm ext_pcm \<Rightarrow> bool" for H where
  run_done: "mixer_run H e [] e"
| run_step: "mixer_step H e ev e' \<Longrightarrow> mixer_run H e' evs e'' \<Longrightarrow> mixer_run H e (ev # evs) e''"

inductive_cases mixer_stepE: "mixer_step H e ev e'"

text \<open>What a sequence of events says of one address, and of the PCM.\<close>

definition taken :: "(string \<Rightarrow> string \<Rightarrow> bool) \<Rightarrow> string \<Rightarrow> (string \<times> s16 list) list \<Rightarrow> bytes" where
  "taken eq a r = concat (map (\<lambda>(k, ss). if eq a k then samples_to_bytes ss else []) r)"

fun put_bytes :: "(string \<Rightarrow> string \<Rightarrow> bool) \<Rightarrow> string \<Rightarrow> mixer_event list \<Rightarrow> bytes" where
  "put_bytes eq a [] = []"
| "put_bytes eq a (Put k bs # evs) = (if eq a k then bs else []) @ put_bytes eq a evs"
| "put_bytes eq a (Mixed r # evs) = put_bytes eq a evs"

fun taken_bytes :: "(string \<Rightarrow> string \<Rightarrow> bool) \<Rightarrow> string \<Rightarrow> mixer_event list \<Rightarrow> bytes" where
  "taken_bytes eq a [] = []"
| "taken_bytes eq a (Put k bs # evs) = taken_bytes eq a evs"
| "taken_bytes eq a (Mixed r # evs) = taken eq a r @ taken_bytes eq a evs"

fun played :: "mixer_event list \<Rightarrow> bytes" where
  "played [] = []"
| "played (Put k bs # evs) = played evs"
| "played (Mixed r # evs) = samples_to_bytes (mix_all (map snd r)) @ played evs"

lemma run_append: "mixer_run H e evs e' \<Longrightarrow> mixer_run H e' evs' e'' \<Longrightarrow> mixer_run H e (evs @ evs') e''"
  by (induction rule: mixer_run.induct) (auto intro: mixer_run.intros)

lemma event_append [simp]:
  "put_bytes eq a (evs @ evs') = put_bytes eq a evs @ put_bytes eq a evs'"
  "taken_bytes eq a (evs @ evs') = taken_bytes eq a evs @ taken_bytes eq a evs'"
  "played (evs @ evs') = played evs @ played evs'"
proof -
  show "put_bytes eq a (evs @ evs') = put_bytes eq a evs @ put_bytes eq a evs'"
    by (induction eq a evs rule: put_bytes.induct) simp_all
  show "taken_bytes eq a (evs @ evs') = taken_bytes eq a evs @ taken_bytes eq a evs'"
    by (induction eq a evs rule: taken_bytes.induct) simp_all
  show "played (evs @ evs') = played evs @ played evs'"
    by (induction evs rule: played.induct) simp_all
qed

text \<open>What a step keeps of the object besides its pipelines.\<close>

definition same_pcm :: "'m ext_pcm \<Rightarrow> 'm ext_pcm \<Rightarrow> bool" where
  "same_pcm e e' \<longleftrightarrow> pcm e' = pcm e \<and> ref_count e' = ref_count e \<and> run_mixer e' = run_mixer e"

text \<open>
  The other threads during a wait of the writer of \<open>a\<close>: a run of the system in which the mixer mixes at least
  once, since it is its broadcast that ends the wait, and in which nobody else writes to \<open>a\<close>.
\<close>

definition mixer_serves ::
    "('m, nat) hashmap_api \<Rightarrow> (string \<Rightarrow> string \<Rightarrow> bool) \<Rightarrow> string \<Rightarrow> (nat \<Rightarrow> 'm ext_pcm \<Rightarrow> 'm ext_pcm option) \<Rightarrow> bool" where
  "mixer_serves H eq a env \<longleftrightarrow> (\<forall>j e. buses_ok H eq e \<longrightarrow>
     (\<exists>evs e'. env j e = Some e' \<and> mixer_run H e evs e' \<and> put_bytes eq a evs = [] \<and> (\<exists>r. Mixed r \<in> set evs)))"

context mixer_map
begin

lemma taken_step: "taken eq a (map (\<lambda>(k, p). (k, f p)) (e # es)) =
    (if eq a (fst e) then samples_to_bytes (f (snd e)) else []) @ taken eq a (map (\<lambda>(k, p). (k, f p)) es)"
  by (simp add: taken_def case_prod_beta)

lemma taken_none: "\<forall>x \<in> set es. \<not> eq a (fst x) \<Longrightarrow> taken eq a (map (\<lambda>(k, p). (k, f p)) es) = []"
  by (induction es) (simp_all add: taken_def case_prod_beta)

lemma taken_entry:
  assumes "sorted_wrt (\<lambda>x y. \<not> eq (fst x) (fst y)) es" and "x \<in> set es" and "eq a (fst x)"
  shows "taken eq a (map (\<lambda>(k, p). (k, f p)) es) = samples_to_bytes (f (snd x))"
  using assms
proof (induction es)
  case (Cons e es)
  show ?case
  proof (cases "eq a (fst e)")
    case True
    have "eq (fst e) (fst y)" if "eq a (fst y)" for y using trans [OF sym [OF True] that] .
    then have sole: "\<forall>y \<in> set es. \<not> eq a (fst y)" using Cons.prems(1) by auto
    then have "x = e" using Cons.prems(2,3) by auto
    then show ?thesis using True taken_none [OF sole] by (simp only: taken_step) simp
  next
    case False
    then have "x \<in> set es" using Cons.prems(2,3) by auto
    then have "taken eq a (map (\<lambda>(k, p). (k, f p)) es) = samples_to_bytes (f (snd x))"
      using Cons.IH Cons.prems by simp
    then show ?thesis using False by (simp only: taken_step) simp
  qed
qed simp

lemma taken_round: "taken eq a (round_of api e) = bus_pending api a e"
proof (cases "hashmapGet api (mixer_pipeline_map e) a")
  case None
  then have "\<forall>x \<in> set (hashmapEntries api (mixer_pipeline_map e)). \<not> eq a (fst x)"
    using entry_value get_cong by (metis option.distinct(1) prod.collapse)
  then show ?thesis using None by (simp add: round_of_def bus_pending_def taken_none)
next
  case (Some p)
  then obtain k where k: "(k, p) \<in> set (hashmapEntries api (mixer_pipeline_map e))" "eq a k"
    using entries_get sym by blast
  show ?thesis using taken_entry [OF entries_once k(1), of a "\<lambda>p. pl_samples (pipelines e ! p)"] k(2) Some
    by (simp add: round_of_def bus_pending_def pl_bytes_def)
qed

lemma entries_pipelines_ok:
  assumes "buses_ok api eq e"
  shows "pipelines_ok (hashmapEntries api (mixer_pipeline_map e)) (pipelines e)"
proof -
  let ?es = "hashmapEntries api (mixer_pipeline_map e)"
  have val: "hashmapGet api (mixer_pipeline_map e) (fst x) = Some (snd x)" if "x \<in> set ?es" for x
    using that by (intro entry_value) simp
  have inj: "eq (fst x) (fst y)" if "x \<in> set ?es" "y \<in> set ?es" "snd x = snd y" for x y
    using assms val [OF that(1)] val [OF that(2)] that(3) by (simp add: buses_ok_def)
  have "sorted_wrt (\<lambda>x y. snd x \<noteq> snd y) ?es"
    by (rule sorted_wrt_mono_rel [OF _ entries_once]) (use inj in blast)
  then have "distinct (map snd ?es)" by (simp add: distinct_conv_nth sorted_wrt_map sorted_wrt_iff_nth_less) (metis linorder_neq_iff)
  then show ?thesis using assms val unfolding pipelines_ok_def buses_ok_def by fastforce
qed

lemma iteration_buses:
  assumes "buses_ok api eq e"
  shows "\<exists>e'. mixer_iteration api e = Some e' \<and> buses_ok api eq e' \<and> same_pcm e e' \<and>
    pcm_out e' = pcm_out e @ samples_to_bytes (mix_all (map snd (round_of api e))) \<and>
    mixer_pipeline_map e' = mixer_pipeline_map e \<and> (\<forall>a. bus_pending api a e' = [])"
proof -
  let ?es = "hashmapEntries api (mixer_pipeline_map e)" and ?h = "pipelines e"
  have z: "mixer_pipeline e = zero_pipeline" using assms by (simp add: buses_ok_def)
  have silent: "pl_silent zero_pipeline" by (simp add: pl_silent_def)
  obtain out' heap' where m: "mix_entries ?es zero_pipeline ?h = Some (out', heap')" "pl_ok out'" "length heap' = length ?h"
    "pl_samples out' = foldl mix_into (pl_samples zero_pipeline) (map (\<lambda>e. pl_samples (?h ! snd e)) ?es)"
    "\<forall>p < length ?h. heap' ! p = (if p \<in> snd ` set ?es then zero_pipeline else ?h ! p)"
    using mix_entries_all [OF entries_pipelines_ok [OF assms] zero_pipeline_facts(1) silent] by blast
  let ?e = "e\<lparr>pipelines := heap', mixer_pipeline := zero_pipeline, pcm_out := pcm_out e @ pl_bytes out'\<rparr>"
  have it: "mixer_iteration api e = Some ?e"
    using pcm_bytes [OF m(2)] m(1) by (simp add: mixer_iteration_def z split: if_splits)
  have cleared: "p < length heap' \<and> heap' ! p = zero_pipeline" if "hashmapGet api (mixer_pipeline_map e) k = Some p" for k p
    using get_entry [OF that] m(3,5) assms that by (simp add: buses_ok_def)
  have ok: "buses_ok api eq ?e" using assms cleared silent by (simp add: buses_ok_def)
  have pend: "bus_pending api a ?e = []" for a
    using cleared by (simp add: bus_pending_def split: option.split)
  have "map snd (round_of api e) = map (\<lambda>e. pl_samples (?h ! snd e)) ?es"
    by (simp add: round_of_def case_prod_beta)
  then have "pl_bytes out' = samples_to_bytes (mix_all (map snd (round_of api e)))"
    by (simp add: pl_bytes_def m(4) mix_all_def)
  then show ?thesis using it ok pend by (intro exI [of _ ?e]) (simp add: same_pcm_def)
qed

lemma pipeline_of_buses:
  assumes "buses_ok api eq e" and "pipeline_of api e a = (e1, p)"
  shows "buses_ok api eq e1 \<and> hashmapGet api (mixer_pipeline_map e1) a = Some p \<and> same_pcm e e1 \<and> pcm_out e1 = pcm_out e \<and>
    (\<forall>b. bus_pending api b e1 = bus_pending api b e) \<and>
    (\<forall>b q. hashmapGet api (mixer_pipeline_map e) b = Some q \<longrightarrow> hashmapGet api (mixer_pipeline_map e1) b = Some q)"
proof (cases "hashmapGet api (mixer_pipeline_map e) a")
  case (Some q)
  then show ?thesis using assms by (simp add: pipeline_of_def same_pcm_def)
next
  case None
  then have e1: "e1 = e\<lparr>pipelines := pipelines e @ [zero_pipeline],
      mixer_pipeline_map := hashmapPut api (mixer_pipeline_map e) a p\<rparr>" "p = length (pipelines e)"
    using assms(2) by (auto simp: pipeline_of_def Let_def)
  have new: "hashmapGet api (mixer_pipeline_map e) b = None" if "eq a b" for b using get_cong [OF that] None by simp
  have old: "q < length (pipelines e)" "pl_ok (pipelines e ! q)" "pl_silent (pipelines e ! q)"
    if "hashmapGet api (mixer_pipeline_map e) b = Some q" for b q using assms(1) that by (auto simp: buses_ok_def)
  have inj: "eq k l" if "hashmapGet api (mixer_pipeline_map e) k = Some q" "hashmapGet api (mixer_pipeline_map e) l = Some q" for k l q
    using assms(1) that unfolding buses_ok_def by blast
  have silent: "pl_silent zero_pipeline" by (simp add: pl_silent_def)
  have get: "hashmapGet api (mixer_pipeline_map e1) b = (if eq a b then Some p else hashmapGet api (mixer_pipeline_map e) b)" for b
    by (simp add: e1(1) get_put)
  have "buses_ok api eq e1" unfolding buses_ok_def get
  proof (intro conjI allI impI)
    show "mixer_pipeline e1 = zero_pipeline" using assms(1) by (simp add: e1(1) buses_ok_def)
  next
    fix k q assume "(if eq a k then Some p else hashmapGet api (mixer_pipeline_map e) k) = Some q"
    then show "q < length (pipelines e1)" "pl_ok (pipelines e1 ! q)" "pl_silent (pipelines e1 ! q)"
      using old [of k q] silent by (auto simp: e1 nth_append split: if_splits)
  next
    fix k l q assume "(if eq a k then Some p else hashmapGet api (mixer_pipeline_map e) k) = Some q"
      and "(if eq a l then Some p else hashmapGet api (mixer_pipeline_map e) l) = Some q"
    then show "eq k l" using old(1) [of k q] old(1) [of l q] inj [of k q l] trans [OF sym, of a k l] e1(2)
      by (auto split: if_splits)
  qed
  moreover have "bus_pending api b e1 = bus_pending api b e" for b
    using new [of b] old(1) [of b] by (auto simp: bus_pending_def get e1(2) split: option.split) (auto simp: e1 nth_append)
  ultimately show ?thesis using refl new by (auto simp: get_put same_pcm_def e1)
qed

lemma buses_update:
  assumes "buses_ok api eq e" and "hashmapGet api (mixer_pipeline_map e) a = Some p" and "pl_ok q" and "pl_silent q"
  shows "buses_ok api eq (e\<lparr>pipelines := (pipelines e)[p := q]\<rparr>)"
    and "bus_pending api b (e\<lparr>pipelines := (pipelines e)[p := q]\<rparr>) = (if eq a b then pl_bytes q else bus_pending api b e)"
proof -
  have p: "p < length (pipelines e)" using assms(1,2) by (simp add: buses_ok_def)
  show "buses_ok api eq (e\<lparr>pipelines := (pipelines e)[p := q]\<rparr>)"
    using assms by (simp add: buses_ok_def nth_list_update)
  have "eq a b" if "hashmapGet api (mixer_pipeline_map e) b = Some p" using assms(1,2) that unfolding buses_ok_def by blast
  then show "bus_pending api b (e\<lparr>pipelines := (pipelines e)[p := q]\<rparr>) = (if eq a b then pl_bytes q else bus_pending api b e)"
    using p assms(2) get_cong [of a b] by (auto simp: bus_pending_def nth_list_update split: option.split)
qed

lemma chunk_buses:
  assumes "buses_ok api eq e" and "hashmapGet api (mixer_pipeline_map e) a = Some p" and "w \<le> count" and "unat count \<le> length dat"
    and "even (unat count)" and "even (unat w)" and "pipeline_write_chunk (pipelines e ! p) dat count w = Some (q, w', inc)"
  shows "buses_ok api eq (e\<lparr>pipelines := (pipelines e)[p := q]\<rparr>) \<and>
    bus_pending api b (e\<lparr>pipelines := (pipelines e)[p := q]\<rparr>) =
      bus_pending api b e @ (if eq a b then take (unat w' - unat w) (drop (unat w) dat) else [])"
proof -
  let ?p = "pipelines e ! p" and ?B = "chunk_size (pipelines e ! p) count w"
  have p: "pl_ok ?p" "pl_silent ?p" using assms(1,2) by (auto simp: buses_ok_def)
  have q: "pl_ok q" "pl_bytes q = pl_bytes ?p @ take ?B (drop (unat w) dat)" "w' = w + of_nat ?B"
    using write_chunk_spec [OF p(1) assms(3-6)] assms(7) by auto
  have silent: "pl_silent q" using write_chunk_silent [OF p assms(3-7)] .
  have "unat w' = unat w + ?B" unfolding q(3) using assms(3) by (rule chunk_advance)
  moreover have "pl_bytes ?p = bus_pending api b e" if "eq a b"
    using assms(2) get_cong [OF that] by (simp add: bus_pending_def)
  ultimately show ?thesis using buses_update [OF assms(1,2) q(1) silent] q(2) by simp
qed

lemma step_buses:
  assumes "mixer_step api e ev e'" and "buses_ok api eq e"
  shows "buses_ok api eq e' \<and> same_pcm e e' \<and> pcm_out e' = pcm_out e @ played [ev] \<and>
    (\<forall>a. bus_pending api a e @ put_bytes eq a [ev] = taken_bytes eq a [ev] @ bus_pending api a e') \<and>
    (\<forall>a p. hashmapGet api (mixer_pipeline_map e) a = Some p \<longrightarrow> hashmapGet api (mixer_pipeline_map e') a = Some p)"
  using assms(1)
proof (cases rule: mixer_step.cases)
  case step_round
  then show ?thesis using iteration_buses [OF assms(2)] by (auto simp: taken_round)
next
  case (step_put a e1 p w count dat q w' inc)
  note e1 = pipeline_of_buses [OF assms(2) step_put(3)]
  note c = chunk_buses [OF conjunct1 [OF e1] _ step_put(4-8), of a]
  have com: "eq b a = eq a b" for b using sym by blast
  show ?thesis using e1 c by (simp add: step_put(1,2) same_pcm_def com)
qed

lemma run_buses:
  assumes "mixer_run api e evs e'" and "buses_ok api eq e"
  shows "buses_ok api eq e' \<and> same_pcm e e' \<and> pcm_out e' = pcm_out e @ played evs \<and>
    (\<forall>a. bus_pending api a e @ put_bytes eq a evs = taken_bytes eq a evs @ bus_pending api a e') \<and>
    (\<forall>a p. hashmapGet api (mixer_pipeline_map e) a = Some p \<longrightarrow> hashmapGet api (mixer_pipeline_map e') a = Some p)"
  using assms
proof (induction rule: mixer_run.induct)
  case (run_step e ev e' evs e'')
  note s = step_buses [OF run_step.hyps(1) run_step.prems]
  note r = run_step.IH [OF conjunct1 [OF s]]
  have split: "put_bytes eq a (ev # evs) = put_bytes eq a [ev] @ put_bytes eq a evs"
    "taken_bytes eq a (ev # evs) = taken_bytes eq a [ev] @ taken_bytes eq a evs"
    "played (ev # evs) = played [ev] @ played evs" for a
    by (cases ev; simp)+
  have "bus_pending api a e @ put_bytes eq a (ev # evs) = taken_bytes eq a (ev # evs) @ bus_pending api a e''" for a
    using s r unfolding split by (metis append.assoc)
  then show ?case using s r unfolding split by (auto simp: same_pcm_def)
qed (simp add: same_pcm_def)

text \<open>A mixing round empties every pipeline, and it stays empty while nobody writes to its address.\<close>

lemma run_empties:
  assumes "mixer_run api e evs e'" and "buses_ok api eq e" and "put_bytes eq a evs = []"
    and "bus_pending api a e = [] \<or> (\<exists>r. Mixed r \<in> set evs)"
  shows "bus_pending api a e' = []"
  using assms
proof (induction rule: mixer_run.induct)
  case (run_step e ev e' evs e'')
  have parts: "put_bytes eq a [ev] = []" "put_bytes eq a evs = []"
    using run_step.prems(2) by (cases ev; simp)+
  note s = step_buses [OF run_step.hyps(1) run_step.prems(1)]
  have "bus_pending api a e' = [] \<or> (\<exists>r. Mixed r \<in> set evs)"
  proof (cases ev)
    case (Mixed r)
    have "bus_pending api a e' = []" using run_step.hyps(1)
    proof (cases rule: mixer_step.cases)
      case step_round
      then show ?thesis using iteration_buses [OF run_step.prems(1)] by auto
    qed (use Mixed in simp)
    then show ?thesis ..
  next
    case (Put k bs)
    have "bus_pending api a e @ put_bytes eq a [ev] = taken_bytes eq a [ev] @ bus_pending api a e'" using s by blast
    then have "bus_pending api a e' = bus_pending api a e" unfolding parts(1) by (simp add: Put)
    then show ?thesis using run_step.prems(3) by (auto simp: Put)
  qed
  then show ?case using run_step.IH [OF conjunct1 [OF s] parts(2)] by blast
qed simp

lemma write_loop_buses:
  assumes "mixer_serves api eq a env" and "buses_ok api eq e0" and "pipeline_of api e0 a = (e, p)"
    and "w \<le> count" "unat count \<le> length dat" "even (unat count)" "even (unat w)"
  shows "\<exists>e' evs. pipeline_write_loop env j e p dat count w = Some e' \<and> mixer_run api e0 evs e' \<and>
    put_bytes eq a evs = take (unat count - unat w) (drop (unat w) dat)"
  using assms(2-)
proof (induction "write_measure (pipelines e ! p) count w" arbitrary: j e0 e w rule: less_induct)
  case less
  let ?q = "pipelines e ! p" and ?B = "chunk_size (pipelines e ! p) count w"
  note e = pipeline_of_buses [OF less.prems(1,2)]
  have get: "hashmapGet api (mixer_pipeline_map e) a = Some p" using e by blast
  then have p: "p < length (pipelines e)" "pl_ok ?q" using e by (auto simp: buses_ok_def)
  obtain q where chunk: "pipeline_write_chunk ?q dat count w = Some (q, w + of_nat ?B, unat w + ?B < unat count)"
    using write_chunk_spec [OF p(2) less.prems(3-6)] by blast
  let ?e = "e\<lparr>pipelines := (pipelines e)[p := q]\<rparr>"
  note B = chunk_le [of ?q count w] and wB = chunk_advance [OF less.prems(3), of ?q]
  have put: "mixer_step api e0 (Put a (take ?B (drop (unat w) dat))) ?e"
    using step_put [OF less.prems(2-6) chunk] by (simp add: wB(1))
  note e1 = step_buses [OF put less.prems(1)]
  show ?case
  proof (cases "unat w + ?B < unat count")
    case False
    then have full: "?B = unat count - unat w" using B by simp
    have run: "mixer_run api e0 [Put a (take ?B (drop (unat w) dat))] ?e"
      using put by (auto intro: mixer_run.intros)
    have "pipeline_write_loop env j e p dat count w = Some ?e"
      using p False by (subst pipeline_write_loop.simps) (simp add: chunk Let_def)
    then show ?thesis using full run refl by (intro exI conjI) auto
  next
    case True
    obtain evs e2 where e2: "env j ?e = Some e2" "mixer_run api ?e evs e2" "put_bytes eq a evs = []" "\<exists>r. Mixed r \<in> set evs"
      using assms(1) e1 unfolding mixer_serves_def by blast
    note r = run_buses [OF e2(2) conjunct1 [OF e1]]
    have get2: "hashmapGet api (mixer_pipeline_map e2) a = Some p" using r get by auto
    then have of2: "pipeline_of api e2 a = (e2, p)" by (simp add: pipeline_of_def)
    have "bus_pending api a e2 = []" using run_empties [OF e2(2) conjunct1 [OF e1] e2(3)] e2(4) by blast
    then have empty: "mp_position (pipelines e2 ! p) = 0"
      using get2 r unfolding buses_ok_def
      by (auto simp: bus_pending_def pl_bytes_def pl_samples_def pl_ok_def MIXER_BUFFER_SIZE_def unat_eq_zero dest: arg_cong [where f = length])
    have dec: "write_measure (pipelines e2 ! p) count (w + of_nat ?B) < write_measure ?q count w"
      using less.prems(3) True empty by (rule chunk_decreases)
    have ev: "even (unat (w + of_nat ?B))" unfolding wB(1) using less.prems(6) chunk_full [OF True] by simp
    obtain e3 evs' where e3: "pipeline_write_loop env (Suc j) e2 p dat count (w + of_nat ?B) = Some e3" "mixer_run api e2 evs' e3"
      "put_bytes eq a evs' = take (unat count - (unat w + ?B)) (drop (unat w + ?B) dat)"
      using less.hyps [OF dec conjunct1 [OF r] of2 wB(2) less.prems(4,5) ev, of "Suc j"] by (auto simp: wB(1))
    have run: "mixer_run api e0 (Put a (take ?B (drop (unat w) dat)) # evs @ evs') e3"
      using put run_append [OF e2(2) e3(2)] by (rule mixer_run.run_step)
    have "take (unat count - unat w) (drop (unat w) dat) =
        take ?B (drop (unat w) dat) @ take (unat count - (unat w + ?B)) (drop (unat w + ?B) dat)"
      using True by (intro chunk_take) simp
    then have "put_bytes eq a (Put a (take ?B (drop (unat w) dat)) # evs @ evs') = take (unat count - unat w) (drop (unat w) dat)"
      using refl e2(3) e3(3) by simp
    moreover have "pipeline_write_loop env j e p dat count w = Some e3"
      using p True e3(1) e2(1) by (subst pipeline_write_loop.simps) (simp add: chunk Let_def)
    ultimately show ?thesis using run by blast
  qed
qed

lemma write_buses:
  assumes "mixer_serves api eq a env" and "buses_ok api eq e" and "unat count \<le> length dat" and "even (unat count)"
  shows "\<exists>e' evs. mixer_pipeline_write api env e a dat count = Some (e', 0) \<and> mixer_run api e evs e' \<and>
    put_bytes eq a evs = take (unat count) dat"
proof -
  obtain e1 p where "pipeline_of api e a = (e1, p)" by (cases "pipeline_of api e a")
  then show ?thesis using write_loop_buses [OF assms(1,2) _ _ assms(3,4), of e1 p 0 0]
    by (auto simp: mixer_pipeline_write_def)
qed

lemma iteration_serves: "mixer_serves api eq a (\<lambda>_. mixer_iteration api)"
  unfolding mixer_serves_def
proof (intro allI impI)
  fix e :: "'m ext_pcm" assume "buses_ok api eq e"
  then obtain e' where e': "mixer_iteration api e = Some e'" using iteration_buses by blast
  then have "mixer_run api e [Mixed (round_of api e)] e'" by (auto intro: mixer_run.intros mixer_step.intros)
  then show "\<exists>evs e'. mixer_iteration api e = Some e' \<and> mixer_run api e evs e' \<and> put_bytes eq a evs = [] \<and> (\<exists>r. Mixed r \<in> set evs)"
    using e' by (intro exI [of _ "[Mixed (round_of api e)]"] exI [of _ e']) auto
qed

end

lemma buses_writer:
  assumes "mixer_map (we_hashmap E) eq" and "mixer_serves (we_hashmap E) eq addr (we_wait E)"
  shows "mixer_writer E addr (buses_ok (we_hashmap E) eq)
    (\<lambda>e bs e'. \<exists>evs. mixer_run (we_hashmap E) e evs e' \<and> put_bytes eq addr evs = bs)"
proof unfold_locales
  fix e and dat :: bytes and count :: u32
  assume e: "buses_ok (we_hashmap E) eq e" and c: "unat count \<le> length dat" "even (unat count)"
  obtain e' evs where w: "mixer_pipeline_write (we_hashmap E) (we_wait E) e addr dat count = Some (e', 0)"
    "mixer_run (we_hashmap E) e evs e'" "put_bytes eq addr evs = take (unat count) dat"
    using mixer_map.write_buses [OF assms e c] by blast
  note r = mixer_map.run_buses [OF assms(1) w(2) e]
  show "\<exists>e'. mixer_pipeline_write (we_hashmap E) (we_wait E) e addr dat count = Some (e', 0) \<and>
      buses_ok (we_hashmap E) eq e' \<and> pcm e' = pcm e \<and>
      (\<exists>evs. mixer_run (we_hashmap E) e evs e' \<and> put_bytes eq addr evs = take (unat count) dat)"
    using w r by (intro exI conjI) (auto simp: same_pcm_def)
next
  fix e :: "'a ext_pcm"
  show "\<exists>evs. mixer_run (we_hashmap E) e evs e \<and> put_bytes eq addr evs = []"
    by (intro exI [of _ "[]"]) (simp add: run_done)
next
  fix e e' e'' :: "'a ext_pcm" and bs cs
  assume "\<exists>evs. mixer_run (we_hashmap E) e evs e' \<and> put_bytes eq addr evs = bs"
    and "\<exists>evs. mixer_run (we_hashmap E) e' evs e'' \<and> put_bytes eq addr evs = cs"
  then show "\<exists>evs. mixer_run (we_hashmap E) e evs e'' \<and> put_bytes eq addr evs = bs @ cs"
    using run_append event_append(1) by metis
qed

section \<open>The mixer thread\<close>

text \<open>
  \<open>mixer_thread_loop\<close>. \<open>env (2 * j)\<close> is what other threads do between the release of
  \<open>mixer_lock\<close> and the reading of \<open>run_mixer\<close> in round \<open>j\<close>, and \<open>env (2 * j + 1)\<close>
  what they do during its \<open>usleep\<close>.
\<close>

partial_function (option) mixer_thread_loop ::
    "('m, nat) hashmap_api \<Rightarrow> (nat \<Rightarrow> 'm ext_pcm \<Rightarrow> 'm ext_pcm option) \<Rightarrow> nat \<Rightarrow> 'm ext_pcm \<Rightarrow> 'm ext_pcm option" where
  "mixer_thread_loop H env j e =
     Option.bind (mixer_iteration H e) (\<lambda>e.
     Option.bind (env (2 * j) e) (\<lambda>e.
     if \<not> run_mixer e then Some e
     else Option.bind (env (2 * j + 1) e) (mixer_thread_loop H env (Suc j))))"

text \<open>
  The other threads while \<open>j\<close> counts the unlocked sections: they write to buses, and one of them clears
  \<open>run_mixer\<close> in the section \<open>n\<close> (\<open>ext_pcm_close\<close>).
\<close>

fun rounds :: "mixer_event list \<Rightarrow> nat" where
  "rounds [] = 0"
| "rounds (Put k bs # evs) = rounds evs"
| "rounds (Mixed r # evs) = Suc (rounds evs)"

definition stops_at :: "('m, nat) hashmap_api \<Rightarrow> nat \<Rightarrow> (nat \<Rightarrow> 'm ext_pcm \<Rightarrow> 'm ext_pcm option) \<Rightarrow> bool" where
  "stops_at H n env \<longleftrightarrow> (\<forall>j e. \<exists>evs e'. mixer_run H e evs e' \<and> rounds evs = 0 \<and>
     env j e = Some (if j = n then e'\<lparr>run_mixer := False\<rparr> else e'))"

text \<open>What a log of events says of two states, whatever the flag.\<close>

definition accounts ::
    "('m, nat) hashmap_api \<Rightarrow> (string \<Rightarrow> string \<Rightarrow> bool) \<Rightarrow> 'm ext_pcm \<Rightarrow> mixer_event list \<Rightarrow> 'm ext_pcm \<Rightarrow> bool" where
  "accounts H eq e evs e' \<longleftrightarrow> buses_ok H eq e' \<and> pcm_out e' = pcm_out e @ played evs \<and>
     (\<forall>a. bus_pending H a e @ put_bytes eq a evs = taken_bytes eq a evs @ bus_pending H a e')"

lemma bus_pending_flag [simp]: "bus_pending H a (e\<lparr>run_mixer := b\<rparr>) = bus_pending H a e"
  by (simp add: bus_pending_def split: option.split)

lemma accounts_flag [simp]: "accounts H eq e evs (e'\<lparr>run_mixer := b\<rparr>) = accounts H eq e evs e'"
  by (simp add: accounts_def buses_ok_def)

lemma accounts_append: "accounts H eq e evs e' \<Longrightarrow> accounts H eq e' evs' e'' \<Longrightarrow> accounts H eq e (evs @ evs') e''"
  unfolding accounts_def event_append by (metis append.assoc)

lemma rounds_append [simp]: "rounds (evs @ evs') = rounds evs + rounds evs'"
  by (induction evs rule: rounds.induct) simp_all

context mixer_map
begin

lemma run_accounts: "mixer_run api e evs e' \<Longrightarrow> buses_ok api eq e \<Longrightarrow> accounts api eq e evs e' \<and> run_mixer e' = run_mixer e"
  using run_buses [of e evs e'] by (simp add: accounts_def same_pcm_def)

lemma round_accounts:
  assumes "buses_ok api eq e"
  shows "\<exists>e'. mixer_iteration api e = Some e' \<and> accounts api eq e [Mixed (round_of api e)] e' \<and> run_mixer e' = run_mixer e"
proof -
  obtain e' where e': "mixer_iteration api e = Some e'" using iteration_buses [OF assms] by blast
  then have "mixer_run api e [Mixed (round_of api e)] e'" by (auto intro: mixer_run.intros mixer_step.intros)
  then show ?thesis using e' run_accounts [OF _ assms] by blast
qed

lemma section_accounts:
  assumes "stops_at api n env" and "buses_ok api eq e"
  shows "\<exists>evs e'. env j e = Some e' \<and> accounts api eq e evs e' \<and> rounds evs = 0 \<and>
    run_mixer e' = (run_mixer e \<and> j \<noteq> n)"
proof -
  obtain evs e' where r: "mixer_run api e evs e'" "rounds evs = 0" "env j e = Some (if j = n then e'\<lparr>run_mixer := False\<rparr> else e')"
    using assms(1) unfolding stops_at_def by blast
  then show ?thesis using run_accounts [OF r(1) assms(2)]
    by (intro exI [of _ evs] exI [of _ "if j = n then e'\<lparr>run_mixer := False\<rparr> else e'"]) simp
qed

text \<open>One round up to the reading of the flag.\<close>

lemma round_then_flag:
  assumes "stops_at api n env" and "buses_ok api eq e"
  shows "\<exists>e1 e2 evs. mixer_iteration api e = Some e1 \<and> env (2 * j) e1 = Some e2 \<and> accounts api eq e evs e2 \<and>
    rounds evs = 1 \<and> run_mixer e2 = (run_mixer e \<and> 2 * j \<noteq> n)"
proof -
  obtain e1 where e1: "mixer_iteration api e = Some e1" "accounts api eq e [Mixed (round_of api e)] e1" "run_mixer e1 = run_mixer e"
    using round_accounts [OF assms(2)] by blast
  then have "buses_ok api eq e1" by (simp add: accounts_def)
  then obtain evs e2 where e2: "env (2 * j) e1 = Some e2" "accounts api eq e1 evs e2" "rounds evs = 0"
    "run_mixer e2 = (run_mixer e1 \<and> 2 * j \<noteq> n)"
    using section_accounts [OF assms(1), of e1 "2 * j"] by blast
  have "rounds ([Mixed (round_of api e)] @ evs) = 1" using e2(3) by simp
  then show ?thesis using e1 e2 accounts_append [OF e1(2) e2(2)] by blast
qed

lemma thread_loop_stops:
  assumes "stops_at api n env" and "buses_ok api eq e" and "n < 2 * j \<longrightarrow> \<not> run_mixer e" and "2 * j \<le> n \<longrightarrow> run_mixer e"
  shows "\<exists>e' evs. mixer_thread_loop api env j e = Some e' \<and> accounts api eq e evs e' \<and>
    rounds evs = Suc (Suc n div 2 - j) \<and> \<not> run_mixer e'"
  using assms(2-)
proof (induction "Suc n - 2 * j" arbitrary: j e rule: less_induct)
  case less
  obtain e1 e2 evs where r: "mixer_iteration api e = Some e1" "env (2 * j) e1 = Some e2" "accounts api eq e evs e2"
    "rounds evs = 1" "run_mixer e2 = (run_mixer e \<and> 2 * j \<noteq> n)"
    using round_then_flag [OF assms(1) less.prems(1), of j] by blast
  show ?case
  proof (cases "run_mixer e2")
    case False
    then have "n \<le> 2 * j" using r(5) less.prems(3) by auto
    then have "Suc n div 2 - j = 0" by linarith
    moreover have "mixer_thread_loop api env j e = Some e2"
      using r(1,2) False by (subst mixer_thread_loop.simps) simp
    ultimately show ?thesis using r(3,4) False by auto
  next
    case True
    then have lt: "2 * j < n" using r(5) less.prems(2) by (metis linorder_neqE_nat)
    have "buses_ok api eq e2" using r(3) by (simp add: accounts_def)
    then obtain evs2 e3 where e3: "env (2 * j + 1) e2 = Some e3" "accounts api eq e2 evs2 e3" "rounds evs2 = 0"
      "run_mixer e3 = (run_mixer e2 \<and> 2 * j + 1 \<noteq> n)"
      using section_accounts [OF assms(1), of e2 "2 * j + 1"] by blast
    have "buses_ok api eq e3" using e3(2) by (simp add: accounts_def)
    moreover have "n < 2 * Suc j \<longrightarrow> \<not> run_mixer e3" "2 * Suc j \<le> n \<longrightarrow> run_mixer e3" using e3(4) True lt by auto
    moreover have "Suc n - 2 * Suc j < Suc n - 2 * j" using lt by simp
    ultimately obtain e4 evs3 where e4: "mixer_thread_loop api env (Suc j) e3 = Some e4" "accounts api eq e3 evs3 e4"
      "rounds evs3 = Suc (Suc n div 2 - Suc j)" "\<not> run_mixer e4"
      using less.hyps [of "Suc j" e3] by blast
    have "mixer_thread_loop api env j e = Some e4"
      using r(1,2) True e3(1) e4(1) by (subst mixer_thread_loop.simps) simp
    moreover have "rounds (evs @ evs2 @ evs3) = Suc (Suc n div 2 - j)"
      using r(4) e3(3) e4(3) lt by (simp add: Suc_diff_le)
    ultimately show ?thesis using accounts_append [OF r(3) accounts_append [OF e3(2) e4(2)]] e4(4) by blast
  qed
qed

end

interpretation str_buses: mixer_writer env_example addr "buses_ok (we_hashmap env_example) str_eq"
  "\<lambda>e bs e'. \<exists>evs. mixer_run (we_hashmap env_example) e evs e' \<and> put_bytes str_eq addr evs = bs"
  using str_mixer.mixer_map_axioms str_mixer.iteration_serves
  by (intro buses_writer) (simp_all add: env_example_def)

section \<open>Properties\<close>

text \<open>
  C4. Any number of buses. In every interleaving of writers and mixer rounds the PCM receives the rounds in
  order, each the pointwise saturated mix of what the pipelines held, and for every address the samples the
  rounds took followed by what its pipeline still holds are exactly the bytes written to it, in order: no byte
  of any bus is lost, mixed twice or delivered to another bus.
\<close>

theorem interleaved_writes_mixed:
  assumes "mixer_map H eq" and "buses_ok H eq e" and "mixer_run H e evs e'"
  shows "buses_ok H eq e' \<and> pcm_out e' = pcm_out e @ played evs \<and>
    (\<forall>a. bus_pending H a e @ put_bytes eq a evs = taken_bytes eq a evs @ bus_pending H a e')"
  using mixer_map.run_buses [OF assms(1,3,2)] by simp

definition two_buses :: "(string \<times> nat) list ext_pcm" where
  "two_buses = \<lparr>pcm = Some 0, run_mixer = True, ref_count = 2, mixer_pipeline = zero_pipeline,
     mixer_pipeline_map = [(''bus0'', 0), (''bus1'', 1)], pipelines = [zero_pipeline, zero_pipeline], pcm_out = []\<rparr>"

lemma two_buses_ok: "buses_ok (alist_api str_eq) str_eq two_buses"
proof -
  have get: "hashmapGet (alist_api str_eq) (mixer_pipeline_map two_buses) k =
      (if str_eq ''bus0'' k then Some 0 else if str_eq ''bus1'' k then Some 1 else None)" for k
    by (simp add: two_buses_def alist_api_def)
  have silent: "pl_silent zero_pipeline" by (simp add: pl_silent_def)
  show ?thesis unfolding buses_ok_def get
  proof (intro conjI allI impI)
    show "mixer_pipeline two_buses = zero_pipeline" by (simp add: two_buses_def)
  next
    fix k and p :: nat
    assume "(if str_eq ''bus0'' k then Some 0 else if str_eq ''bus1'' k then Some 1 else None) = Some p"
    then have "p = 0 \<or> p = 1" by (simp split: if_splits)
    then show "p < length (pipelines two_buses)" "pl_ok (pipelines two_buses ! p)" "pl_silent (pipelines two_buses ! p)"
      using silent by (elim disjE; simp add: two_buses_def)+
  next
    fix k l and p :: nat
    assume "(if str_eq ''bus0'' k then Some 0 else if str_eq ''bus1'' k then Some 1 else None) = Some p"
      and "(if str_eq ''bus0'' l then Some 0 else if str_eq ''bus1'' l then Some 1 else None) = Some p"
    then show "str_eq k l"
      using str_map.trans [OF str_map.sym [of "''bus0''" k]] str_map.trans [OF str_map.sym [of "''bus1''" k]]
      by (simp split: if_splits)
  qed
qed

lemma two_buses_pending: "bus_pending (alist_api str_eq) a two_buses = []"
  by (simp add: bus_pending_def two_buses_def alist_api_def)

theorem interleaved_writes_mixed_witness:
  "\<exists>evs e'. mixer_run (alist_api str_eq) two_buses evs e' \<and> put_bytes str_eq ''bus0'' evs = [1, 2, 3, 4] \<and>
     pcm_out e' = played evs \<and>
     taken_bytes str_eq ''bus0'' evs @ bus_pending (alist_api str_eq) ''bus0'' e' = [1, 2, 3, 4]"
proof -
  obtain evs e' where r: "mixer_run (alist_api str_eq) two_buses evs e'" "put_bytes str_eq ''bus0'' evs = [1, 2, 3, 4]"
    using str_mixer.write_buses [OF str_mixer.iteration_serves two_buses_ok, of 4 "[1, 2, 3, 4]" "''bus0''"] by auto
  from interleaved_writes_mixed [OF str_mixer.mixer_map_axioms two_buses_ok r(1)]
  have p: "pcm_out e' = pcm_out two_buses @ played evs"
    "bus_pending (alist_api str_eq) ''bus0'' two_buses @ put_bytes str_eq ''bus0'' evs =
       taken_bytes str_eq ''bus0'' evs @ bus_pending (alist_api str_eq) ''bus0'' e'" by blast+
  have "pcm_out two_buses = []" by (simp add: two_buses_def)
  then show ?thesis using p r unfolding two_buses_pending by (intro exI [of _ evs] exI [of _ e']) simp
qed

text \<open>
  C13. A write among other buses returns. While other threads write to other addresses, and the mixer completes at
  least one round in every wait, a write of any even number of bytes to an address returns 0 after finitely
  many waits, and everything that happened meanwhile is an interleaving in which exactly its bytes were put.
\<close>

theorem concurrent_write_returns:
  assumes "mixer_map H eq" and "mixer_serves H eq a env" and "buses_ok H eq e" and "unat count \<le> length dat"
    and "even (unat count)"
  shows "\<exists>e' evs. mixer_pipeline_write H env e a dat count = Some (e', 0) \<and> mixer_run H e evs e' \<and>
    put_bytes eq a evs = take (unat count) dat \<and> buses_ok H eq e'"
proof -
  obtain e' evs where r: "mixer_pipeline_write H env e a dat count = Some (e', 0)" "mixer_run H e evs e'"
    "put_bytes eq a evs = take (unat count) dat" using mixer_map.write_buses [OF assms] by blast
  then show ?thesis using mixer_map.run_buses [OF assms(1) r(2) assms(3)] by blast
qed

theorem concurrent_write_returns_witness:
  "\<exists>e' evs. mixer_pipeline_write (alist_api str_eq) (\<lambda>_. mixer_iteration (alist_api str_eq)) two_buses ''bus1'' (replicate 10000 7) 10000 =
      Some (e', 0) \<and> put_bytes str_eq ''bus1'' evs = replicate 10000 7"
proof -
  have c: "unat (10000 :: u32) \<le> length (replicate 10000 (7 :: u8))" "even (unat (10000 :: u32))"
    and t: "take (unat (10000 :: u32)) (replicate 10000 (7 :: u8)) = replicate 10000 7" by simp_all
  show ?thesis
    using concurrent_write_returns [OF str_mixer.mixer_map_axioms str_mixer.iteration_serves two_buses_ok c, of "''bus1''"]
    unfolding t by blast
qed

text \<open>
  C6. A worker among other buses. With other streams playing to the same PCM, a worker in the middle of playback
  empties its ring in finitely many steps; whatever the others did, the PCM has received a sequence of mixes
  in which this address contributed exactly the bytes of the ring, in order, but for what its pipeline still holds.
\<close>

theorem worker_plays_among_buses:
  assumes "mixer_map (we_hashmap E) eq" and "mixer_serves (we_hashmap E) eq addr (we_wait E)"
    and "worker_ready_on E (buses_ok (we_hashmap E) eq) last_zone addr i (out, w, P)" and "pcm_object P i = Some e"
  shows "\<exists>out2 w2 P2 e2 evs. (out_worker_step E last_zone)\<^sup>*\<^sup>* (out, w, P) (out2, w2, P2) \<and>
    vb_contents (so_buffer out2) = [] \<and> pcm_object P2 i = Some e2 \<and> pcm_out e2 = pcm_out e @ played evs \<and>
    bus_pending (we_hashmap E) addr e @ vb_contents (so_buffer out) =
      taken_bytes eq addr evs @ bus_pending (we_hashmap E) addr e2"
proof -
  obtain out2 w2 P2 e2 evs where r: "(out_worker_step E last_zone)\<^sup>*\<^sup>* (out, w, P) (out2, w2, P2)"
    "vb_contents (so_buffer out2) = []" "pcm_object P2 i = Some e2" "mixer_run (we_hashmap E) e evs e2"
    "put_bytes eq addr evs = vb_contents (so_buffer out)"
    using mixer_writer.worker_plays [OF buses_writer [OF assms(1,2)] assms(3,4)] by blast
  have "buses_ok (we_hashmap E) eq e" using assms(3,4) by (simp add: worker_ready_on_def)
  from mixer_map.run_buses [OF assms(1) r(4) this] have "pcm_out e2 = pcm_out e @ played evs"
    "bus_pending (we_hashmap E) addr e @ vb_contents (so_buffer out) =
      taken_bytes eq addr evs @ bus_pending (we_hashmap E) addr e2" unfolding r(5) [symmetric] by blast+
  then show ?thesis using r(1-3) by blast
qed

definition pcm_two_buses :: "(string \<times> nat) list pcm_world" where
  "pcm_two_buses = \<lparr>shared_ext_pcm = Some 0, pcm_objects = [Some two_buses], closed_pcms = []\<rparr>"

theorem worker_plays_among_buses_witness:
  "\<exists>out2 w2 P2 e2 evs. (out_worker_step (env_example\<lparr>we_frames_to_bytes := \<lambda>_ f. f * 2\<rparr>) 1)\<^sup>*\<^sup>*
       (so_running, ow_playing, pcm_two_buses) (out2, w2, P2) \<and>
     pcm_object P2 0 = Some e2 \<and> pcm_out e2 = played evs \<and>
     taken_bytes str_eq ''bus0'' evs @ bus_pending (alist_api str_eq) ''bus0'' e2 = [5, 6]"
proof -
  let ?E = "env_example\<lparr>we_frames_to_bytes := \<lambda>_ f. f * 2\<rparr>"
  have H: "we_hashmap ?E = alist_api str_eq" "we_wait ?E = (\<lambda>_. mixer_iteration (alist_api str_eq))"
    by (simp_all add: env_example_def)
  have v: "so_buffer so_running = vb_example" "vb_contents vb_example = [5, 6]"
    by (simp_all add: so_running_def so_example_def)
  have o: "pcm_object pcm_two_buses 0 = Some two_buses" by (simp add: pcm_two_buses_def pcm_object_def)
  have serves: "mixer_serves (we_hashmap ?E) str_eq ''bus0'' (we_wait ?E)" unfolding H by (rule str_mixer.iteration_serves)
  have mm: "mixer_map (we_hashmap ?E) str_eq" unfolding H by (rule str_mixer.mixer_map_axioms)
  have "worker_ready_on ?E (buses_ok (we_hashmap ?E) str_eq) 1 ''bus0'' 0 (so_running, ow_playing, pcm_two_buses)"
  proof (rule example_ready)
    show "pcm_object pcm_two_buses 0 = Some two_buses" by (rule o)
    show "pcm two_buses \<noteq> None" by (simp add: two_buses_def)
    show "buses_ok (we_hashmap ?E) str_eq two_buses" unfolding H by (rule two_buses_ok)
  qed
  from worker_plays_among_buses [OF mm serves this o] obtain out2 w2 P2 e2 evs where
    r: "(out_worker_step ?E 1)\<^sup>*\<^sup>* (so_running, ow_playing, pcm_two_buses) (out2, w2, P2)" "pcm_object P2 0 = Some e2"
    "pcm_out e2 = pcm_out two_buses @ played evs"
    "bus_pending (we_hashmap ?E) ''bus0'' two_buses @ vb_contents (so_buffer so_running) =
       taken_bytes str_eq ''bus0'' evs @ bus_pending (we_hashmap ?E) ''bus0'' e2" by blast
  have "pcm_out two_buses = []" by (simp add: two_buses_def)
  moreover have "taken_bytes str_eq ''bus0'' evs @ bus_pending (alist_api str_eq) ''bus0'' e2 = [5, 6]"
    using r(4) [symmetric] unfolding H two_buses_pending v by simp
  ultimately show ?thesis using r(1-3) by (intro exI conjI) auto
qed



end
