(* ===== verification/Audio_Threads.thy ===== *)
theory Audio_Threads
  imports Audio_Buses
begin

text \<open>
  One output stream with its worker thread beside the other holders of the shared PCM. The write of
  \<open>ext_pcm.c\<close> is split here into its sections, since other threads run during its waits. Every section of a
  worker is defined when the stream, the worker's locals and the PCM are as they should be, leaves them so,
  and moves the bytes of the stream from the ring over the period buffer to the mixer.
\<close>

section \<open>The sections of a write\<close>

text \<open>One round of the loop of \<open>mixer_pipeline_write\<close>, up to the wait or to the end.\<close>

definition write_section ::
    "'m ext_pcm \<Rightarrow> nat \<Rightarrow> bytes \<Rightarrow> u32 \<Rightarrow> u32 \<Rightarrow> ('m ext_pcm \<times> u32 \<times> bool) option" where
  "write_section e p dat count byteWritten =
     (if length (pipelines e) \<le> p then None
      else map_option (\<lambda>(pl, byteWritten', write_incomplete). (e\<lparr>pipelines := (pipelines e)[p := pl]\<rparr>, byteWritten', write_incomplete))
        (pipeline_write_chunk (pipelines e ! p) dat count byteWritten))"

text \<open>The write of \<open>ext_pcm.c\<close> is made of these sections, with a wait between two of them.\<close>

lemma write_loop_sections:
  "pipeline_write_loop env j e p dat count w =
     Option.bind (write_section e p dat count w) (\<lambda>(e', w', write_incomplete).
       if write_incomplete then Option.bind (env j e') (\<lambda>e''. pipeline_write_loop env (Suc j) e'' p dat count w') else Some e')"
  by (subst pipeline_write_loop.simps) (auto simp: write_section_def Let_def split: option.split)

text \<open>
  A stream with its worker; \<open>st_write\<close> are the locals of a write that waits: the pipeline, the
  number of bytes and how many are written.
\<close>

record stream_thread =
  st_out :: generic_stream_out
  st_worker :: out_worker
  st_write :: "(nat \<times> u32 \<times> u32) option"

definition thread_init :: "generic_stream_out \<Rightarrow> stream_thread" where
  "thread_init out = \<lparr>st_out = out, st_worker = out_worker_init, st_write = None\<rparr>"

text \<open>
  The unlocked part of the worker in sections: the zone is tested and the pipeline looked up in the first one.
\<close>

definition play_section :: "'m worker_env \<Rightarrow> int \<Rightarrow> stream_thread \<times> 'm pcm_world \<Rightarrow> (stream_thread \<times> 'm pcm_world) option" where
  "play_section L last_zone s =
     (case s of (x, P) \<Rightarrow>
        (case (ow_section (st_worker x), so_bus_address (st_out x), ow_buffer (st_worker x), ow_ext_pcm (st_worker x)) of
           (Playing frames, Some bus_address, Some buffer, Some i) \<Rightarrow>
             (case pcm_object P i of
                None \<Rightarrow> None
              | Some e \<Rightarrow>
                 if st_write x = None \<and> \<not> is_zone_selected_to_play last_zone (worker_zone_id bus_address)
                 then Some (x\<lparr>st_worker := (st_worker x)\<lparr>ow_section := AtTop\<rparr>\<rparr>, P)
                 else if st_write x = None \<and> pcm e = None
                 then Some (x\<lparr>st_worker := (st_worker x)\<lparr>ow_section := AtTop, ow_restart := True\<rparr>\<rparr>, P)
                 else
                   let (e, p, count, byteWritten) =
                         (case st_write x of
                            None \<Rightarrow> (case pipeline_of (we_hashmap L) e bus_address of (e', p) \<Rightarrow>
                              (e', p, ext_pcm_frames_to_bytes (we_frames_to_bytes L) (Some e) (word_of_int frames), 0))
                          | Some (p, count, byteWritten) \<Rightarrow> (e, p, count, byteWritten))
                   in (case write_section e p buffer count byteWritten of
                         None \<Rightarrow> None
                       | Some (e, byteWritten, write_incomplete) \<Rightarrow>
                          Some (if write_incomplete then x\<lparr>st_write := Some (p, count, byteWritten)\<rparr>
                                else x\<lparr>st_write := None, st_worker := (st_worker x)\<lparr>ow_section := AtTop\<rparr>\<rparr>,
                                set_pcm_object i (Some e) P)))
         | _ \<Rightarrow> None))"

text \<open>A write that need not wait is the unlocked part of the worker as one operation.\<close>

lemma play_at_once:
  assumes "play_section L zone (\<lparr>st_out = out, st_worker = w, st_write = None\<rparr>, P) = Some (x, P')" and "st_write x = None"
  shows "worker_play L zone (out, w, P) = Some (st_out x, st_worker x, P')"
proof -
  obtain f a b i e where v: "ow_section w = Playing f" "so_bus_address out = Some a" "ow_buffer w = Some b" "ow_ext_pcm w = Some i"
    "pcm_object P i = Some e"
    using assms(1) by (auto simp: play_section_def split: out_section.splits option.splits)
  obtain e1 q where q: "pipeline_of (we_hashmap L) e a = (e1, q)" by (cases "pipeline_of (we_hashmap L) e a")
  have "set_pcm_object i (Some e) P = P"
    using v(5) by (auto simp: set_pcm_object_def pcm_object_def list_update_same_conv split: if_splits)
  then show ?thesis using assms q
    by (auto simp: play_section_def worker_play_def v held_pcm_def ext_pcm_write_def mixer_pipeline_write_def write_loop_sections
        split: if_splits option.splits)
qed

section \<open>What the workers rely on\<close>

definition held :: "out_worker \<Rightarrow> nat list" where
  "held w = (case ow_ext_pcm w of None \<Rightarrow> [] | Some i \<Rightarrow> [i])"

definition period_of :: "generic_stream_out \<Rightarrow> nat" where
  "period_of out = unat (pc_period_size (so_pcm_config out))"

definition addr_of :: "generic_stream_out \<Rightarrow> string" where
  "addr_of out = (case so_bus_address out of None \<Rightarrow> [] | Some a \<Rightarrow> a)"

lemma same_buffer [simp]: "period_of (out\<lparr>so_buffer := v\<rparr>) = period_of out" "addr_of (out\<lparr>so_buffer := v\<rparr>) = addr_of out"
  by (simp_all add: period_of_def addr_of_def)

text \<open>A stream as \<open>adev_open_output_stream\<close> makes it: stereo frames of 16 bit samples, an address, a period that fits.\<close>

definition stream_ok :: "generic_stream_out \<Rightarrow> bool" where
  "stream_ok out \<longleftrightarrow> vb_ok (so_buffer out) \<and> vb_fs (so_buffer out) = 4 \<and> so_bus_address out \<noteq> None \<and> period_of out < 2 ^ 30"

text \<open>
  The libraries work: \<open>pcm_open\<close> gives a PCM, whose frames have four bytes, and the mixer thread ends when
  it is joined.
\<close>

definition libraries_ok :: "('m, nat) hashmap_api \<Rightarrow> (string \<Rightarrow> string \<Rightarrow> bool) \<Rightarrow> 'm worker_env \<Rightarrow> bool" where
  "libraries_ok H eq L \<longleftrightarrow> we_hashmap L = H \<and> we_pcm_open L \<noteq> None \<and>
     (\<forall>e. buses_ok H eq e \<longrightarrow> we_join L e \<noteq> None) \<and>
     (\<forall>h f. unat f * 4 < 2 ^ 32 \<longrightarrow> unat (we_frames_to_bytes L h f) = unat f * 4)"

definition objects_ok :: "('m, nat) hashmap_api \<Rightarrow> (string \<Rightarrow> string \<Rightarrow> bool) \<Rightarrow> 'm pcm_world \<Rightarrow> bool" where
  "objects_ok H eq P \<longleftrightarrow> (\<forall>i e. pcm_object P i = Some e \<longrightarrow> buses_ok H eq e)"

text \<open>
  The locals of a worker: the period buffer exists as long as the PCM is held, and has the length of a period;
  what is being played lies inside it.
\<close>

definition worker_ok :: "generic_stream_out \<Rightarrow> out_worker \<Rightarrow> bool" where
  "worker_ok out w \<longleftrightarrow>
     (\<forall>b. ow_buffer w = Some b \<longrightarrow> length b = 4 * period_of out \<and> ow_buffer_frames w = int (period_of out)) \<and>
     (ow_ext_pcm w = None \<longrightarrow> ow_buffer w = None) \<and>
     (ow_section w \<noteq> Exited \<and> ow_ext_pcm w \<noteq> None \<longrightarrow> ow_buffer w \<noteq> None) \<and>
     (\<forall>f. ow_section w = Playing f \<longrightarrow> ow_ext_pcm w \<noteq> None \<and> 0 \<le> f \<and> f \<le> int (period_of out))"

text \<open>A stream, its worker and the PCM, when the other holders are \<open>hs\<close>.\<close>

definition part_ok ::
    "('m, nat) hashmap_api \<Rightarrow> (string \<Rightarrow> string \<Rightarrow> bool) \<Rightarrow> nat list \<Rightarrow> generic_stream_out \<times> out_worker \<times> 'm pcm_world \<Rightarrow> bool" where
  "part_ok H eq hs s \<longleftrightarrow> (case s of (out, w, P) \<Rightarrow>
     stream_ok out \<and> worker_ok out w \<and> objects_ok H eq P \<and> pcm_inv (P, held w @ hs))"

text \<open>A waiting write is inside its period, and its pipeline is still that of its address.\<close>

definition write_ok :: "('m, nat) hashmap_api \<Rightarrow> 'm pcm_world \<Rightarrow> stream_thread \<Rightarrow> bool" where
  "write_ok H P x \<longleftrightarrow> (case st_write x of None \<Rightarrow> True | Some (p, count, byteWritten) \<Rightarrow>
     (case (ow_section (st_worker x), ow_ext_pcm (st_worker x)) of
        (Playing f, Some i) \<Rightarrow> (\<exists>e. pcm_object P i = Some e \<and> hashmapGet H (mixer_pipeline_map e) (addr_of (st_out x)) = Some p) \<and>
          unat count = 4 * nat f \<and> byteWritten \<le> count \<and> even (unat byteWritten)
      | _ \<Rightarrow> False))"

text \<open>The bytes on their way: the rest of the period that is being played, and the ring.\<close>

definition in_flight :: "out_worker \<Rightarrow> (nat \<times> u32 \<times> u32) option \<Rightarrow> bytes" where
  "in_flight w x = (case ow_section w of
     Playing f \<Rightarrow> drop (case x of None \<Rightarrow> 0 | Some (p, count, byteWritten) \<Rightarrow> unat byteWritten)
       (take (4 * nat f) (case ow_buffer w of None \<Rightarrow> [] | Some b \<Rightarrow> b))
   | _ \<Rightarrow> [])"

lemma in_flight_idle [simp]:
  "in_flight (w\<lparr>ow_section := AtTop\<rparr>) x = []" "in_flight (w\<lparr>ow_section := InStandbyWait\<rparr>) x = []"
  "in_flight (w\<lparr>ow_section := InDataWait\<rparr>) x = []" "in_flight (w\<lparr>ow_section := Exited\<rparr>) x = []"
  by (simp_all add: in_flight_def)

lemma in_flight_not_playing: "(\<And>f. ow_section w \<noteq> Playing f) \<Longrightarrow> in_flight w x = []"
  by (simp add: in_flight_def split: out_section.split)

section \<open>What a section does to the PCM\<close>

text \<open>
  Objects that are still there have taken part in the events \<open>evs\<close>, and their pipelines stay where they are;
  a freed object does not come back.
\<close>

definition effect ::
    "('m, nat) hashmap_api \<Rightarrow> (string \<Rightarrow> string \<Rightarrow> bool) \<Rightarrow> 'm pcm_world \<Rightarrow> mixer_event list \<Rightarrow> 'm pcm_world \<Rightarrow> bool" where
  "effect H eq P evs P' \<longleftrightarrow> length (pcm_objects P) \<le> length (pcm_objects P') \<and>
     (\<forall>j e'. j < length (pcm_objects P) \<longrightarrow> pcm_object P' j = Some e' \<longrightarrow>
        (\<exists>e. pcm_object P j = Some e \<and> accounts H eq e evs e' \<and>
           (\<forall>a p. hashmapGet H (mixer_pipeline_map e) a = Some p \<longrightarrow> hashmapGet H (mixer_pipeline_map e') a = Some p)))"

lemma recounted_accounts:
  assumes "recounted e e'" and "buses_ok H eq e"
  shows "accounts H eq e [] e'" and "buses_ok H eq e'" and "mixer_pipeline_map e' = mixer_pipeline_map e"
  using assms by (auto simp: recounted_def buses_ok_def accounts_def bus_pending_def split: option.split)

lemma effect_trans:
  assumes "effect H eq P evs P'" and "effect H eq P' evs' P''"
  shows "effect H eq P (evs @ evs') P''"
  unfolding effect_def
proof (intro conjI allI impI)
  show "length (pcm_objects P) \<le> length (pcm_objects P'')" using assms by (simp add: effect_def)
  fix j e'' assume j: "j < length (pcm_objects P)" "pcm_object P'' j = Some e''"
  then obtain e' where e': "pcm_object P' j = Some e'" "accounts H eq e' evs' e''"
    "\<forall>a p. hashmapGet H (mixer_pipeline_map e') a = Some p \<longrightarrow> hashmapGet H (mixer_pipeline_map e'') a = Some p"
    using assms unfolding effect_def by (meson order.strict_trans2)
  then obtain e where "pcm_object P j = Some e" "accounts H eq e evs e'"
    "\<forall>a p. hashmapGet H (mixer_pipeline_map e) a = Some p \<longrightarrow> hashmapGet H (mixer_pipeline_map e') a = Some p"
    using assms(1) j(1) unfolding effect_def by blast
  then show "\<exists>e. pcm_object P j = Some e \<and> accounts H eq e (evs @ evs') e'' \<and>
      (\<forall>a p. hashmapGet H (mixer_pipeline_map e) a = Some p \<longrightarrow> hashmapGet H (mixer_pipeline_map e'') a = Some p)"
    using e' accounts_append by blast
qed

lemma effect_recounted:
  assumes "objects_ok H eq P" and "length (pcm_objects P) \<le> length (pcm_objects P')"
    and "\<And>j e'. j < length (pcm_objects P) \<Longrightarrow> pcm_object P' j = Some e' \<Longrightarrow> \<exists>e. pcm_object P j = Some e \<and> recounted e e'"
  shows "effect H eq P [] P'"
  unfolding effect_def
proof (intro conjI allI impI)
  show "length (pcm_objects P) \<le> length (pcm_objects P')" by (rule assms(2))
  fix j e' assume j: "j < length (pcm_objects P)" "pcm_object P' j = Some e'"
  then obtain e where e: "pcm_object P j = Some e" "recounted e e'" using assms(3) by blast
  then have "buses_ok H eq e" using assms(1) by (simp add: objects_ok_def)
  with e show "\<exists>e. pcm_object P j = Some e \<and> accounts H eq e [] e' \<and>
      (\<forall>a p. hashmapGet H (mixer_pipeline_map e) a = Some p \<longrightarrow> hashmapGet H (mixer_pipeline_map e') a = Some p)"
    using recounted_accounts [OF e(2)] by (intro exI [of _ e]) simp
qed

lemma effect_refl: "objects_ok H eq P \<Longrightarrow> effect H eq P [] P"
  by (rule effect_recounted) auto
lemma objects_length:
  "ext_pcm_open H popen P = Some (P', i) \<Longrightarrow> length (pcm_objects P) \<le> length (pcm_objects P')"
  "ext_pcm_close join ext P = Some (P', r) \<Longrightarrow> length (pcm_objects P) \<le> length (pcm_objects P')"
  by (auto simp: ext_pcm_open_def ext_pcm_close_def set_pcm_object_def Let_def split: option.splits if_splits)

lemma open_effect:
  assumes "ext_pcm_open H popen P = Some (P', i)" and "objects_ok H eq P" and "hashmap H eq"
  shows "effect H eq P [] P'" and "objects_ok H eq P'"
proof -
  show "effect H eq P [] P'"
  proof (rule effect_recounted [OF assms(2) objects_length(1) [OF assms(1)]])
    fix j e' assume j: "j < length (pcm_objects P)" "pcm_object P' j = Some e'"
    have old: "pcm_object (P\<lparr>shared_ext_pcm := x, pcm_objects := pcm_objects P @ [y]\<rparr>) j = pcm_object P j" for x y
      using j(1) by (simp add: pcm_object_def nth_append)
    show "\<exists>e. pcm_object P j = Some e \<and> recounted e e'"
      using assms(1) j by (auto simp: ext_pcm_open_def Let_def old split: option.splits if_splits)
  qed
  have "buses_ok H eq (ext_pcm_new H x)" for x
    using hashmap.get_create [OF assms(3)] by (simp add: buses_ok_def ext_pcm_new_def)
  then show "objects_ok H eq P'"
    using open_objects [OF assms(1)] assms(2) recounted_accounts(2) unfolding objects_ok_def by blast
qed

lemma close_effect:
  assumes "ext_pcm_close join ext P = Some (P', r)" and "objects_ok H eq P"
  shows "effect H eq P [] P'" and "objects_ok H eq P'"
proof -
  show "effect H eq P [] P'"
    using close_objects [OF assms(1)] by (intro effect_recounted [OF assms(2) objects_length(2) [OF assms(1)]])
  show "objects_ok H eq P'"
    using close_objects [OF assms(1)] assms(2) recounted_accounts(2) unfolding objects_ok_def by blast
qed

lemma held_live:
  assumes "pcm_inv (P, hs)" and "i \<in> set hs"
  shows "\<exists>e. pcm_object P i = Some e \<and> pcm e \<noteq> None \<and> unat (ref_count e) = length hs"
  using assms by (auto simp: pcm_inv_def split: option.splits)

lemma only_object:
  assumes "pcm_inv (P, hs)" and "pcm_object P i \<noteq> None" and "pcm_object P j \<noteq> None"
  shows "i = j"
  using assms by (cases "shared_ext_pcm P") (simp_all add: pcm_inv_def, metis option.distinct(1))

text \<open>A run of mixer events on the object.\<close>

lemma run_effect:
  assumes M: "mixer_map H eq" and r: "mixer_run H e evs e'" and P: "pcm_object P i = Some e" "objects_ok H eq P" "pcm_inv (P, hs)"
  shows "effect H eq P evs (set_pcm_object i (Some e') P)" and "objects_ok H eq (set_pcm_object i (Some e') P)"
    and "pcm_inv (set_pcm_object i (Some e') P, hs)"
proof -
  have eok: "buses_ok H eq e" using P by (simp add: objects_ok_def)
  note m = mixer_map.run_buses [OF M r eok]
  have acc: "accounts H eq e evs e'" using mixer_map.run_accounts [OF M r eok] by blast
  show "effect H eq P evs (set_pcm_object i (Some e') P)" unfolding effect_def
  proof (intro conjI allI impI)
    show "length (pcm_objects P) \<le> length (pcm_objects (set_pcm_object i (Some e') P))" by (simp add: set_pcm_object_def)
    fix j x assume "pcm_object (set_pcm_object i (Some e') P) j = Some x"
    then have "j = i" "x = e'" using only_object [OF P(3), of i j] P(1) pcm_object_len [OF P(1)] by (auto split: if_splits)
    then show "\<exists>e. pcm_object P j = Some e \<and> accounts H eq e evs x \<and>
        (\<forall>a p. hashmapGet H (mixer_pipeline_map e) a = Some p \<longrightarrow> hashmapGet H (mixer_pipeline_map x) a = Some p)"
      using P(1) acc m by blast
  qed
  show "objects_ok H eq (set_pcm_object i (Some e') P)" using P(2) m by (auto simp: objects_ok_def)
  show "pcm_inv (set_pcm_object i (Some e') P, hs)"
    using pcm_inv_update [OF P(3,1)] m by (simp add: same_pcm_def)
qed

section \<open>The locked sections end well\<close>

text \<open>
  A section that ends well: it is defined, leaves the parts as they should be, tells the mixer nothing,
  and keeps the bytes of the stream.
\<close>

definition ends_well ::
    "('m, nat) hashmap_api \<Rightarrow> (string \<Rightarrow> string \<Rightarrow> bool) \<Rightarrow> nat list \<Rightarrow> generic_stream_out \<times> out_worker \<times> 'm pcm_world \<Rightarrow>
     (generic_stream_out \<times> out_worker \<times> 'm pcm_world) option \<Rightarrow> bool" where
  "ends_well H eq hs s r \<longleftrightarrow> (case (s, r) of
     ((out, w, P), Some (out', w', P')) \<Rightarrow> part_ok H eq hs (out', w', P') \<and> addr_of out' = addr_of out \<and> effect H eq P [] P' \<and>
       in_flight w' None @ vb_contents (so_buffer out') = vb_contents (so_buffer out)
   | _ \<Rightarrow> False)"

lemma ends_later: "effect H eq P [] P' \<Longrightarrow> ends_well H eq hs (out, w', P') r \<Longrightarrow> ends_well H eq hs (out, w, P) r"
  using effect_trans [of H eq P "[]" P' "[]"] by (auto simp: ends_well_def split: option.splits)

lemma open_part:
  assumes p: "part_ok H eq hs (out, w, P)" and L: "libraries_ok H eq L" and H: "hashmap H eq"
    and n: "length hs < 2 ^ 31 - 1" and live: "ow_section w \<noteq> Exited"
  shows "case worker_open L out w P of
      None \<Rightarrow> False
    | Some (Inl (w', P')) \<Rightarrow> part_ok H eq hs (out, w', P') \<and> effect H eq P [] P' \<and> ow_section w' = Exited
    | Some (Inr (w', P')) \<Rightarrow> part_ok H eq hs (out, w', P') \<and> effect H eq P [] P' \<and> ow_buffer w' \<noteq> None \<and> ow_ext_pcm w' \<noteq> None"
proof (cases "ow_ext_pcm w")
  case (Some i)
  then show ?thesis using p live effect_refl by (auto simp: worker_open_def part_ok_def worker_ok_def)
next
  case None
  from p have ok: "stream_ok out" "worker_ok out w" "objects_ok H eq P" "pcm_inv (P, hs)"
    using None by (simp_all add: part_ok_def held_def)
  obtain h where h: "we_pcm_open L = Some h" and hm: "we_hashmap L = H" using L by (auto simp: libraries_ok_def)
  obtain P' i where o: "ext_pcm_open H (we_pcm_open L) P = Some (P', i)" "pcm_inv (P', i # hs)"
    using open_keeps_inv [OF ok(4) n, of H h] h by auto
  obtain e where e: "pcm_object P' i = Some e" "pcm e \<noteq> None" using held_live [OF o(2), of i] by auto
  then obtain h' where h': "pcm e = Some h'" by blast
  note objs = open_effect [OF o(1) ok(3) H]
  let ?n = "pc_period_size (so_pcm_config out)"
  have per: "unat ?n < 2 ^ 30" using ok(1) by (simp add: stream_ok_def period_of_def)
  then have frames: "to_int32 (uint ?n) = int (period_of out)"
    using to_int32_nat [of "unat ?n"] by (simp add: period_of_def)
  have size: "unat (ext_pcm_frames_to_bytes (we_frames_to_bytes L) (Some e) ?n) = 4 * period_of out"
    using L per by (simp add: libraries_ok_def ext_pcm_frames_to_bytes_def h' period_of_def)
  have buf: "ow_buffer w = None" using ok(2) None by (simp add: worker_ok_def)
  have np: "ow_section w \<noteq> Playing f" for f using ok(2) None by (auto simp: worker_ok_def)
  show ?thesis using ok(1) o objs
    by (simp add: worker_open_def None hm held_pcm_def e(1) Let_def part_ok_def held_def worker_ok_def buf frames size np)
qed

lemma data_part:
  assumes p: "part_ok H eq hs (out, w, P)" and L: "libraries_ok H eq L" and H: "hashmap H eq"
    and n: "length hs < 2 ^ 31 - 1" and live: "ow_section w \<noteq> Exited"
  shows "ends_well H eq hs (out, w, P) (worker_data L (out, w, P))"
proof -
  from p have ok: "stream_ok out" "worker_ok out w" "objects_ok H eq P" "pcm_inv (P, held w @ hs)"
    by (simp_all add: part_ok_def)
  note same = effect_refl [OF ok(3)]
  consider (wait) "\<not> ow_shutdown w" "audio_vbuffer_live (Some (so_buffer out)) = 0" | (leave) "ow_shutdown w"
    | (read) "\<not> ow_shutdown w" "audio_vbuffer_live (Some (so_buffer out)) \<noteq> 0" by blast
  then show ?thesis
  proof cases
    case wait
    then show ?thesis using ok live same by (simp add: worker_data_def ends_well_def part_ok_def worker_ok_def held_def)
  next
    case leave
    then show ?thesis using ok same by (simp add: worker_data_def ends_well_def part_ok_def worker_ok_def held_def in_flight_def)
  next
    case read
    note o = open_part [OF p L H n live]
    show ?thesis
    proof (cases "worker_open L out w P")
      case None
      then show ?thesis using o by simp
    next
      case (Some r)
      show ?thesis
      proof (cases r)
        case (Inl s)
        then show ?thesis using o Some read by (cases s) (simp add: worker_data_def ends_well_def in_flight_def)
      next
        case (Inr s)
        obtain w1 P1 where s: "s = (w1, P1)" by (cases s)
        have w1: "part_ok H eq hs (out, w1, P1)" "effect H eq P [] P1" "ow_buffer w1 \<noteq> None" "ow_ext_pcm w1 \<noteq> None"
          using o Some Inr s by simp_all
        obtain b where b: "ow_buffer w1 = Some b" using w1(3) by blast
        have bl: "length b = 4 * period_of out" "ow_buffer_frames w1 = int (period_of out)" "worker_ok out w1"
          using w1(1) b by (simp_all add: part_ok_def worker_ok_def)
        have vb: "vb_ok (so_buffer out)" "vb_fs (so_buffer out) = 4" and per: "period_of out < 2 ^ 30"
          using ok(1) by (simp_all add: stream_ok_def)
        let ?n = "int_to_size (int (period_of out))" and ?m = "min (period_of out) (vb_level (so_buffer out))"
        have nn: "unat ?n = period_of out" using per by (simp add: int_to_size_nat unat_of_nat_size)
        have rd: "unat ?n * vb_fs (so_buffer out) \<le> length b" "length b < 2 ^ 64" using per by (simp_all add: nn vb(2) bl(1))
        obtain v b' where v: "audio_vbuffer_read (so_buffer out) b ?n = Some (v, b', of_nat ?m)" "vb_ok v" "vb_fs v = 4" "length b' = length b"
          using vb.read_law [OF vb(1) rd] vb.contents_length [OF vb(1)] bl(1) unfolding nn vb(2) by (auto simp: min_def)
        have m: "unat (of_nat ?m :: size_t) = ?m" by (rule vb.unat_moved(1) [OF vb(1)])
        moreover have "?m < 2 ^ 31" using per by (simp add: min_less_iff_disj)
        ultimately have frames: "size_to_int (of_nat ?m) = int ?m" by (subst size_to_int_small) simp_all
        let ?w = "w1\<lparr>ow_buffer := Some b', ow_section := Playing (int ?m)\<rparr>"
        have "take (?m * 4) b' @ vb_contents v = vb_contents (so_buffer out)"
          using vb.read_prefix(1) [OF vb(1) rd v(1)] unfolding m vb(2) .
        then have "in_flight ?w None @ vb_contents v = vb_contents (so_buffer out)" by (simp add: in_flight_def mult.commute)
        moreover have "worker_data L (out, w, P) = Some (out\<lparr>so_buffer := v\<rparr>, ?w, P1)"
          using read Some Inr s b v(1) frames by (simp add: worker_data_def bl(2))
        moreover have "part_ok H eq hs (out\<lparr>so_buffer := v\<rparr>, ?w, P1)"
          using w1(1,4) ok(1) v(2-4) bl(1,2) by (simp add: part_ok_def worker_ok_def held_def stream_ok_def)
        ultimately show ?thesis using w1(2) by (simp add: ends_well_def)
      qed
    qed
  qed
qed

lemma top_part:
  assumes p: "part_ok H eq hs (out, w, P)" and L: "libraries_ok H eq L" and H: "hashmap H eq"
    and n: "length hs < 2 ^ 31 - 1" and live: "ow_section w = AtTop \<or> ow_section w = InStandbyWait"
  shows "ends_well H eq hs (out, w, P) (worker_from_top L (out, w, P))"
proof -
  have down: "part_ok H eq hs (out, w1\<lparr>ow_shutdown := True\<rparr>, P1)" if "part_ok H eq hs (out, w1, P1)" for w1 P1
    using that by (simp add: part_ok_def worker_ok_def held_def)
  have after: "ends_well H eq hs (out, w, P) (worker_data L (out, if so_worker_exit out then w1\<lparr>ow_shutdown := True\<rparr> else w1, P1))"
    if "part_ok H eq hs (out, w1, P1)" "ow_section w1 \<noteq> Exited" "effect H eq P [] P1" for w1 P1
    using ends_later [OF that(3)] data_part [OF that(1) L H n that(2)] data_part [OF down [OF that(1)] L H n] that(2)
    by (cases "so_worker_exit out") auto
  have objs: "objects_ok H eq P" using p by (simp add: part_ok_def)
  show ?thesis
  proof (cases "so_worker_standby out \<or> ow_restart w")
    case False
    then show ?thesis using after [OF p _ effect_refl [OF objs]] live by (auto simp: worker_from_top_def)
  next
    case True
    let ?w = "if ow_ext_pcm w = None then w\<lparr>ow_restart := False\<rparr> else w\<lparr>ow_restart := False, ow_ext_pcm := None, ow_buffer := None\<rparr>"
    obtain P' r where c: "(if ow_ext_pcm w = None then Some (P, 0) else ext_pcm_close (we_join L) (ow_ext_pcm w) P) = Some (P', r)"
      "part_ok H eq hs (out, ?w, P')" "effect H eq P [] P'"
    proof (cases "ow_ext_pcm w")
      case None
      then show ?thesis using p that [of P 0] effect_refl [OF objs] by (simp add: part_ok_def worker_ok_def held_def)
    next
      case (Some i)
      then have ok: "stream_ok out" "worker_ok out w" "pcm_inv (P, i # hs)"
        using p by (simp_all add: part_ok_def held_def)
      have "we_join L (e\<lparr>ref_count := ref_count e - 1, run_mixer := False\<rparr>) \<noteq> None" if "pcm_object P i = Some e" for e
        using L objs that by (auto simp: libraries_ok_def objects_ok_def buses_ok_def)
      then obtain P' where c: "ext_pcm_close (we_join L) (Some i) P = Some (P', 0)" "pcm_inv (P', hs)"
        using close_keeps_inv_of [OF ok(3), of i "we_join L"] by auto
      then show ?thesis using ok close_effect [OF c(1) objs] live that [of P' 0] Some by (auto simp: part_ok_def worker_ok_def held_def)
    qed
    show ?thesis
    proof (cases "so_worker_exit out")
      case True
      then show ?thesis using after [OF c(2) _ c(3)] live c(1) \<open>so_worker_standby out \<or> ow_restart w\<close>
        by (auto simp: worker_from_top_def Let_def split: if_splits)
    next
      case False
      have "worker_from_top L (out, w, P) = Some (out, ?w\<lparr>ow_section := InStandbyWait\<rparr>, P')"
        using True False c(1) by (simp add: worker_from_top_def Let_def)
      moreover have "part_ok H eq hs (out, ?w\<lparr>ow_section := InStandbyWait\<rparr>, P')"
        using c(2) live by (auto simp: part_ok_def worker_ok_def held_def)
      ultimately show ?thesis using c(3) by (simp add: ends_well_def)
    qed
  qed
qed

lemma locked_part:
  assumes p: "part_ok H eq hs (out, w, P)" and L: "libraries_ok H eq L" and H: "hashmap H eq"
    and n: "length hs < 2 ^ 31 - 1" and sec: "\<And>f. ow_section w \<noteq> Playing f"
  shows "ow_section w \<noteq> Exited \<Longrightarrow> \<exists>s'. out_worker_step L zone (out, w, P) s'"
    and "out_worker_step L zone (out, w, P) s' \<Longrightarrow> ends_well H eq hs (out, w, P) (Some s')"
proof -
  have top: "ends_well H eq hs (out, w, P) (worker_from_top L (out, w, P))"
    if "ow_section w = AtTop \<or> ow_section w = InStandbyWait" by (rule top_part [OF p L H n that])
  have dat: "ends_well H eq hs (out, w, P) (worker_data L (out, w, P))" if "ow_section w = InDataWait"
    by (rule data_part [OF p L H n]) (simp add: that)
  have defined: "\<exists>s'. r = Some s'" if "ends_well H eq hs (out, w, P) r" for r
    using that by (auto simp: ends_well_def split: option.splits)
  show "\<exists>s'. out_worker_step L zone (out, w, P) s'" if "ow_section w \<noteq> Exited"
    using that top dat sec by (cases "ow_section w") (auto simp: out_worker_step_iff dest!: defined)
  show "ends_well H eq hs (out, w, P) (Some s')" if "out_worker_step L zone (out, w, P) s'"
    using that top dat sec by (auto simp: out_worker_step_iff)
qed

section \<open>The sections of the write\<close>

text \<open>One round of the write is one event of the mixer, and takes the bytes from those in flight.\<close>

lemma write_section_put:
  assumes M: "mixer_map H eq" and e: "buses_ok H eq e" "pipeline_of H e a = (e1, p)"
    and c: "w \<le> count" "unat count \<le> length b" "even (unat count)" "even (unat w)"
  shows "\<exists>e2 w' bs. write_section e1 p b count w = Some (e2, w', w' < count) \<and> mixer_run H e [Put a bs] e2 \<and>
    bs @ drop (unat w') (take (unat count) b) = drop (unat w) (take (unat count) b) \<and> w' \<le> count \<and> even (unat w') \<and>
    hashmapGet H (mixer_pipeline_map e2) a = Some p"
proof -
  let ?q = "pipelines e1 ! p" and ?B = "chunk_size (pipelines e1 ! p) count w"
  note e1 = mixer_map.pipeline_of_buses [OF M e]
  then have p: "p < length (pipelines e1)" "pl_ok ?q" by (auto simp: buses_ok_def)
  obtain q where chunk: "pipeline_write_chunk ?q b count w = Some (q, w + of_nat ?B, unat w + ?B < unat count)"
    using write_chunk_spec [OF p(2) c] by blast
  note B = chunk_le [of ?q count w] and wB = chunk_advance [OF c(1), of ?q]
  let ?e = "e1\<lparr>pipelines := (pipelines e1)[p := q]\<rparr>" and ?bs = "take ?B (drop (unat w) b)"
  have inc: "(unat w + ?B < unat count) = (w + of_nat ?B < count)" using wB(1) by (simp add: word_less_nat_alt)
  have "mixer_step H e (Put a ?bs) ?e" using step_put [OF e(2) c chunk] by (simp add: wB(1))
  then have run: "mixer_run H e [Put a ?bs] ?e" by (auto intro: mixer_run.intros)
  have ev: "even (unat (w + of_nat ?B))"
  proof (cases "unat w + ?B < unat count")
    case True
    then show ?thesis unfolding wB(1) using c(4) chunk_full [OF True] by simp
  next
    case False
    then have "unat w + ?B = unat count" using B c(1) by (simp add: word_le_nat_alt)
    then show ?thesis unfolding wB(1) using c(3) by simp
  qed
  have take: "?bs = take ?B (drop (unat w) (take (unat count) b))" using B c(1) by (simp add: take_drop min_def word_le_nat_alt)
  have "drop (unat w + ?B) (take (unat count) b) = drop ?B (drop (unat w) (take (unat count) b))" by (simp add: add.commute)
  then have bytes: "?bs @ drop (unat (w + of_nat ?B)) (take (unat count) b) = drop (unat w) (take (unat count) b)"
    unfolding wB(1) take by (simp only: append_take_drop_id)
  have "write_section e1 p b count w = Some (?e, w + of_nat ?B, w + of_nat ?B < count)"
    using p(1) chunk inc by (simp add: write_section_def)
  then show ?thesis using run ev bytes wB(2) e1 by (intro exI [of _ ?e] exI [of _ "w + of_nat ?B"] exI [of _ ?bs]) simp
qed

text \<open>What a section of a playing thread finds: its PCM, its period, and how far the write is.\<close>

lemma playing_parts:
  assumes p: "part_ok H eq hs (st_out x, st_worker x, P)" and x: "write_ok H P x" and L: "libraries_ok H eq L"
    and sec: "ow_section (st_worker x) = Playing f"
  obtains i b e h e1 q count wr where "ow_ext_pcm (st_worker x) = Some i" "ow_buffer (st_worker x) = Some b"
    "so_bus_address (st_out x) = Some (addr_of (st_out x))" "pcm_object P i = Some e" "pcm e = Some h"
    "pipeline_of H e (addr_of (st_out x)) = (e1, q)"
    "(case st_write x of
        None \<Rightarrow> (e1, q, ext_pcm_frames_to_bytes (we_frames_to_bytes L) (Some e) (word_of_int f), 0)
      | Some (p, count, byteWritten) \<Rightarrow> (e, p, count, byteWritten)) = (e1, q, count, wr)"
    "unat count = 4 * nat f" "unat count \<le> length b" "wr \<le> count" "even (unat wr)"
    "in_flight (st_worker x) (st_write x) = drop (unat wr) (take (unat count) b)"
proof -
  let ?w = "st_worker x" and ?a = "addr_of (st_out x)"
  from p have ok: "stream_ok (st_out x)" "worker_ok (st_out x) ?w" "objects_ok H eq P" "pcm_inv (P, held ?w @ hs)"
    by (simp_all add: part_ok_def)
  obtain i b where i: "ow_ext_pcm ?w = Some i" and b: "ow_buffer ?w = Some b" "length b = 4 * period_of (st_out x)"
    and f: "0 \<le> f" "f \<le> int (period_of (st_out x))"
    using ok(2) sec by (auto simp: worker_ok_def)
  have a: "so_bus_address (st_out x) = Some ?a" using ok(1) by (auto simp: stream_ok_def addr_of_def)
  obtain e h where e: "pcm_object P i = Some e" "pcm e = Some h" using held_live [OF ok(4), of i] i by (auto simp: held_def)
  have per: "period_of (st_out x) < 2 ^ 30" using ok(1) by (simp add: stream_ok_def)
  obtain k where k: "f = int k" "k \<le> period_of (st_out x)" using f by (metis zero_le_imp_eq_int of_nat_le_iff)
  show ?thesis
  proof (cases "st_write x")
    case None
    obtain e1 q where q: "pipeline_of H e ?a = (e1, q)" by (cases "pipeline_of H e ?a")
    let ?c = "ext_pcm_frames_to_bytes (we_frames_to_bytes L) (Some e) (word_of_int f)"
    have "unat (word_of_int f :: u32) = k" using k per by (simp add: unat_u32_of_nat)
    then have c: "unat ?c = 4 * nat f" using L k per by (simp add: libraries_ok_def ext_pcm_frames_to_bytes_def e(2))
    then show ?thesis using k b(2) sec b(1) by (intro that [OF i b(1) a e q, of ?c 0]) (simp_all add: None in_flight_def)
  next
    case (Some u)
    obtain q count wr where u: "u = (q, count, wr)" by (cases u)
    have q: "hashmapGet H (mixer_pipeline_map e) ?a = Some q" "unat count = 4 * nat f" "wr \<le> count" "even (unat wr)"
      using x by (simp_all add: write_ok_def Some u sec i e(1))
    have "pipeline_of H e ?a = (e, q)" using q(1) by (simp add: pipeline_of_def)
    then show ?thesis using q(2-4) k b sec by (intro that [OF i b(1) a e, of e q count wr]) (simp_all add: Some u in_flight_def)
  qed
qed

lemma play_part:
  assumes p: "part_ok H eq hs (st_out x, st_worker x, P)" and x: "write_ok H P x" and L: "libraries_ok H eq L" and M: "mixer_map H eq"
    and sec: "ow_section (st_worker x) = Playing f"
  shows "\<exists>x' P' evs. play_section L zone (x, P) = Some (x', P') \<and> st_out x' = st_out x \<and>
    part_ok H eq hs (st_out x', st_worker x', P') \<and> write_ok H P' x' \<and> effect H eq P evs P' \<and>
    (\<forall>b. \<not> eq b (addr_of (st_out x)) \<longrightarrow> put_bytes eq b evs = []) \<and>
    (st_write x = None \<and> \<not> is_zone_selected_to_play zone (worker_zone_id (addr_of (st_out x))) \<or>
      put_bytes eq (addr_of (st_out x)) evs @ in_flight (st_worker x') (st_write x') = in_flight (st_worker x) (st_write x))"
proof -
  let ?w = "st_worker x" and ?a = "addr_of (st_out x)"
  from p have ok: "stream_ok (st_out x)" "worker_ok (st_out x) ?w" "objects_ok H eq P" "pcm_inv (P, held ?w @ hs)"
    by (simp_all add: part_ok_def)
  obtain i b e h e1 q count wr where
    v: "ow_ext_pcm ?w = Some i" "ow_buffer ?w = Some b" "so_bus_address (st_out x) = Some ?a" "pcm_object P i = Some e" "pcm e = Some h"
      "pipeline_of H e ?a = (e1, q)"
      "(case st_write x of
          None \<Rightarrow> (e1, q, ext_pcm_frames_to_bytes (we_frames_to_bytes L) (Some e) (word_of_int f), 0)
        | Some (p, count, byteWritten) \<Rightarrow> (e, p, count, byteWritten)) = (e1, q, count, wr)"
    and c: "unat count = 4 * nat f" "unat count \<le> length b" "wr \<le> count" "even (unat wr)"
    and fl: "in_flight ?w (st_write x) = drop (unat wr) (take (unat count) b)"
    by (rule playing_parts [OF p x L sec])
  have hm: "we_hashmap L = H" using L by (simp add: libraries_ok_def)
  have idle: "worker_ok (st_out x) (?w\<lparr>ow_section := AtTop\<rparr>)" using ok(2) v(1,2) by (simp add: worker_ok_def)
  have same: "held (?w\<lparr>ow_section := AtTop\<rparr>) = held ?w" by (simp add: held_def)
  show ?thesis
  proof (cases "st_write x = None \<and> \<not> is_zone_selected_to_play zone (worker_zone_id ?a)")
    case True
    let ?x = "x\<lparr>st_worker := ?w\<lparr>ow_section := AtTop\<rparr>\<rparr>"
    have "play_section L zone (x, P) = Some (?x, P)" using True sec v(1-4) by (simp add: play_section_def)
    moreover have "part_ok H eq hs (st_out ?x, st_worker ?x, P)" using ok idle same by (simp add: part_ok_def)
    ultimately show ?thesis using True effect_refl [OF ok(3)]
      by (intro exI [of _ ?x] exI [of _ P] exI [of _ "[]"]) (simp add: write_ok_def)
  next
    case False
    have eok: "buses_ok H eq e" using ok(3) v(4) by (simp add: objects_ok_def)
    have "even (unat count)" using c(1) by simp
    from write_section_put [OF M eok v(6) c(3,2) this c(4)] obtain e2 wr' bs where
      s: "write_section e1 q b count wr = Some (e2, wr', wr' < count)" "mixer_run H e [Put ?a bs] e2"
        "bs @ drop (unat wr') (take (unat count) b) = drop (unat wr) (take (unat count) b)" "wr' \<le> count" "even (unat wr')"
        "hashmapGet H (mixer_pipeline_map e2) ?a = Some q" by blast
    let ?P = "set_pcm_object i (Some e2) P"
    let ?x = "if wr' < count then x\<lparr>st_write := Some (q, count, wr')\<rparr> else x\<lparr>st_write := None, st_worker := ?w\<lparr>ow_section := AtTop\<rparr>\<rparr>"
    note r = run_effect [OF M s(2) v(4) ok(3,4)]
    have step: "play_section L zone (x, P) = Some (?x, ?P)"
      using False sec v(1-4) v(7) s(1) by (cases "st_write x") (simp_all add: play_section_def hm v(5,6) split: prod.splits)
    have obj: "pcm_object ?P i = Some e2" using pcm_object_len [OF v(4)] by simp
    have part: "part_ok H eq hs (st_out ?x, st_worker ?x, ?P)" using ok(1,2) idle same r(2,3) by (simp add: part_ok_def)
    have wok: "write_ok H ?P ?x" using obj s(4-6) c(1) sec v(1) by (simp add: write_ok_def)
    have bytes: "bs @ in_flight (st_worker ?x) (st_write ?x) = in_flight ?w (st_write x)"
    proof (cases "wr' < count")
      case True
      then show ?thesis using s(3) sec v(2) c(1) unfolding fl by (simp add: in_flight_def)
    next
      case F: False
      then have "wr' = count" using s(4) by simp
      then show ?thesis using s(3) F unfolding fl by simp
    qed
    have "eq ?a ?a" using hashmap.refl [OF mixer_map.axioms(1) [OF M]] .
    then show ?thesis using step part wok r(1) bytes
      by (intro exI [of _ ?x] exI [of _ ?P] exI [of _ "[Put ?a bs]"]) simp
  qed
qed

end
