(* ===== verification/Audio_System.thy ===== *)
theory Audio_System
  imports Audio_Threads
begin

text \<open>
  The output side of the HAL as one system: any number of streams, each with its worker thread, over the
  one shared PCM of \<open>ext_pcm.c\<close> and its mixer thread. A step is a locked section of some worker, a section of its
  write to the mixer, a round of the mixer, an operation of a client on some stream, the selection of a zone, the
  opening of a stream, or the end of \<open>adev_close_output_stream\<close>; they interleave in any order. The invariant
  relates the locals of every worker to its stream and the counter of the PCM to the pointers to it. From it
  follow that no interleaving makes a thread fault, and what the PCM receives in any run.
\<close>

section \<open>The system\<close>

text \<open>
  Streams are numbered as they are opened, \<open>None\<close> once closed; \<open>leaked\<close> are the pointers of workers that
  ended without closing the PCM.
\<close>

record 'm audio_system =
  sys_streams :: "stream_thread option list"
  sys_pcm :: "'m pcm_world"
  sys_zone :: int
  sys_leaked :: "nat list"

definition sys_init :: "'m audio_system" where
  "sys_init = \<lparr>sys_streams = [], sys_pcm = pcm_init, sys_zone = 1, sys_leaked = []\<rparr>"

definition thread_at :: "'m audio_system \<Rightarrow> nat \<Rightarrow> stream_thread option" where
  "thread_at s i = (if i < length (sys_streams s) then sys_streams s ! i else None)"

definition set_thread :: "nat \<Rightarrow> stream_thread option \<Rightarrow> 'm pcm_world \<Rightarrow> 'm audio_system \<Rightarrow> 'm audio_system" where
  "set_thread i x P s = s\<lparr>sys_streams := (sys_streams s)[i := x], sys_pcm := P\<rparr>"

definition thread_held :: "stream_thread option \<Rightarrow> nat list" where
  "thread_held x = (case x of None \<Rightarrow> [] | Some x \<Rightarrow> held (st_worker x))"

definition holders :: "'m audio_system \<Rightarrow> nat list" where
  "holders s = concat (map thread_held (sys_streams s)) @ sys_leaked s"

text \<open>How many pointers there can be: those of the open streams and the leaked ones.\<close>

definition slots :: "'m audio_system \<Rightarrow> nat" where
  "slots s = length (filter (\<lambda>x. x \<noteq> None) (sys_streams s)) + length (sys_leaked s)"

text \<open>
  What a client's call does to a stream while it holds the lock, besides putting frames into the ring: it changes
  fields other than the ring, the configuration of the PCM and the address.
\<close>

inductive stream_op :: "generic_stream_out \<Rightarrow> generic_stream_out \<Rightarrow> bool" where
  op_fields: "so_buffer out' = so_buffer out \<Longrightarrow> so_pcm_config out' = so_pcm_config out \<Longrightarrow>
    so_bus_address out' = so_bus_address out \<Longrightarrow> stream_op out out'"

text \<open>A step, with the bytes that a client's write puts into the ring of a stream.\<close>

inductive system_step :: "'m worker_env \<Rightarrow> 'm audio_system \<Rightarrow> (nat \<times> bytes) list \<Rightarrow> 'm audio_system \<Rightarrow> bool" for L where
  sys_locked: "thread_at s i = Some x \<Longrightarrow> (\<And>f. ow_section (st_worker x) \<noteq> Playing f) \<Longrightarrow>
    out_worker_step L (sys_zone s) (st_out x, st_worker x, sys_pcm s) (out', w', P) \<Longrightarrow>
    system_step L s [] (set_thread i (Some (x\<lparr>st_out := out', st_worker := w'\<rparr>)) P s)"
| sys_write: "thread_at s i = Some x \<Longrightarrow> ow_section (st_worker x) = Playing f \<Longrightarrow>
    play_section L (sys_zone s) (x, sys_pcm s) = Some (x', P) \<Longrightarrow> system_step L s [] (set_thread i (Some x') P s)"
| sys_mix: "pcm_object (sys_pcm s) j = Some e \<Longrightarrow> mixer_iteration (we_hashmap L) e = Some e' \<Longrightarrow>
    system_step L s [] (s\<lparr>sys_pcm := set_pcm_object j (Some e') (sys_pcm s)\<rparr>)"
| sys_put: "thread_at s i = Some x \<Longrightarrow> unat frames * vb_fs (so_buffer (st_out x)) \<le> length bs \<Longrightarrow> length bs < 2 ^ 64 \<Longrightarrow>
    audio_vbuffer_write (so_buffer (st_out x)) bs frames = Some (vb, n) \<Longrightarrow>
    system_step L s [(i, take (unat n * vb_fs (so_buffer (st_out x))) bs)]
      (set_thread i (Some (x\<lparr>st_out := (st_out x)\<lparr>so_buffer := vb\<rparr>\<rparr>)) (sys_pcm s) s)"
| sys_client: "thread_at s i = Some x \<Longrightarrow> stream_op (st_out x) out' \<Longrightarrow>
    system_step L s [] (set_thread i (Some (x\<lparr>st_out := out'\<rparr>)) (sys_pcm s) s)"
| sys_select: "system_step L s [] (s\<lparr>sys_zone := z\<rparr>)"
| sys_open: "stream_ok out \<Longrightarrow> slots s < 2 ^ 31 - 1 \<Longrightarrow>
    system_step L s [] (s\<lparr>sys_streams := sys_streams s @ [Some (thread_init out)]\<rparr>)"
| sys_closed: "thread_at s i = Some x \<Longrightarrow> ow_section (st_worker x) = Exited \<Longrightarrow>
    system_step L s [] ((set_thread i None (sys_pcm s) s)\<lparr>sys_leaked := held (st_worker x) @ sys_leaked s\<rparr>)"

text \<open>The operations of the stream are such client steps; so is each locked part of \<open>out_write\<close> but for its put.\<close>

lemma stream_ops:
  "stream_op out (out_write_begin t out)" "stream_op out (close_request out)"
  "stream_op out (snd (get_current_output_position t out))"
  "stream_op out (fst (out_set_parameters str_parms_create_str out kvpairs))"
  "stream_op out (out\<lparr>so_worker_standby := True, so_standby := True\<rparr>)"
  by (intro op_fields; simp add: out_write_begin_def get_current_output_position_def close_request_def out_set_parameters_def
      Let_def split: prod.split)+

text \<open>
  Runs, with all the bytes the clients have put. No two streams are open for one address: that is the contract
  of the audio framework, which has one stream for every bus.
\<close>

definition single_writers :: "(string \<Rightarrow> string \<Rightarrow> bool) \<Rightarrow> 'm audio_system \<Rightarrow> bool" where
  "single_writers eq s \<longleftrightarrow> (\<forall>i j x y. thread_at s i = Some x \<longrightarrow> thread_at s j = Some y \<longrightarrow> i \<noteq> j \<longrightarrow>
     \<not> eq (addr_of (st_out x)) (addr_of (st_out y)))"

inductive system_run :: "'m worker_env \<Rightarrow> (string \<Rightarrow> string \<Rightarrow> bool) \<Rightarrow> 'm audio_system \<Rightarrow> (nat \<times> bytes) list \<Rightarrow> 'm audio_system \<Rightarrow> bool"
  for L eq where
  run_start: "system_run L eq s [] s"
| run_more: "system_run L eq s l t \<Longrightarrow> single_writers eq t \<Longrightarrow> system_step L t l' u \<Longrightarrow> system_run L eq s (l @ l') u"

definition accepted :: "nat \<Rightarrow> (nat \<times> bytes) list \<Rightarrow> bytes" where
  "accepted i l = concat (map (\<lambda>(j, bs). if j = i then bs else []) l)"

lemma accepted_simps [simp]:
  "accepted i [] = []" "accepted i (l @ l') = accepted i l @ accepted i l'" "accepted i [(j, bs)] = (if j = i then bs else [])"
  by (simp_all add: accepted_def)

lemma thread_at_simps [simp]:
  "thread_at (set_thread i x P s) j = (if j = i \<and> i < length (sys_streams s) then x else thread_at s j)"
  "thread_at (s\<lparr>sys_pcm := P\<rparr>) j = thread_at s j" "thread_at (s\<lparr>sys_zone := z\<rparr>) j = thread_at s j"
  "thread_at (s\<lparr>sys_leaked := l\<rparr>) j = thread_at s j"
  "thread_at (s\<lparr>sys_streams := sys_streams s @ [y]\<rparr>) j = (if j = length (sys_streams s) then y else thread_at s j)"
  by (auto simp: thread_at_def set_thread_def nth_append)

lemma set_thread_simps [simp]:
  "sys_pcm (set_thread i x P s) = P" "sys_leaked (set_thread i x P s) = sys_leaked s"
  "length (sys_streams (set_thread i x P s)) = length (sys_streams s)"
  by (simp_all add: set_thread_def)

lemma thread_at_len: "thread_at s i = Some x \<Longrightarrow> i < length (sys_streams s)"
  by (simp add: thread_at_def split: if_splits)

section \<open>The invariant\<close>

text \<open>The pointers to the PCM besides those of the stream \<open>i\<close>.\<close>

definition others :: "nat \<Rightarrow> 'm audio_system \<Rightarrow> nat list" where
  "others i s = holders (set_thread i None (sys_pcm s) s)"

definition sys_ok :: "('m, nat) hashmap_api \<Rightarrow> (string \<Rightarrow> string \<Rightarrow> bool) \<Rightarrow> 'm audio_system \<Rightarrow> bool" where
  "sys_ok H eq s \<longleftrightarrow> (\<forall>i x. thread_at s i = Some x \<longrightarrow>
       stream_ok (st_out x) \<and> worker_ok (st_out x) (st_worker x) \<and> write_ok H (sys_pcm s) x) \<and>
     objects_ok H eq (sys_pcm s) \<and> pcm_inv (sys_pcm s, holders s) \<and> slots s < 2 ^ 31"

lemma held_length: "length (held w) \<le> 1" "length (thread_held x) \<le> (if x = None then 0 else 1)"
  by (simp_all add: held_def thread_held_def split: option.split)

lemma holders_slots: "length (holders s) \<le> slots s"
proof -
  have "length (concat (map thread_held xs)) \<le> length (filter (\<lambda>x. x \<noteq> None) xs)" for xs
  proof (induction xs)
    case (Cons x xs)
    then show ?case using held_length(2) [of x] by (cases x) simp_all
  qed simp
  then show ?thesis by (simp add: holders_def slots_def)
qed

lemma thread_split:
  assumes "thread_at s i = Some x"
  obtains ys zs where "sys_streams s = ys @ Some x # zs" and "\<And>y P. sys_streams (set_thread i y P s) = ys @ y # zs"
proof -
  have i: "i < length (sys_streams s)" "sys_streams s ! i = Some x" using assms by (simp_all add: thread_at_def split: if_splits)
  show ?thesis
    by (rule that [of "take i (sys_streams s)" "drop (Suc i) (sys_streams s)"])
      (use id_take_nth_drop [OF i(1)] i in \<open>simp_all add: set_thread_def upd_conv_take_nth_drop\<close>)
qed

text \<open>Taking the stream \<open>i\<close> out leaves the others; their number shows that another opening fits.\<close>

lemma holders_set:
  assumes "thread_at s i = Some x"
  shows "set (holders (set_thread i y P s)) = set (thread_held y @ others i s)"
    and "length (holders (set_thread i y P s)) = length (thread_held y @ others i s)"
    and "slots (set_thread i (Some z) P s) = slots s" and "slots (set_thread i None P s) = slots s - 1" and "0 < slots s"
    and "length (others i s) < slots s"
proof -
  obtain ys zs where s: "sys_streams s = ys @ Some x # zs" "\<And>y P. sys_streams (set_thread i y P s) = ys @ y # zs"
    using thread_split [OF assms] by blast
  show "set (holders (set_thread i y P s)) = set (thread_held y @ others i s)"
    and "length (holders (set_thread i y P s)) = length (thread_held y @ others i s)"
    by (auto simp: holders_def others_def s(2) thread_held_def)
  show "slots (set_thread i (Some z) P s) = slots s" and c: "slots (set_thread i None P s) = slots s - 1" and "0 < slots s" for P
    by (simp_all add: slots_def s)
  then show "length (others i s) < slots s" using holders_slots [of "set_thread i None (sys_pcm s) s"] by (simp add: others_def)
qed

lemma holders_at:
  assumes "thread_at s i = Some x"
  shows "pcm_inv (sys_pcm s, holders s) \<longleftrightarrow> pcm_inv (sys_pcm s, held (st_worker x) @ others i s)"
proof -
  have "(sys_streams s)[i := Some x] = sys_streams s" using assms by (auto simp: thread_at_def list_update_same_conv split: if_splits)
  then have i: "set_thread i (Some x) (sys_pcm s) s = s" by (simp add: set_thread_def)
  show ?thesis using holders_set(1,2) [OF assms, of "Some x" "sys_pcm s"] unfolding i
    by (metis pcm_inv_holders thread_held_def option.simps(5))
qed

lemma sys_part:
  assumes "sys_ok H eq s" and "thread_at s i = Some x"
  shows "part_ok H eq (others i s) (st_out x, st_worker x, sys_pcm s)" and "write_ok H (sys_pcm s) x"
    and "length (others i s) < 2 ^ 31 - 1"
  using assms holders_at [OF assms(2)] holders_set(6) [OF assms(2)] by (auto simp: part_ok_def sys_ok_def)

lemma held_in: "thread_at s i = Some x \<Longrightarrow> set (held (st_worker x)) \<subseteq> set (holders s)"
  by (erule thread_split) (auto simp: holders_def thread_held_def)

text \<open>What the other threads do does not disturb a waiting write.\<close>

lemma write_keeps:
  assumes "effect H eq P evs P'" and "write_ok H P x" and "pcm_inv (P', hs)" and "set (held (st_worker x)) \<subseteq> set hs"
  shows "write_ok H P' x"
proof (cases "st_write x")
  case (Some u)
  obtain p count wr where u: "u = (p, count, wr)" by (cases u)
  obtain f i e where w: "ow_section (st_worker x) = Playing f" "ow_ext_pcm (st_worker x) = Some i" "pcm_object P i = Some e"
    "hashmapGet H (mixer_pipeline_map e) (addr_of (st_out x)) = Some p"
    using assms(2) by (auto simp: write_ok_def Some u split: out_section.splits option.splits)
  obtain e' where e': "pcm_object P' i = Some e'" using held_live [OF assms(3), of i] assms(4) w(2) by (auto simp: held_def)
  then have "hashmapGet H (mixer_pipeline_map e') (addr_of (st_out x)) = Some p"
    using assms(1) w(3,4) pcm_object_len [OF w(3)] unfolding effect_def by (metis option.inject)
  then show ?thesis using assms(2) e' by (simp add: write_ok_def Some u w(1,2))
qed (simp add: write_ok_def)

lemma part_sys:
  assumes s: "sys_ok H eq s" "thread_at s i = Some x" and x: "part_ok H eq (others i s) (st_out x', st_worker x', P')" "write_ok H P' x'"
    and e: "effect H eq (sys_pcm s) evs P'"
  shows "sys_ok H eq (set_thread i (Some x') P' s)"
proof -
  let ?s = "set_thread i (Some x') P' s"
  have inv: "pcm_inv (P', holders ?s)"
    using x(1) holders_set(1,2) [OF s(2), of "Some x'" P'] by (auto simp: part_ok_def thread_held_def intro: pcm_inv_holders)
  have "stream_ok (st_out y) \<and> worker_ok (st_out y) (st_worker y) \<and> write_ok H P' y" if y: "thread_at ?s j = Some y" for j y
  proof (cases "j = i")
    case True
    then show ?thesis using y x thread_at_len [OF s(2)] by (simp add: part_ok_def)
  next
    case False
    then have "thread_at s j = Some y" using y by (simp split: if_splits)
    then show ?thesis using s(1) write_keeps [OF e _ inv held_in [OF y]] by (simp add: sys_ok_def)
  qed
  then show ?thesis using s(1) x(1) inv holders_set(3) [OF s(2)] by (simp add: sys_ok_def part_ok_def)
qed

section \<open>What a step does\<close>

text \<open>The bytes of a stream on their way to the mixer: what is being played, and the ring.\<close>

definition flying :: "stream_thread \<Rightarrow> bytes" where
  "flying x = in_flight (st_worker x) (st_write x) @ vb_contents (so_buffer (st_out x))"

text \<open>
  What the mixer was told of the address, and what is on its way, are what was on its way and what was accepted;
  for a stream of the primary zone, which always plays.
\<close>

definition stream_moves ::
    "(string \<Rightarrow> string \<Rightarrow> bool) \<Rightarrow> mixer_event list \<Rightarrow> (nat \<times> bytes) list \<Rightarrow> nat \<Rightarrow> stream_thread \<Rightarrow> stream_thread \<Rightarrow> bool" where
  "stream_moves eq evs l i x y \<longleftrightarrow> addr_of (st_out y) = addr_of (st_out x) \<and>
     (worker_zone_id (addr_of (st_out x)) = PRIMARY_ZONE_ID \<longrightarrow>
        put_bytes eq (addr_of (st_out x)) evs @ flying y = flying x @ accepted i l)"

definition moved ::
    "('m, nat) hashmap_api \<Rightarrow> (string \<Rightarrow> string \<Rightarrow> bool) \<Rightarrow> 'm audio_system \<Rightarrow> mixer_event list \<Rightarrow> (nat \<times> bytes) list \<Rightarrow> 'm audio_system \<Rightarrow> bool" where
  "moved H eq s evs l t \<longleftrightarrow> effect H eq (sys_pcm s) evs (sys_pcm t) \<and> length (sys_streams s) \<le> length (sys_streams t) \<and>
     (\<forall>i y. i < length (sys_streams s) \<longrightarrow> thread_at t i = Some y \<longrightarrow>
        (\<exists>x. thread_at s i = Some x \<and> stream_moves eq evs l i x y))"

lemma moves_trans: "stream_moves eq evs l i x y \<Longrightarrow> stream_moves eq evs' l' i y z \<Longrightarrow> stream_moves eq (evs @ evs') (l @ l') i x z"
  unfolding stream_moves_def accepted_simps event_append by (metis append.assoc)

lemma moves_refl: "put_bytes eq (addr_of (st_out x)) evs = [] \<Longrightarrow> accepted i l = [] \<Longrightarrow> stream_moves eq evs l i x x"
  by (simp add: stream_moves_def)

lemma moved_trans:
  assumes "moved H eq s evs l t" and "moved H eq t evs' l' u"
  shows "moved H eq s (evs @ evs') (l @ l') u"
  unfolding moved_def
proof (intro conjI allI impI)
  show "effect H eq (sys_pcm s) (evs @ evs') (sys_pcm u)" using assms effect_trans unfolding moved_def by blast
  show "length (sys_streams s) \<le> length (sys_streams u)" using assms by (simp add: moved_def)
  fix i z assume i: "i < length (sys_streams s)" "thread_at u i = Some z"
  then obtain y where y: "thread_at t i = Some y" "stream_moves eq evs' l' i y z"
    using assms unfolding moved_def by (meson order.strict_trans2)
  then obtain x where "thread_at s i = Some x" "stream_moves eq evs l i x y" using assms(1) i(1) unfolding moved_def by blast
  then show "\<exists>x. thread_at s i = Some x \<and> stream_moves eq (evs @ evs') (l @ l') i x z" using y(2) moves_trans by blast
qed

text \<open>A step of one stream: what it leaves, and that it tells the mixer nothing of other addresses.\<close>

definition thread_step ::
    "('m, nat) hashmap_api \<Rightarrow> (string \<Rightarrow> string \<Rightarrow> bool) \<Rightarrow> 'm audio_system \<Rightarrow> mixer_event list \<Rightarrow> (nat \<times> bytes) list \<Rightarrow> 'm audio_system \<Rightarrow> bool" where
  "thread_step H eq s evs l t \<longleftrightarrow> (\<exists>i x x' P'. thread_at s i = Some x \<and> t = set_thread i (Some x') P' s \<and>
     part_ok H eq (others i s) (st_out x', st_worker x', P') \<and> write_ok H P' x' \<and> effect H eq (sys_pcm s) evs P' \<and>
     stream_moves eq evs l i x x' \<and> (\<forall>b. \<not> eq b (addr_of (st_out x)) \<longrightarrow> put_bytes eq b evs = []) \<and> (\<forall>j. j \<noteq> i \<longrightarrow> accepted j l = []))"

lemma thread_step_ok: "thread_step H eq s evs l t \<Longrightarrow> sys_ok H eq s \<Longrightarrow> sys_ok H eq t"
  using part_sys unfolding thread_step_def by blast

lemma thread_step_moved:
  assumes "thread_step H eq s evs l t" and "single_writers eq s"
  shows "moved H eq s evs l t"
proof -
  obtain i x x' P' where t: "thread_at s i = Some x" "t = set_thread i (Some x') P' s" "effect H eq (sys_pcm s) evs P'"
    "stream_moves eq evs l i x x'" "\<forall>b. \<not> eq b (addr_of (st_out x)) \<longrightarrow> put_bytes eq b evs = []" "\<forall>j. j \<noteq> i \<longrightarrow> accepted j l = []"
    using assms(1) unfolding thread_step_def by blast
  have "\<exists>x. thread_at s j = Some x \<and> stream_moves eq evs l j x y" if y: "thread_at t j = Some y" for j y
  proof (cases "j = i")
    case True
    then show ?thesis using y t(1,4) thread_at_len [OF t(1)] by (simp add: t(2))
  next
    case False
    then have j: "thread_at s j = Some y" using y by (simp add: t(2) split: if_splits)
    then have "\<not> eq (addr_of (st_out y)) (addr_of (st_out x))" using assms(2) t(1) False unfolding single_writers_def by blast
    then show ?thesis using t(5,6) False j moves_refl by metis
  qed
  then show ?thesis using t(2,3) by (simp add: moved_def)
qed

lemma write_idle: "write_ok H P x \<Longrightarrow> (\<And>f. ow_section (st_worker x) \<noteq> Playing f) \<Longrightarrow> st_write x = None"
  by (cases "ow_section (st_worker x)") (auto simp: write_ok_def split: option.splits)

lemma write_ok_out: "addr_of out = addr_of (st_out x) \<Longrightarrow> write_ok H P (x\<lparr>st_out := out\<rparr>) = write_ok H P x"
  by (auto simp: write_ok_def split: option.splits out_section.splits)

lemma thread_init_ok: "worker_ok out (st_worker (thread_init out))" "write_ok H P (thread_init out)" "st_out (thread_init out) = out"
  "thread_held (Some (thread_init out)) = []"
  by (simp_all add: worker_ok_def write_ok_def thread_init_def thread_held_def out_worker_init_def held_def)

text \<open>The steps of a stream are such steps.\<close>

lemma locked_step:
  assumes s: "sys_ok H eq s" and x: "thread_at s i = Some x" "\<And>f. ow_section (st_worker x) \<noteq> Playing f" and L: "libraries_ok H eq L"
    and M: "mixer_map H eq" and st: "out_worker_step L zone (st_out x, st_worker x, sys_pcm s) (out', w', P)"
  shows "thread_step H eq s [] [] (set_thread i (Some (x\<lparr>st_out := out', st_worker := w'\<rparr>)) P s)"
proof -
  note p = sys_part [OF s x(1)]
  let ?x = "x\<lparr>st_out := out', st_worker := w'\<rparr>"
  have none: "st_write x = None" by (rule write_idle [OF p(2) x(2)])
  have e: "ends_well H eq (others i s) (st_out x, st_worker x, sys_pcm s) (Some (out', w', P))"
    by (rule locked_part(2) [OF p(1) L mixer_map.axioms(1) [OF M] p(3) x(2) st])
  then have "flying ?x = flying x" using in_flight_not_playing [OF x(2)] by (simp add: ends_well_def flying_def none)
  then have "stream_moves eq [] [] i x ?x" using e by (simp add: stream_moves_def ends_well_def)
  then show ?thesis using e none x(1) unfolding thread_step_def
    by (intro exI [of _ i] exI [of _ x] exI [of _ ?x] exI [of _ P]) (simp add: ends_well_def write_ok_def)
qed

lemma play_step:
  assumes s: "sys_ok H eq s" and x: "thread_at s i = Some x" "ow_section (st_worker x) = Playing f" and L: "libraries_ok H eq L"
    and M: "mixer_map H eq"
  shows "\<exists>x' P evs. play_section L zone (x, sys_pcm s) = Some (x', P) \<and> thread_step H eq s evs [] (set_thread i (Some x') P s)"
proof -
  note p = sys_part [OF s x(1)]
  let ?a = "addr_of (st_out x)"
  obtain x' P evs where r: "play_section L zone (x, sys_pcm s) = Some (x', P)" "st_out x' = st_out x"
    "part_ok H eq (others i s) (st_out x', st_worker x', P)" "write_ok H P x'" "effect H eq (sys_pcm s) evs P"
    "\<forall>b. \<not> eq b ?a \<longrightarrow> put_bytes eq b evs = []"
    "st_write x = None \<and> \<not> is_zone_selected_to_play zone (worker_zone_id ?a) \<or>
      put_bytes eq ?a evs @ in_flight (st_worker x') (st_write x') = in_flight (st_worker x) (st_write x)"
    using play_part [OF p(1,2) L M x(2), of zone] by blast
  have "stream_moves eq evs [] i x x'" using r(2,7) unfolding stream_moves_def flying_def
    by (auto simp: is_zone_selected_to_play_def simp flip: append_assoc)
  then have "thread_step H eq s evs [] (set_thread i (Some x') P s)" unfolding thread_step_def
    using x(1) r(3-6) by (intro exI [of _ i] exI [of _ x] exI [of _ x'] exI [of _ P]) simp
  then show ?thesis using r(1) by blast
qed

lemma put_step:
  assumes s: "sys_ok H eq s" and x: "thread_at s i = Some x"
    and w: "unat frames * vb_fs (so_buffer (st_out x)) \<le> length bs" "length bs < 2 ^ 64"
      "audio_vbuffer_write (so_buffer (st_out x)) bs frames = Some (vb, n)"
  shows "thread_step H eq s [] [(i, take (unat n * vb_fs (so_buffer (st_out x))) bs)]
      (set_thread i (Some (x\<lparr>st_out := (st_out x)\<lparr>so_buffer := vb\<rparr>\<rparr>)) (sys_pcm s) s)"
proof -
  let ?v = "so_buffer (st_out x)" and ?x = "x\<lparr>st_out := (st_out x)\<lparr>so_buffer := vb\<rparr>\<rparr>"
  note p = sys_part [OF s x]
  have v: "vb_ok ?v" "vb_fs ?v = 4" using p(1) by (simp_all add: part_ok_def stream_ok_def)
  have r: "vb_ok vb" "vb_fs vb = 4" "vb_contents vb = vb_contents ?v @ take (unat n * vb_fs ?v) bs"
    using vb.write_law [OF v(1) w(1,2)] w(3) vb.unat_moved(2) [OF v(1)] v(2) by auto
  have "part_ok H eq (others i s) (st_out ?x, st_worker ?x, sys_pcm s)"
    using p(1) r(1,2) by (simp add: part_ok_def stream_ok_def worker_ok_def)
  moreover have "write_ok H (sys_pcm s) ?x" using p(2) by (simp add: write_ok_out)
  moreover have "effect H eq (sys_pcm s) [] (sys_pcm s)" using p(1) by (intro effect_refl) (simp add: part_ok_def)
  ultimately show ?thesis unfolding thread_step_def using x r(3)
    by (intro exI [of _ i] exI [of _ x] exI [of _ ?x] exI [of _ "sys_pcm s"]) (simp add: stream_moves_def flying_def)
qed

lemma client_step:
  assumes s: "sys_ok H eq s" and x: "thread_at s i = Some x" and c: "stream_op (st_out x) out'"
  shows "thread_step H eq s [] [] (set_thread i (Some (x\<lparr>st_out := out'\<rparr>)) (sys_pcm s) s)"
  using c
proof cases
  case op_fields
  let ?x = "x\<lparr>st_out := out'\<rparr>"
  note p = sys_part [OF s x]
  have f: "period_of out' = period_of (st_out x)" "addr_of out' = addr_of (st_out x)"
    using op_fields by (simp_all add: period_of_def addr_of_def)
  have "part_ok H eq (others i s) (st_out ?x, st_worker ?x, sys_pcm s)"
    using p(1) f op_fields by (simp add: part_ok_def stream_ok_def worker_ok_def)
  moreover have "write_ok H (sys_pcm s) ?x" using p(2) f by (simp add: write_ok_out)
  moreover have "effect H eq (sys_pcm s) [] (sys_pcm s)" using p(1) by (intro effect_refl) (simp add: part_ok_def)
  ultimately show ?thesis unfolding thread_step_def using x f op_fields
    by (intro exI [of _ i] exI [of _ x] exI [of _ ?x] exI [of _ "sys_pcm s"]) (simp add: stream_moves_def flying_def)
qed

text \<open>The other steps keep every stream that stays open.\<close>

lemma moved_same:
  assumes "effect H eq (sys_pcm s) evs (sys_pcm t)" and "length (sys_streams s) \<le> length (sys_streams t)"
    and "\<And>a. put_bytes eq a evs = []" and "\<And>i y. i < length (sys_streams s) \<Longrightarrow> thread_at t i = Some y \<Longrightarrow> thread_at s i = Some y"
  shows "moved H eq s evs [] t"
  using assms moves_refl [OF assms(3), of _ "[]"] unfolding moved_def by (metis accepted_simps(1))

lemma mix_step:
  assumes s: "sys_ok H eq s" and M: "mixer_map H eq" and e: "pcm_object (sys_pcm s) j = Some e" "mixer_iteration H e = Some e'"
  shows "sys_ok H eq (s\<lparr>sys_pcm := set_pcm_object j (Some e') (sys_pcm s)\<rparr>)"
    and "\<exists>evs. moved H eq s evs [] (s\<lparr>sys_pcm := set_pcm_object j (Some e') (sys_pcm s)\<rparr>)"
proof -
  let ?P = "set_pcm_object j (Some e') (sys_pcm s)" and ?evs = "[Mixed (round_of H e)]"
  let ?s = "s\<lparr>sys_pcm := ?P\<rparr>"
  have ok: "objects_ok H eq (sys_pcm s)" "pcm_inv (sys_pcm s, holders s)" using s by (simp_all add: sys_ok_def)
  have "mixer_run H e ?evs e'" using e(2) by (auto intro: mixer_run.intros mixer_step.intros)
  note r = run_effect [OF M this e(1) ok]
  have hs: "holders ?s = holders s" "slots ?s = slots s" by (simp_all add: holders_def slots_def)
  have "write_ok H ?P x" if "thread_at s i = Some x" for i x
    using write_keeps [OF r(1) _ r(3) held_in [OF that]] s that by (simp add: sys_ok_def)
  then show "sys_ok H eq ?s" using s r(2,3) by (simp add: sys_ok_def hs)
  show "\<exists>evs. moved H eq s evs [] ?s" using r(1) by (intro exI [of _ ?evs] moved_same) simp_all
qed

lemma open_step:
  assumes s: "sys_ok H eq s" and o: "stream_ok out" "slots s < 2 ^ 31 - 1"
  shows "sys_ok H eq (s\<lparr>sys_streams := sys_streams s @ [Some (thread_init out)]\<rparr>)"
    and "moved H eq s [] [] (s\<lparr>sys_streams := sys_streams s @ [Some (thread_init out)]\<rparr>)"
proof -
  let ?s = "s\<lparr>sys_streams := sys_streams s @ [Some (thread_init out)]\<rparr>"
  have hs: "holders ?s = holders s" "slots ?s = slots s + 1"
    by (simp_all add: holders_def slots_def thread_init_ok)
  show "sys_ok H eq ?s" using s o by (auto simp: sys_ok_def hs thread_init_ok)
  show "moved H eq s [] [] ?s" using s by (intro moved_same effect_refl) (auto simp: sys_ok_def effect_refl split: if_splits)
qed

lemma closed_step:
  assumes s: "sys_ok H eq s" and x: "thread_at s i = Some x"
  shows "sys_ok H eq ((set_thread i None (sys_pcm s) s)\<lparr>sys_leaked := held (st_worker x) @ sys_leaked s\<rparr>)"
    and "moved H eq s [] [] ((set_thread i None (sys_pcm s) s)\<lparr>sys_leaked := held (st_worker x) @ sys_leaked s\<rparr>)"
proof -
  let ?s = "(set_thread i None (sys_pcm s) s)\<lparr>sys_leaked := held (st_worker x) @ sys_leaked s\<rparr>"
  have "pcm_inv (sys_pcm s, held (st_worker x) @ others i s)" using sys_part(1) [OF s x] by (simp add: part_ok_def)
  then have "pcm_inv (sys_pcm s, holders ?s)"
    by (rule pcm_inv_holders) (auto simp: holders_def others_def set_thread_def)
  moreover have "slots ?s = slots (set_thread i None (sys_pcm s) s) + length (held (st_worker x))" by (simp add: slots_def)
  then have "slots ?s \<le> slots s" using held_length(1) [of "st_worker x"] holders_set(5) [OF x] by (simp add: holders_set(4) [OF x])
  ultimately show "sys_ok H eq ?s" using s by (auto simp: sys_ok_def split: if_splits)
  show "moved H eq s [] [] ?s" using s by (intro moved_same effect_refl) (auto simp: sys_ok_def effect_refl split: if_splits)
qed

lemma sys_step_cases:
  assumes "system_step L s l t" and s: "sys_ok H eq s" and L: "libraries_ok H eq L" and M: "mixer_map H eq"
  shows "(\<exists>evs. thread_step H eq s evs l t) \<or> sys_ok H eq t \<and> l = [] \<and> (\<exists>evs. moved H eq s evs [] t)"
  using assms(1)
proof cases
  case sys_locked
  then show ?thesis using locked_step [OF s _ _ L M] by blast
next
  case (sys_write i x f x' P)
  then show ?thesis using play_step [OF s sys_write(3,4) L M, of "sys_zone s"] by auto
next
  case sys_mix
  then show ?thesis using mix_step [OF s M] L by (simp add: libraries_ok_def)
next
  case sys_put
  then show ?thesis using put_step [OF s] by blast
next
  case sys_client
  then show ?thesis using client_step [OF s] by blast
next
  case (sys_select z)
  have "sys_ok H eq t" using s sys_select by (simp add: sys_ok_def holders_def slots_def)
  moreover have "moved H eq s [] [] t"
    using s sys_select by (intro moved_same) (auto simp: sys_ok_def effect_refl)
  ultimately show ?thesis using sys_select by blast
next
  case sys_open
  then show ?thesis using open_step [OF s] by blast
next
  case sys_closed
  then show ?thesis using closed_step [OF s] by blast
qed

lemma sys_step_ok:
  assumes "system_step L s l t" and "sys_ok H eq s" and "libraries_ok H eq L" and "mixer_map H eq"
  shows "sys_ok H eq t"
  using sys_step_cases [OF assms] thread_step_ok assms(2) by blast

lemma sys_init_ok: "sys_ok H eq sys_init"
  using pcm_inv_init by (auto simp: sys_ok_def sys_init_def thread_at_def holders_def slots_def objects_ok_def pcm_init_def pcm_object_def)

definition system_moves :: "'m worker_env \<Rightarrow> 'm audio_system \<Rightarrow> 'm audio_system \<Rightarrow> bool" where
  "system_moves L s t \<longleftrightarrow> (\<exists>l. system_step L s l t)"

lemma moves_ok:
  assumes "(system_moves L)\<^sup>*\<^sup>* s t" and "sys_ok H eq s" and "libraries_ok H eq L" and "mixer_map H eq"
  shows "sys_ok H eq t"
  using assms(1,2) by (induction rule: rtranclp_induct) (auto simp: system_moves_def intro: sys_step_ok [OF _ _ assms(3,4)])

lemmas reachable_ok = moves_ok [OF _ sys_init_ok]

lemma run_moved:
  assumes "system_run L eq s l t" and s: "sys_ok H eq s" and L: "libraries_ok H eq L" and M: "mixer_map H eq"
  shows "sys_ok H eq t \<and> (\<exists>evs. moved H eq s evs l t)"
  using assms(1,2)
proof (induction rule: system_run.induct)
  case (run_start s)
  have "moved H eq s [] [] s" using run_start by (intro moved_same) (auto simp: sys_ok_def effect_refl)
  then show ?case using run_start by blast
next
  case (run_more s l t l' u)
  then obtain evs where t: "sys_ok H eq t" "moved H eq s evs l t" by blast
  have "\<exists>evs'. moved H eq t evs' l' u"
    using sys_step_cases [OF run_more.hyps(3) t(1) L M] thread_step_moved run_more.hyps(2) by blast
  then show ?case using moved_trans [OF t(2)] sys_step_ok [OF run_more.hyps(3) t(1) L M] by blast
qed

text \<open>
  A worker whose PCM is not ready leaves its loop without closing it, and nothing ever gives that reference
  back: the object stays open in every later state, whatever the other streams do.
\<close>

theorem unready_pcm_leaks:
  assumes "ow_section w = AtTop" and "ow_ext_pcm w = None" and "\<not> ow_restart w" and "\<not> ow_shutdown w"
    and "\<not> so_worker_standby out" and "\<not> so_worker_exit out" and "audio_vbuffer_live (Some (so_buffer out)) \<noteq> 0"
    and "ext_pcm_open (we_hashmap L) (we_pcm_open L) P = Some (P', i)" and "\<And>h. we_is_ready L h = 0"
  shows "out_worker_step L zone (out, w, P) (out, w\<lparr>ow_ext_pcm := Some i, ow_section := Exited\<rparr>, P')"
proof (rule step_top [OF assms(1)])
  have "ext_pcm_is_ready (we_is_ready L) (held_pcm v P') = 0" for v
    by (simp add: ext_pcm_is_ready_def assms(9) split: option.split)
  then show "worker_from_top L (out, w, P) = Some (out, w\<lparr>ow_ext_pcm := Some i, ow_section := Exited\<rparr>, P')"
    using assms(2-8) by (simp add: worker_defs Let_def)
qed

lemma leaked_grows: "system_step L s l t \<Longrightarrow> set (sys_leaked s) \<subseteq> set (sys_leaked t)"
  by (cases rule: system_step.cases) auto

theorem leaked_pcm_stays:
  assumes "sys_ok H eq s" and "i \<in> set (sys_leaked s)" and "(system_moves L)\<^sup>*\<^sup>* s t"
    and "libraries_ok H eq L" and "mixer_map H eq"
  shows "i \<in> set (sys_leaked t) \<and> (\<exists>e. pcm_object (sys_pcm t) i = Some e \<and> pcm e \<noteq> None)"
proof -
  have "i \<in> set (sys_leaked t)" using assms(3,2)
    by (induction rule: rtranclp_induct) (auto simp: system_moves_def dest: leaked_grows [THEN subsetD])
  moreover have "pcm_inv (sys_pcm t, holders t)" using moves_ok [OF assms(3,1,4,5)] by (simp add: sys_ok_def)
  ultimately show ?thesis using held_live [of "sys_pcm t" "holders t" i] by (auto simp: holders_def)
qed

section \<open>Properties\<close>


definition vb_one :: audio_vbuffer where
  "vb_one = \<lparr>data = [1, 2, 3, 4, 0, 0, 0, 0], frame_size = 4, frame_count = 2, head = 1, tail = 0, live = 1\<rparr>"

definition so_one :: generic_stream_out where
  "so_one = so_running\<lparr>so_buffer := vb_one\<rparr>"

lemma so_one_ok: "stream_ok so_one" "addr_of so_one = ''bus0''" "vb_ok vb_one" "vb_fs vb_one = 4" "so_buffer so_one = vb_one"
  by (simp_all add: stream_ok_def addr_of_def period_of_def so_one_def vb_one_def vb_ok_def so_running_def so_example_def)

lemma example_libraries: "libraries_ok (alist_api str_eq) str_eq env_example"
proof -
  have "unat f * 4 < 2 ^ 32 \<Longrightarrow> unat (f * 4) = unat f * 4" for f :: u32
    by (subst unat_mult_lem [THEN iffD1]) simp_all
  then show ?thesis by (simp add: libraries_ok_def env_example_def)
qed

definition sys_one :: "(string \<times> nat) list audio_system" where
  "sys_one = sys_init\<lparr>sys_streams := [Some (thread_init so_one)]\<rparr>"

lemma sys_one_opened: "system_step L sys_init [] sys_one"
  using sys_open [OF so_one_ok(1), of sys_init L] by (simp add: sys_one_def sys_init_def slots_def)

lemma moves_step: "system_step L s l t \<Longrightarrow> system_moves L s t"
  by (auto simp: system_moves_def)

lemma sys_one_reached: "(system_moves L)\<^sup>*\<^sup>* sys_init sys_one"
  using moves_step [OF sys_one_opened] by blast

lemma sys_one_thread: "thread_at sys_one i = (if i = 0 then Some (thread_init so_one) else None)" "sys_pcm sys_one = pcm_init" "sys_zone sys_one = 1"
  by (simp_all add: thread_at_def sys_one_def sys_init_def)

lemma example_opens:
  "\<exists>out' w' P'. out_worker_step env_example 1 (so_one, out_worker_init, pcm_init) (out', w', P') \<and> ow_ext_pcm w' = Some 0"
proof -
  let ?b = "replicate (unat (720 * 4 :: u32)) 0 :: bytes"
  have b: "unat (int_to_size 720) * vb_fs vb_one \<le> length ?b" "length ?b < 2 ^ 64"
    by (simp_all add: so_one_ok(4) int_to_size_def)
  obtain v b' n where r: "audio_vbuffer_read vb_one ?b (int_to_size 720) = Some (v, b', n)"
    using vb.read_law [OF so_one_ok(3) b] by blast
  have live: "audio_vbuffer_live (Some vb_one) \<noteq> 0" using vb_live_iff [OF so_one_ok(3)] by (simp add: vb_one_def)
  obtain P where P: "ext_pcm_open (alist_api str_eq) (Some 0) pcm_init = Some (P, 0)"
    "\<exists>e. pcm_object P 0 = Some e \<and> pcm e = Some 0"
    by (simp add: ext_pcm_open_def pcm_init_def pcm_object_def set_pcm_object_def ext_pcm_new_def Let_def)
  then obtain e where e: "pcm_object P 0 = Some e" "pcm e = Some 0" by blast
  then obtain w' where top: "worker_from_top env_example (so_one, out_worker_init, pcm_init) = Some (so_one\<lparr>so_buffer := v\<rparr>, w', P)"
    "ow_ext_pcm w' = Some 0"
    using r live
    by (simp add: worker_defs so_one_def so_running_def so_example_def out_worker_init_def env_example_def P(1) held_pcm_def e
        ext_pcm_is_ready_def ext_pcm_frames_to_bytes_def to_int32_id Let_def del: replicate.simps)
  then show ?thesis using step_top [OF _ top(1)] by (intro exI conjI) (auto simp: out_worker_init_def)
qed

lemma example_step:
  "\<exists>s x. system_step env_example sys_one [] s \<and> thread_at s 0 = Some x \<and> holders s = [0]"
proof -
  obtain out' w' P' where w: "out_worker_step env_example 1 (so_one, out_worker_init, pcm_init) (out', w', P')" "ow_ext_pcm w' = Some 0"
    using example_opens by blast
  let ?x = "(thread_init so_one)\<lparr>st_out := out', st_worker := w'\<rparr>"
  have "system_step env_example sys_one [] (set_thread 0 (Some ?x) P' sys_one)"
    using w(1) by (intro sys_locked) (simp_all add: sys_one_thread thread_init_def out_worker_init_def)
  moreover have "holders (set_thread 0 (Some ?x) P' sys_one) = [0]"
    using w(2) by (simp add: holders_def set_thread_def sys_one_def sys_init_def thread_held_def held_def)
  ultimately show ?thesis by (intro exI [of _ "set_thread 0 (Some ?x) P' sys_one"] exI [of _ ?x]) (simp add: sys_one_def)
qed



lemma example_run:
  "\<exists>s y. system_run env_example str_eq sys_one [(0, [5, 6, 7, 8])] s \<and> thread_at s 0 = Some y"
proof -
  let ?x = "thread_init so_one" and ?bs = "[5, 6, 7, 8] :: bytes"
  have ok: "sys_ok (alist_api str_eq) str_eq sys_one"
    by (rule reachable_ok [OF sys_one_reached example_libraries str_mixer.mixer_map_axioms])
  have w: "unat (1 :: size_t) * vb_fs vb_one \<le> length ?bs" "length ?bs < 2 ^ 64" by (simp_all add: so_one_ok(4))
  obtain v where v: "audio_vbuffer_write vb_one ?bs 1 = Some (v, 1)"
    using vb.write_law [OF so_one_ok(3) w] by (auto simp: vb_one_def)
  let ?y = "?x\<lparr>st_out := so_one\<lparr>so_buffer := v\<rparr>\<rparr>"
  let ?s = "set_thread 0 (Some ?y) pcm_init sys_one"
  have s1: "system_step env_example sys_one [(0, ?bs)] ?s"
    using sys_put [of sys_one 0 ?x 1 ?bs v 1 env_example] w v by (simp add: sys_one_thread thread_init_ok(3) so_one_ok(4,5))
  have at: "thread_at ?s 0 = Some ?y" by (simp add: sys_one_def)
  have sec: "ow_section (st_worker ?y) = AtTop" by (simp add: thread_init_def out_worker_init_def)
  have ok1: "sys_ok (alist_api str_eq) str_eq ?s"
    by (rule sys_step_ok [OF s1 ok example_libraries str_mixer.mixer_map_axioms])
  note p = sys_part [OF ok1 at]
  obtain out' w' P where st: "out_worker_step env_example (sys_zone ?s) (st_out ?y, st_worker ?y, sys_pcm ?s) (out', w', P)"
    using locked_part(1) [OF p(1) example_libraries mixer_map.axioms(1) [OF str_mixer.mixer_map_axioms] p(3)] sec by (metis out_section.distinct prod_cases3)
  let ?z = "?y\<lparr>st_out := out', st_worker := w'\<rparr>"
  have s2: "system_step env_example ?s [] (set_thread 0 (Some ?z) P ?s)" using sec by (intro sys_locked [OF at _ st]) simp
  have single: "single_writers str_eq sys_one" "single_writers str_eq ?s"
    by (auto simp: single_writers_def sys_one_thread split: if_splits)
  have "system_run env_example str_eq sys_one ([] @ [(0, ?bs)]) ?s" by (rule run_more [OF run_start single(1) s1])
  from run_more [OF this single(2) s2] have "system_run env_example str_eq sys_one [(0, ?bs)] (set_thread 0 (Some ?z) P ?s)" by simp
  moreover have "thread_at (set_thread 0 (Some ?z) P ?s) 0 = Some ?z" by (simp add: sys_one_def)
  ultimately show ?thesis by blast
qed


end
