(* ===== verification/Audio_In.thy ===== *)
theory Audio_In
  imports Audio_Out_Write
begin

text \<open>
  The input stream of \<open>hals/audio/driver/audio_hw.c\<close>: its record and parameters, the capture
  position, standby, the tone generator and \<open>in_read\<close>. The clock, the device's mic mute flag,
  \<open>realloc\<close>, \<open>sin\<close> and the platform's frame size function are arguments.
\<close>

section \<open>State\<close>

record oscillator =
  phase :: real
  phase_increment :: real

record generic_stream_in =
  si_device :: u32
  si_req_config :: audio_config
  si_pcm_config :: pcm_config
  si_stereo_to_mono_buf :: "bytes option"
  si_stereo_to_mono_buf_size :: size_t
  si_buffer :: audio_vbuffer
  si_bus_address :: "string option"
  si_standby :: bool
  si_standby_position :: int
  si_standby_exit_time :: timespec
  si_standby_frames_read :: int
  si_worker_standby :: bool
  si_worker_exit :: bool
  si_oscillator :: oscillator

text \<open>Device codes of the platform's audio header.\<close>

abbreviation (input) AUDIO_DEVICE_IN_FM_TUNER :: u32 where "AUDIO_DEVICE_IN_FM_TUNER \<equiv> 0x80002000"
abbreviation (input) AUDIO_DEVICE_IN_BUS :: u32 where "AUDIO_DEVICE_IN_BUS \<equiv> 0x80100000"
abbreviation (input) AUDIO_DEVICE_IN_BACK_MIC :: u32 where "AUDIO_DEVICE_IN_BACK_MIC \<equiv> 0x80000080"
abbreviation (input) AUDIO_DEVICE_IN_BUILTIN_MIC :: u32 where "AUDIO_DEVICE_IN_BUILTIN_MIC \<equiv> 0x80000004"

section \<open>Parameters of the stream\<close>

definition in_get_sample_rate :: "generic_stream_in \<Rightarrow> u32" where
  "in_get_sample_rate in_s = sample_rate (si_req_config in_s)"

definition in_set_sample_rate :: "generic_stream_in \<Rightarrow> u32 \<Rightarrow> int" where
  "in_set_sample_rate in_s rate = - ENOSYS"

definition in_get_buffer_size :: "properties \<Rightarrow> period_statics \<Rightarrow> generic_stream_in \<Rightarrow> size_t \<times> period_statics" where
  "in_get_buffer_size props st in_s =
     (case get_input_buffer_size props st (si_req_config in_s) of
        (n, st') \<Rightarrow> (int_to_size (size_to_int n), st'))"

definition in_get_channels :: "generic_stream_in \<Rightarrow> u32" where
  "in_get_channels in_s = channel_mask (si_req_config in_s)"

definition in_get_format :: "generic_stream_in \<Rightarrow> u32" where
  "in_get_format in_s = format (si_req_config in_s)"

definition in_set_format :: "generic_stream_in \<Rightarrow> u32 \<Rightarrow> int" where
  "in_set_format in_s fmt = - ENOSYS"

definition in_set_parameters ::
    "(string \<Rightarrow> str_parms) \<Rightarrow> generic_stream_in \<Rightarrow> string \<Rightarrow> generic_stream_in \<times> int" where
  "in_set_parameters str_parms_create_str in_s kvpairs =
     (if \<not> si_standby in_s then (in_s, - ENOSYS)
      else case get_int_value (str_parms_create_str kvpairs) AUDIO_PARAMETER_STREAM_ROUTING of
             (ret, val) \<Rightarrow>
               if 0 \<le> ret then (in_s\<lparr>si_device := word_of_int (case val of None \<Rightarrow> 0 | Some v \<Rightarrow> v)\<rparr>, 0)
               else (in_s, ret))"

definition in_get_parameters ::
    "(string \<Rightarrow> str_parms) \<Rightarrow> (string \<Rightarrow> int \<Rightarrow> string) \<Rightarrow> generic_stream_in \<Rightarrow> string \<Rightarrow> string" where
  "in_get_parameters str_parms_create_str reply in_s keys =
     (if 0 \<le> fst (str_parms_create_str keys AUDIO_PARAMETER_STREAM_ROUTING 256)
      then reply AUDIO_PARAMETER_STREAM_ROUTING (sint (si_device in_s)) else keys)"

definition in_set_gain :: "generic_stream_in \<Rightarrow> real \<Rightarrow> int" where
  "in_set_gain in_s gain = 0"

definition in_get_input_frames_lost :: "generic_stream_in \<Rightarrow> u32" where
  "in_get_input_frames_lost in_s = 0"

definition in_add_audio_effect :: "generic_stream_in \<Rightarrow> 'e \<Rightarrow> int" where
  "in_add_audio_effect in_s effect = 0"

definition in_remove_audio_effect :: "generic_stream_in \<Rightarrow> 'e \<Rightarrow> int" where
  "in_remove_audio_effect in_s effect = 0"

text \<open>\<open>None\<close> is \<open>strstr\<close> on a null bus address.\<close>

definition is_tone_generator_device :: "generic_stream_in \<Rightarrow> bool option" where
  "is_tone_generator_device in_s =
     (if si_device in_s = AUDIO_DEVICE_IN_FM_TUNER then Some True
      else if si_device in_s = AUDIO_DEVICE_IN_BUS then map_option address_has_tone_keyword (si_bus_address in_s)
      else Some False)"

definition is_microphone_device :: "generic_stream_in \<Rightarrow> bool" where
  "is_microphone_device in_s \<longleftrightarrow>
     si_device in_s = AUDIO_DEVICE_IN_BACK_MIC \<or> si_device in_s = AUDIO_DEVICE_IN_BUILTIN_MIC"

section \<open>Position and standby\<close>

definition get_current_input_position :: "timespec \<Rightarrow> generic_stream_in \<Rightarrow> int" where
  "get_current_input_position t in_s =
     to_int64 (si_standby_position in_s +
       (if si_standby in_s then 0
        else position_since (in_get_sample_rate in_s) (si_standby_exit_time in_s) t))"

definition do_in_standby :: "timespec \<Rightarrow> generic_stream_in \<Rightarrow> generic_stream_in" where
  "do_in_standby t in_s =
     (if si_standby in_s then in_s
      else in_s\<lparr>si_worker_standby := True, si_standby_position := get_current_input_position t in_s,
                si_standby := True\<rparr>)"

definition in_standby :: "timespec \<Rightarrow> generic_stream_in \<Rightarrow> generic_stream_in \<times> int" where
  "in_standby t in_s = (do_in_standby t in_s, 0)"

definition in_get_capture_position :: "timespec \<Rightarrow> generic_stream_in \<Rightarrow> int \<times> int \<times> int" where
  "in_get_capture_position t in_s =
     (0, get_current_input_position t in_s, to_int64 (tv_sec t * 1000000000 + tv_nsec t))"

section \<open>The tone generator\<close>

text \<open>\<open>TWO_PI\<close> is the source's \<open>double\<close> product of the literal 3.14159265.\<close>

definition TWO_PI :: real where "TWO_PI = to_double (2 * to_double (314159265 / 100000000))"

fun pseudo_pcm_samples :: "(real \<Rightarrow> real) \<Rightarrow> nat \<Rightarrow> oscillator \<Rightarrow> s16 list \<times> oscillator" where
  "pseudo_pcm_samples c_sin 0 osc = ([], osc)"
| "pseudo_pcm_samples c_sin (Suc n) osc =
     (let sample = word_of_int (c_trunc (to_double (c_sin (phase osc) * 4096)));
          p = to_float (phase osc + phase_increment osc);
          p = (if TWO_PI < p then to_float (to_double (p - TWO_PI)) else p);
          (samples, osc') = pseudo_pcm_samples c_sin n (osc\<lparr>phase := p\<rparr>)
      in (sample # samples, osc'))"

text \<open>\<open>pseudo_pcm_read\<close>: the buffer, the oscillator and the returned count.\<close>

definition pseudo_pcm_read :: "(real \<Rightarrow> real) \<Rightarrow> bytes \<Rightarrow> u32 \<Rightarrow> oscillator \<Rightarrow> (bytes \<times> oscillator \<times> int) option" where
  "pseudo_pcm_read c_sin dat count osc =
     (let n = unat count div 2; (samples, osc') = pseudo_pcm_samples c_sin n osc
      in if length dat < 2 * n then None
         else Some (samples_to_bytes samples @ drop (2 * n) dat, osc', to_int32 (uint count)))"

section \<open>Reading\<close>

text \<open>The first of every two 16 bit samples, as the loop over \<open>frames\<close> copies them.\<close>

fun drop_channel :: "nat \<Rightarrow> s16 list \<Rightarrow> s16 list \<Rightarrow> s16 list option" where
  "drop_channel 0 src dst = Some dst"
| "drop_channel (Suc n) (l # r # src) (d # dst) = map_option (Cons l) (drop_channel n src dst)"
| "drop_channel (Suc n) _ _ = None"

text \<open>
  The branch that turns the stereo ring into mono; \<open>realloc n old\<close> is the C library's. A failed
  allocation reads nothing.
\<close>

definition in_read_mono ::
    "(nat \<Rightarrow> bytes option \<Rightarrow> bytes option) \<Rightarrow> generic_stream_in \<Rightarrow> bytes \<Rightarrow> size_t \<Rightarrow> size_t \<Rightarrow>
     (generic_stream_in \<times> bytes \<times> int) option" where
  "in_read_mono realloc in_s buf nbytes frames =
     (let mono = (if si_stereo_to_mono_buf_size in_s < nbytes * 2
                  then realloc (unat (nbytes * 2)) (si_stereo_to_mono_buf in_s) else si_stereo_to_mono_buf in_s)
      in case mono of
           None \<Rightarrow> Some (in_s\<lparr>si_stereo_to_mono_buf := None\<rparr>, buf, 0)
         | Some m \<Rightarrow>
            Option.bind (audio_vbuffer_read (si_buffer in_s) m frames) (\<lambda>(vb, m, k).
              map_option (\<lambda>dst. (in_s\<lparr>si_buffer := vb, si_stereo_to_mono_buf := Some m\<rparr>,
                                 samples_to_bytes dst @ drop (2 * (length buf div 2)) buf, size_to_int k))
                (drop_channel (unat frames) (bytes_to_samples m) (bytes_to_samples buf))))"

text \<open>
  The part of \<open>in_read\<close> after the sleep, with the lock held again: the stream, the caller's
  buffer and \<open>read_frames\<close>.
\<close>

definition in_read_data ::
    "(audio_config \<Rightarrow> size_t) \<Rightarrow> (real \<Rightarrow> real) \<Rightarrow> (nat \<Rightarrow> bytes option \<Rightarrow> bytes option) \<Rightarrow> bool \<Rightarrow>
     generic_stream_in \<Rightarrow> bytes \<Rightarrow> size_t \<Rightarrow> size_t \<Rightarrow> (generic_stream_in \<times> bytes \<times> int) option" where
  "in_read_data frame_size_of c_sin realloc is_tone_generator in_s buf nbytes frames =
     (if si_standby in_s then Some (in_s, buf, 0)
      else
        let in_s = in_s\<lparr>si_standby_frames_read := to_int64 (si_standby_frames_read in_s + uint frames)\<rparr> in
        if is_tone_generator then
          map_option (\<lambda>(buf, osc, n). (in_s\<lparr>si_oscillator := osc\<rparr>, buf,
                       size_to_int (int_to_size n div frame_size_of (si_req_config in_s))))
            (pseudo_pcm_read c_sin buf (ucast nbytes) (si_oscillator in_s))
        else if popcount (channel_mask (si_req_config in_s)) = 1 \<and> pc_channels (si_pcm_config in_s) = 2 then
          in_read_mono realloc in_s buf nbytes frames
        else map_option (\<lambda>(vb, buf, k). (in_s\<lparr>si_buffer := vb\<rparr>, buf, size_to_int k))
               (audio_vbuffer_read (si_buffer in_s) buf frames))"

text \<open>
  Before the sleep: leaving standby and the number of frames to wait for; the assertion of the
  source is the \<open>None\<close>.
\<close>

definition in_read_begin :: "timespec \<Rightarrow> generic_stream_in \<Rightarrow> size_t \<Rightarrow> (generic_stream_in \<times> int) option" where
  "in_read_begin t in_s frames =
     (let in_s = in_s\<lparr>si_worker_standby := False\<rparr>;
          current_position = get_current_input_position t in_s;
          in_s = (if si_standby in_s
                  then in_s\<lparr>si_standby := False, si_standby_exit_time := t, si_standby_frames_read := 0\<rparr> else in_s);
          frames_available = to_int64 (current_position - si_standby_position in_s - si_standby_frames_read in_s)
      in if frames_available < 0 then None
         else let frames_wait = (if frames < word_of_int frames_available then 0
                                 else frames - word_of_int frames_available)
              in Some (in_s, sint ((frames_wait * 1000000) div ucast (in_get_sample_rate in_s))))"

text \<open>
  \<open>in_read\<close>. \<open>slept us\<close> is what happens to the stream during the sleep. The end of the buffer
  that was not read is silence.
\<close>

definition in_read ::
    "(audio_config \<Rightarrow> size_t) \<Rightarrow> (real \<Rightarrow> real) \<Rightarrow> (nat \<Rightarrow> bytes option \<Rightarrow> bytes option) \<Rightarrow> bool \<Rightarrow>
     (int \<Rightarrow> generic_stream_in \<Rightarrow> generic_stream_in) \<Rightarrow> timespec \<Rightarrow> generic_stream_in \<Rightarrow> bytes \<Rightarrow> size_t \<Rightarrow>
     (generic_stream_in \<times> bytes \<times> int) option" where
  "in_read frame_size_of c_sin realloc mic_mute slept t in_s buf nbytes =
     (let fs = frame_size_of (si_req_config in_s); frames = nbytes div fs;
          read_mute = (mic_mute \<and> is_microphone_device in_s)
      in if fs = 0 \<or> in_get_sample_rate in_s = 0 then None
         else
           Option.bind (is_tone_generator_device in_s) (\<lambda>is_tone_generator.
           Option.bind (in_read_begin t in_s frames) (\<lambda>(in_s, sleep_time_us).
           Option.bind (in_read_data frame_size_of c_sin realloc is_tone_generator
                          (if 0 < sleep_time_us then slept sleep_time_us in_s else in_s) buf nbytes frames)
             (\<lambda>(in_s, buf, read_frames).
               let read_bytes = (if read_mute then 0 else int_to_size read_frames * fs)
               in if unat nbytes \<le> length buf
                  then Some (in_s, take (unat read_bytes) buf @ replicate (unat nbytes - unat read_bytes) 0 @
                                   drop (max (unat nbytes) (unat read_bytes)) buf, to_int64 (uint nbytes))
                  else None))))"
section \<open>Lemmas\<close>

lemma bytes_to_samples_append:
  "even (length a) \<Longrightarrow> bytes_to_samples (a @ b) = bytes_to_samples a @ bytes_to_samples b"
  by (induction a rule: bytes_to_samples.induct) auto

lemma bytes_to_samples_div: "length (bytes_to_samples bs) = length bs div 2"
  by (induction bs rule: bytes_to_samples.induct) auto

lemma take_samples_prefix:
  "k \<le> length ss \<Longrightarrow> take (2 * k) (samples_to_bytes ss @ rest) = samples_to_bytes (take k ss)"
  by (simp add: take_samples_to_bytes)

text \<open>The samples of a common prefix agree.\<close>

lemma bytes_to_samples_prefix:
  assumes "2 * i + 2 \<le> n" and "n \<le> length c" and "even n"
  shows "bytes_to_samples (take n c @ d) ! i = bytes_to_samples c ! i"
proof -
  have e: "even (length (take n c))" using assms by simp
  have l: "i < length (bytes_to_samples (take n c))" using assms by (simp add: bytes_to_samples_div)
  have "bytes_to_samples c = bytes_to_samples (take n c) @ bytes_to_samples (drop n c)"
    using bytes_to_samples_append [OF e, of "drop n c"] by simp
  then have "bytes_to_samples c ! i = bytes_to_samples (take n c) ! i" using l by (simp add: nth_append)
  then show ?thesis using l by (simp add: bytes_to_samples_append [OF e] nth_append)
qed

lemma drop_channel_some:
  "2 * n \<le> length src \<Longrightarrow> n \<le> length dst \<Longrightarrow>
     drop_channel n src dst = Some (map (\<lambda>i. src ! (2 * i)) [0..<n] @ drop n dst)"
proof (induction n arbitrary: src dst)
  case (Suc n)
  obtain l r src' where src: "src = l # r # src'" using Suc.prems(1) by (cases src; cases "tl src") auto
  obtain d dst' where dst: "dst = d # dst'" using Suc.prems(2) by (cases dst) auto
  have "map (\<lambda>i. src ! (2 * i)) [0..<Suc n] = l # map (\<lambda>i. src' ! (2 * i)) [0..<n]"
    by (simp add: src map_upt_Suc del: upt_Suc)
  then show ?case using Suc.IH [of src' dst'] Suc.prems by (simp add: src dst)
qed simp

lemma read_begin_fields:
  assumes "in_read_begin t in_s frames = Some (in1, us)"
  shows "\<not> si_standby in1" "\<not> si_worker_standby in1" "si_buffer in1 = si_buffer in_s"
    "si_req_config in1 = si_req_config in_s" "si_pcm_config in1 = si_pcm_config in_s"
    "si_stereo_to_mono_buf in1 = si_stereo_to_mono_buf in_s"
    "si_stereo_to_mono_buf_size in1 = si_stereo_to_mono_buf_size in_s" "si_oscillator in1 = si_oscillator in_s"
    "si_standby_position in1 = si_standby_position in_s" "si_device in1 = si_device in_s"
  using assms by (auto simp: in_read_begin_def Let_def split: if_splits)

text \<open>The end of \<open>in_read\<close>: what was read, then silence.\<close>

lemma silence_tail:
  assumes "n \<le> length buf" and "k \<le> n"
  shows "length (take k buf @ replicate (n - k) z @ drop (max n k) buf) = length buf"
    and "take n (take k buf @ replicate (n - k) z @ drop (max n k) buf) = take k buf @ replicate (n - k) z"
    and "drop n (take k buf @ replicate (n - k) z @ drop (max n k) buf) = drop n buf"
proof -
  have "k \<le> length buf" "max n k = n" using assms by simp_all
  then show "length (take k buf @ replicate (n - k) z @ drop (max n k) buf) = length buf"
    and "take n (take k buf @ replicate (n - k) z @ drop (max n k) buf) = take k buf @ replicate (n - k) z"
    and "drop n (take k buf @ replicate (n - k) z @ drop (max n k) buf) = drop n buf"
    using assms by (simp_all add: min_absorb2)
qed

lemma frames_back:
  assumes "vb_ok v" and "k = min n (vb_level v)" and "k * unat fs < 2 ^ 64"
  shows "unat (int_to_size (size_to_int (of_nat k)) * fs) = k * unat fs"
proof -
  have k31: "k < 2 ^ 31" using vb.level_le [OF assms(1)] vb.cap_small [OF assms(1)] assms(2) by simp
  then have "unat (of_nat k :: size_t) = k" by (intro unat_of_nat_size) simp
  then have "int_to_size (size_to_int (of_nat k)) = of_nat k" using k31
    by (subst size_to_int_small) (simp_all add: int_to_size_nat)
  then show ?thesis using \<open>unat (of_nat k :: size_t) = k\<close> assms(3) by (simp add: unat_mult_bounded)
qed

text \<open>\<open>in_read\<close> from the result of its data part on.\<close>

lemma in_read_run:
  assumes "frame_size_of (si_req_config in_s) = fs" and "fs \<noteq> 0" and "in_get_sample_rate in_s \<noteq> 0"
    and "is_tone_generator_device in_s = Some tone" and "in_read_begin t in_s (nbytes div fs) = Some (in1, us)"
    and "in_read_data frame_size_of c_sin realloc tone (if 0 < us then slept us in1 else in1) buf nbytes (nbytes div fs) =
      Some (in', b, rf)"
    and "r = (if mic_mute \<and> is_microphone_device in_s then 0 else unat (int_to_size rf * fs))"
    and "r \<le> unat nbytes" and "unat nbytes \<le> length b"
  shows "\<exists>buf'. in_read frame_size_of c_sin realloc mic_mute slept t in_s buf nbytes =
      Some (in', buf', to_int64 (uint nbytes)) \<and>
    length buf' = length b \<and> drop (unat nbytes) buf' = drop (unat nbytes) b \<and>
    take (unat nbytes) buf' = take r b @ replicate (unat nbytes - r) 0"
proof -
  let ?buf = "take r b @ replicate (unat nbytes - r) 0 @ drop (max (unat nbytes) r) b"
  have r: "unat (if mic_mute \<and> is_microphone_device in_s then 0 else int_to_size rf * fs) = r"
    by (simp add: assms(7))
  have "in_read frame_size_of c_sin realloc mic_mute slept t in_s buf nbytes =
      Some (in', ?buf, to_int64 (uint nbytes))"
    using assms(2-6,9) unfolding in_read_def Let_def assms(1) by (simp add: r)
  then show ?thesis using silence_tail [OF assms(9,8), of 0] by blast
qed

section \<open>Properties\<close>

text \<open>
  C24. Reading from a stream that delivers as many channels as the ring holds, and stays out of
  standby: the caller gets the oldest whole frames of the ring, as many as it asked for and the
  ring has, followed by silence up to \<open>bytes\<close>; exactly those frames leave the ring. With the
  microphone muted a microphone stream delivers only silence, and the frames leave all the same.
\<close>

theorem in_read_delivers:
  assumes "vb_ok (si_buffer in_s)" and "vb_fs (si_buffer in_s) = unat fs" and "frame_size_of (si_req_config in_s) = fs"
    and "fs \<noteq> 0" and "in_get_sample_rate in_s \<noteq> 0" and "is_tone_generator_device in_s = Some False"
    and "\<not> (popcount (channel_mask (si_req_config in_s)) = 1 \<and> pc_channels (si_pcm_config in_s) = 2)"
    and "in_read_begin t in_s (nbytes div fs) = Some (in1, us)" and "\<And>us o'. slept us o' = o'"
    and "unat nbytes \<le> length buf" and "length buf < 2 ^ 64"
    and "k = min (unat nbytes div unat fs) (vb_level (si_buffer in_s))"
    and "heard = (if mic_mute \<and> is_microphone_device in_s then [] else take (k * unat fs) (vb_contents (si_buffer in_s)))"
  shows "\<exists>in' buf'. in_read frame_size_of c_sin realloc mic_mute slept t in_s buf nbytes =
      Some (in', buf', to_int64 (uint nbytes)) \<and>
    length buf' = length buf \<and> drop (unat nbytes) buf' = drop (unat nbytes) buf \<and>
    take (unat nbytes) buf' = heard @ replicate (unat nbytes - length heard) 0 \<and>
    vb_ok (si_buffer in') \<and> vb_contents (si_buffer in') = drop (k * unat fs) (vb_contents (si_buffer in_s))"
proof -
  let ?v = "si_buffer in_s" and ?n = "nbytes div fs"
  note f = read_begin_fields [OF assms(8)]
  have n: "unat ?n = unat nbytes div unat fs" by (rule unat_div)
  have "unat ?n * unat fs \<le> unat nbytes" by (simp add: n)
  then have pre: "unat ?n * vb_fs ?v \<le> length buf" using assms(2,10) by simp
  have kn: "k * unat fs \<le> unat nbytes div unat fs * unat fs" unfolding assms(12) by (intro mult_right_mono) simp_all
  also have "\<dots> \<le> unat nbytes" by simp
  finally have k: "k * unat fs \<le> unat nbytes" .
  obtain v' where v': "audio_vbuffer_read ?v buf ?n =
      Some (v', take (k * unat fs) (vb_contents ?v) @ drop (k * unat fs) buf, of_nat k)" "vb_ok v'"
    "vb_contents v' = drop (k * unat fs) (vb_contents ?v)"
    using vb.read_law [OF assms(1) pre assms(11)] unfolding n assms(2) assms(12) [symmetric] by blast
  let ?b = "take (k * unat fs) (vb_contents ?v) @ drop (k * unat fs) buf"
  have l: "length (vb_contents ?v) = vb_level ?v * unat fs" using vb.contents_length [OF assms(1)] assms(2) by simp
  have "k * unat fs \<le> vb_level ?v * unat fs" unfolding assms(12) by (intro mult_right_mono) simp_all
  then have kl: "length (take (k * unat fs) (vb_contents ?v)) = k * unat fs"
    unfolding length_take l by (rule min_absorb2)
  have b: "length ?b = length buf" "take (k * unat fs) ?b = take (k * unat fs) (vb_contents ?v)"
    "drop (unat nbytes) ?b = drop (unat nbytes) buf"
    using kl k assms(10) by (simp_all del: length_take)
  have "k * unat fs < 2 ^ 64" using k unsigned_less [of nbytes, where ?'a = nat] by simp
  then have rb: "unat (int_to_size (size_to_int (of_nat k)) * fs) = k * unat fs"
    by (rule frames_back [OF assms(1,12)])
  let ?in = "in1\<lparr>si_standby_frames_read := to_int64 (si_standby_frames_read in1 + uint ?n), si_buffer := v'\<rparr>"
  let ?r = "if mic_mute \<and> is_microphone_device in_s then 0 else unat (int_to_size (size_to_int (of_nat k)) * fs)"
  have "in_read_data frame_size_of c_sin realloc False in1 buf nbytes ?n = Some (?in, ?b, size_to_int (of_nat k))"
    using f assms(7) v'(1) by (auto simp: in_read_data_def Let_def)
  then have dat: "in_read_data frame_size_of c_sin realloc False (if 0 < us then slept us in1 else in1) buf nbytes ?n =
      Some (?in, ?b, size_to_int (of_nat k))" by (simp only: assms(9) if_cancel)
  have r: "?r \<le> unat nbytes" "unat nbytes \<le> length ?b" using k assms(10) b(1) rb by simp_all
  have heard: "take ?r ?b = heard" "length heard = ?r" using b(2) kl rb by (simp_all add: assms(13))
  from in_read_run [where slept = slept and in_s = in_s and r = ?r, OF assms(3-6,8) dat refl r] obtain buf' where
    "in_read frame_size_of c_sin realloc mic_mute slept t in_s buf nbytes = Some (?in, buf', to_int64 (uint nbytes))"
    "length buf' = length ?b" "drop (unat nbytes) buf' = drop (unat nbytes) ?b"
    "take (unat nbytes) buf' = heard @ replicate (unat nbytes - length heard) 0"
    unfolding heard by blast
  moreover have "si_buffer ?in = v'" by simp
  ultimately show ?thesis using v'(2,3) b(1,3) by (intro exI [of _ ?in] exI [of _ buf']) (simp only: simp_thms)
qed

definition si_example :: generic_stream_in where
  "si_example = \<lparr>si_device = AUDIO_DEVICE_IN_BUILTIN_MIC,
     si_req_config = \<lparr>sample_rate = 8000, channel_mask = 0xC, format = 1\<rparr>,
     si_pcm_config = \<lparr>pc_channels = 2, pc_rate = 8000, pc_period_size = 120, pc_period_count = 4, pc_format = 0,
       pc_stop_threshold = 0x7FFFFFFF\<rparr>,
     si_stereo_to_mono_buf = None, si_stereo_to_mono_buf_size = 0, si_buffer = vb_example, si_bus_address = None,
     si_standby = True, si_standby_position = 0, si_standby_exit_time = \<lparr>tv_sec = 0, tv_nsec = 0\<rparr>,
     si_standby_frames_read = 0, si_worker_standby = True, si_worker_exit = False,
     si_oscillator = \<lparr>phase = 0, phase_increment = 0\<rparr>\<rparr>"

lemma si_example_begin:
  "\<exists>in1 us. in_read_begin \<lparr>tv_sec = 1, tv_nsec = 0\<rparr> si_example 2 = Some (in1, us)"
  by (simp add: in_read_begin_def si_example_def get_current_input_position_def to_int64_id Let_def)

lemma si_example_facts:
  "vb_ok (si_buffer si_example)" "vb_fs (si_buffer si_example) = unat (2 :: size_t)"
  "in_get_sample_rate si_example \<noteq> 0" "is_tone_generator_device si_example = Some False"
  "popcount (channel_mask (si_req_config si_example)) = 2" "is_microphone_device si_example"
  "vb_contents (si_buffer si_example) = [5, 6]" "vb_level (si_buffer si_example) = 1"
  by (simp_all add: si_example_def in_get_sample_rate_def is_tone_generator_device_def is_microphone_device_def
      vb_example_ok vb_example_def [THEN arg_cong [where f = frame_size]]
      vb_example_def [THEN arg_cong [where f = live]])

theorem in_read_delivers_witness:
  "(\<exists>in' buf'. in_read (\<lambda>_. 2) sin (\<lambda>_ b. b) False (\<lambda>_ o'. o') \<lparr>tv_sec = 1, tv_nsec = 0\<rparr> si_example [9, 9, 9, 9] 4 =
     Some (in', buf', 4) \<and> take 4 buf' = [5, 6, 0, 0] \<and> vb_contents (si_buffer in') = [])"
proof -
  obtain in1 us where b: "in_read_begin \<lparr>tv_sec = 1, tv_nsec = 0\<rparr> si_example 2 = Some (in1, us)"
    using si_example_begin by blast
  have "(4 :: size_t) div 2 = 2" by simp
  then have b': "in_read_begin \<lparr>tv_sec = 1, tv_nsec = 0\<rparr> si_example (4 div 2) = Some (in1, us)"
    by (simp only: b)
  have k: "(1 :: nat) = min (unat (4 :: size_t) div unat (2 :: size_t)) (vb_level (si_buffer si_example))"
    unfolding si_example_facts(8) by simp
  have h: "[5, 6] = (if False \<and> is_microphone_device si_example then []
      else take (1 * unat (2 :: size_t)) (vb_contents (si_buffer si_example)))"
    by (simp add: si_example_facts(7))
  have n: "\<not> (popcount (channel_mask (si_req_config si_example)) = 1 \<and> pc_channels (si_pcm_config si_example) = 2)"
    by (simp add: si_example_facts(5))
  obtain in' buf' where r: "in_read (\<lambda>_. 2) sin (\<lambda>_ b. b) False (\<lambda>_ o'. o') \<lparr>tv_sec = 1, tv_nsec = 0\<rparr> si_example [9, 9, 9, 9] 4 =
      Some (in', buf', to_int64 (uint (4 :: size_t)))"
    "take (unat (4 :: size_t)) buf' = [5, 6] @ replicate (unat (4 :: size_t) - length [5 :: 8 word, 6]) 0"
    "vb_contents (si_buffer in') = drop (1 * unat (2 :: size_t)) (vb_contents (si_buffer si_example))"
    using in_read_delivers [where frame_size_of = "\<lambda>_. 2" and slept = "\<lambda>_ o'. o'" and buf = "[9, 9, 9, 9]" and c_sin = sin
        and realloc = "\<lambda>_ b. b", OF si_example_facts(1,2) refl _ si_example_facts(3,4) n b' refl _ _ k h]
    by auto
  moreover have "replicate 2 (0 :: 8 word) = [0, 0]" by (simp add: numeral_2_eq_2)
  ultimately show ?thesis by (simp add: to_int64_id si_example_facts(7))
qed

text \<open>
  Reading a mono stream from the stereo ring: output sample \<open>i\<close> is the left sample of the
  \<open>i\<close>-th frame in the ring, for as many frames as were asked for and the ring has; the rest of the
  buffer is silence, whatever the unread part of the conversion buffer held.
\<close>

theorem in_read_mono_left_channel:
  assumes "vb_ok (si_buffer in_s)" and "vb_fs (si_buffer in_s) = 4" and "frame_size_of (si_req_config in_s) = 2"
    and "in_get_sample_rate in_s \<noteq> 0" and "is_tone_generator_device in_s = Some False"
    and "popcount (channel_mask (si_req_config in_s)) = 1" and "pc_channels (si_pcm_config in_s) = 2"
    and "in_read_begin t in_s (nbytes div 2) = Some (in1, us)" and "\<And>us o'. slept us o' = o'"
    and "unat nbytes \<le> length buf" and "unat nbytes < 2 ^ 63" and "even (unat nbytes)" and "nbytes \<noteq> 0"
    and "\<And>n b. \<exists>m. realloc n b = Some m \<and> length m = n" and "si_stereo_to_mono_buf_size in_s = 0"
    and "k = min (unat nbytes div 2) (vb_level (si_buffer in_s))"
    and "heard = samples_to_bytes (map (\<lambda>i. bytes_to_samples (vb_contents (si_buffer in_s)) ! (2 * i)) [0..<k])"
  shows "\<exists>in' buf'. in_read frame_size_of c_sin realloc False slept t in_s buf nbytes =
      Some (in', buf', to_int64 (uint nbytes)) \<and>
    length buf' = length buf \<and> take (unat nbytes) buf' = heard @ replicate (unat nbytes - length heard) 0 \<and>
    vb_contents (si_buffer in') = drop (4 * k) (vb_contents (si_buffer in_s))"
proof -
  let ?v = "si_buffer in_s" and ?n = "nbytes div 2"
  note f = read_begin_fields [OF assms(8)]
  have n: "unat ?n = unat nbytes div 2" by (simp add: unat_div)
  have two: "unat (nbytes * 2) = 2 * unat nbytes" using assms(11) by (subst unat_mult_bounded) simp_all
  obtain m where m: "realloc (unat (nbytes * 2)) (si_stereo_to_mono_buf in_s) = Some m" "length m = 2 * unat nbytes"
    using assms(14) unfolding two by blast
  have kn: "k \<le> unat nbytes div 2" "2 * k \<le> unat nbytes" "4 * k \<le> 2 * unat nbytes" by (auto simp: assms(16))
  have pre: "unat ?n * vb_fs ?v \<le> length m" "length m < 2 ^ 64"
    using assms(11,12) by (simp_all add: n m(2) assms(2))
  obtain v' where v': "audio_vbuffer_read ?v m ?n = Some (v', take (k * 4) (vb_contents ?v) @ drop (k * 4) m, of_nat k)"
    "vb_contents v' = drop (k * 4) (vb_contents ?v)"
    using vb.read_law [OF assms(1) pre] unfolding n assms(2) assms(16) [symmetric] by blast
  let ?m = "take (k * 4) (vb_contents ?v) @ drop (k * 4) m"
  have l: "length (vb_contents ?v) = vb_level ?v * 4" using vb.contents_length [OF assms(1)] assms(2) by simp
  have kl: "k * 4 \<le> length (vb_contents ?v)" unfolding l assms(16) by simp
  have lm: "length ?m = 2 * unat nbytes" using kl kn(3) m(2) by simp
  have lms: "length (bytes_to_samples ?m) = unat nbytes"
    unfolding bytes_to_samples_div lm by simp
  let ?c = "vb_contents ?v" and ?N = "unat nbytes div 2"
  let ?left = "map (\<lambda>i. bytes_to_samples ?m ! (2 * i)) [0..<?N]"
  let ?dst = "?left @ drop ?N (bytes_to_samples buf)"
  let ?b = "samples_to_bytes ?dst @ drop (2 * (length buf div 2)) buf"
  have sb: "?N \<le> length (bytes_to_samples buf)" "length (bytes_to_samples buf) = length buf div 2"
    using assms(10) bytes_to_samples_div [of buf] by (simp_all add: div_le_mono)
  have dc: "drop_channel (unat ?n) (bytes_to_samples ?m) (bytes_to_samples buf) = Some ?dst"
    unfolding n using lms sb(1) by (intro drop_channel_some) simp_all
  have lb: "length ?b = length buf" using sb by simp
  have left: "bytes_to_samples ?m ! (2 * i) = bytes_to_samples ?c ! (2 * i)" if "i < k" for i
    using that kl by (intro bytes_to_samples_prefix) simp_all
  have "take k ?dst = map (\<lambda>i. bytes_to_samples ?c ! (2 * i)) [0..<k]"
    using kn(1) left by (simp add: take_map)
  moreover have "k \<le> length ?dst" using kn(1) sb by simp
  ultimately have heard: "take (2 * k) ?b = heard" "length heard = 2 * k"
    unfolding assms(17) by (simp_all only: take_samples_prefix samples_bytes_length length_map length_upt diff_zero)
  have "0 < nbytes * 2" using two assms(13) by (simp add: word_less_nat_alt unat_gt_0)
  let ?in = "in1\<lparr>si_standby_frames_read := to_int64 (si_standby_frames_read in1 + uint ?n),
    si_buffer := v', si_stereo_to_mono_buf := Some ?m\<rparr>"
  have "in_read_mono realloc (in1\<lparr>si_standby_frames_read := to_int64 (si_standby_frames_read in1 + uint ?n)\<rparr>)
      buf nbytes ?n = Some (?in, ?b, size_to_int (of_nat k))"
    using f m(1) v'(1) dc \<open>0 < nbytes * 2\<close> assms(15) unfolding in_read_mono_def Let_def by simp
  moreover have "si_req_config (in1\<lparr>si_standby_frames_read := x\<rparr>) = si_req_config in_s"
    "si_pcm_config (in1\<lparr>si_standby_frames_read := x\<rparr>) = si_pcm_config in_s" for x
    using f(4,5) by simp_all
  ultimately have dat:
    "in_read_data frame_size_of c_sin realloc False (if 0 < us then slept us in1 else in1) buf nbytes ?n =
      Some (?in, ?b, size_to_int (of_nat k))"
    using f(1) assms(6,7) by (simp only: assms(9) if_cancel in_read_data_def Let_def if_False if_True simp_thms)
  have "k * unat (2 :: size_t) < 2 ^ 64" using kn(2) assms(11) by simp
  then have rb: "unat (int_to_size (size_to_int (of_nat k)) * 2) = 2 * k"
    using frames_back [OF assms(1,16), of 2] by simp
  let ?r = "if False \<and> is_microphone_device in_s then 0 else unat (int_to_size (size_to_int (of_nat k)) * 2)"
  have r: "?r \<le> unat nbytes" "unat nbytes \<le> length ?b" using kn(2) assms(10) lb rb by simp_all
  from in_read_run [where slept = slept and in_s = in_s and r = ?r, OF assms(3) _ assms(4,5,8) dat refl r]
  obtain buf' where
    "in_read frame_size_of c_sin realloc False slept t in_s buf nbytes = Some (?in, buf', to_int64 (uint nbytes))"
    "length buf' = length ?b" "take (unat nbytes) buf' = take (2 * k) ?b @ replicate (unat nbytes - 2 * k) 0"
    unfolding rb by auto
  moreover have "si_buffer ?in = v'" by simp
  ultimately show ?thesis unfolding heard lb using v'(2)
    by (intro exI [of _ ?in] exI [of _ buf']) (simp only: mult.commute simp_thms)
qed

definition vb_stereo :: audio_vbuffer where
  "vb_stereo = \<lparr>data = [1, 0, 2, 0, 3, 0, 4, 0], frame_size = 4, frame_count = 2, head = 0, tail = 0, live = 2\<rparr>"

definition si_mono :: generic_stream_in where
  "si_mono = si_example\<lparr>si_req_config := \<lparr>sample_rate = 8000, channel_mask = 0x10, format = 1\<rparr>, si_buffer := vb_stereo\<rparr>"

lemma si_mono_facts:
  "vb_ok (si_buffer si_mono)" "vb_fs (si_buffer si_mono) = 4" "in_get_sample_rate si_mono \<noteq> 0"
  "is_tone_generator_device si_mono = Some False" "popcount (channel_mask (si_req_config si_mono)) = 1"
  "pc_channels (si_pcm_config si_mono) = 2" "si_stereo_to_mono_buf_size si_mono = 0"
  "vb_contents (si_buffer si_mono) = [1, 0, 2, 0, 3, 0, 4, 0]" "vb_level (si_buffer si_mono) = 2"
  by (simp_all add: si_mono_def si_example_def vb_stereo_def vb_ok_def vb_contents_def ring_slice_def upt_rec
      in_get_sample_rate_def is_tone_generator_device_def popcount_def bit_numeral_rec)

theorem in_read_mono_left_channel_witness:
  "\<exists>in' buf'. in_read (\<lambda>_. 2) sin (\<lambda>n _. Some (replicate n 0)) False (\<lambda>_ o'. o') \<lparr>tv_sec = 1, tv_nsec = 0\<rparr> si_mono
     (replicate 6 9) 6 = Some (in', buf', 6) \<and> take 6 buf' = [1, 0, 3, 0, 0, 0]"
proof -
  obtain in1 us where b: "in_read_begin \<lparr>tv_sec = 1, tv_nsec = 0\<rparr> si_mono (6 div 2) = Some (in1, us)"
    by (simp add: in_read_begin_def si_mono_def si_example_def get_current_input_position_def to_int64_id Let_def)
  have k: "(2 :: nat) = min (unat (6 :: size_t) div 2) (vb_level (si_buffer si_mono))"
    unfolding si_mono_facts(9) by simp
  have u: "[0..<2] = [0, Suc 0]" by (simp add: upt_rec)
  have h: "[1, 0, 3, 0] =
      samples_to_bytes (map (\<lambda>i. bytes_to_samples (vb_contents (si_buffer si_mono)) ! (2 * i)) [0..<2])"
    unfolding si_mono_facts(8) u by (simp add: enc16_Cons)
  from in_read_mono_left_channel [where frame_size_of = "\<lambda>_. 2" and slept = "\<lambda>_ o'. o'" and buf = "replicate 6 9"
      and c_sin = sin and realloc = "\<lambda>n _. Some (replicate n 0)",
      OF si_mono_facts(1,2) refl si_mono_facts(3-6) b refl _ _ _ _ _ si_mono_facts(7) k h]
  obtain in' buf' where "in_read (\<lambda>_. 2) sin (\<lambda>n _. Some (replicate n 0)) False (\<lambda>_ o'. o') \<lparr>tv_sec = 1, tv_nsec = 0\<rparr>
      si_mono (replicate 6 9) 6 = Some (in', buf', to_int64 (uint (6 :: size_t)))"
    "take (unat (6 :: size_t)) buf' = [1, 0, 3, 0] @ replicate (unat (6 :: size_t) - length [1 :: 8 word, 0, 3, 0]) 0"
    by auto
  moreover have "replicate 2 (0 :: 8 word) = [0, 0]" by (simp add: numeral_2_eq_2)
  ultimately show ?thesis by (simp add: to_int64_id)
qed

text \<open>
  A stream that is put to standby while a read sleeps delivers silence for the whole request,
  and the ring, the position and the oscillator are those the standby left.
\<close>

theorem in_read_interrupted:
  assumes "frame_size_of (si_req_config in_s) = fs" and "fs \<noteq> 0" and "in_get_sample_rate in_s \<noteq> 0"
    and "is_tone_generator_device in_s = Some tone" and "in_read_begin t in_s (nbytes div fs) = Some (in1, us)"
    and "0 < us" and "slept us in1 = do_in_standby t' in1" and "unat nbytes \<le> length buf"
  shows "\<exists>buf'. in_read frame_size_of c_sin realloc mic_mute slept t in_s buf nbytes =
      Some (do_in_standby t' in1, buf', to_int64 (uint nbytes)) \<and>
    length buf' = length buf \<and> take (unat nbytes) buf' = replicate (unat nbytes) 0"
proof -
  have "si_standby (do_in_standby t' in1)" by (simp add: do_in_standby_def)
  then have dat: "in_read_data frame_size_of c_sin realloc tone (if 0 < us then slept us in1 else in1) buf nbytes (nbytes div fs) =
      Some (do_in_standby t' in1, buf, 0)"
    using assms(6,7) by (simp add: in_read_data_def)
  have r: "(0 :: nat) = (if mic_mute \<and> is_microphone_device in_s then 0 else unat (int_to_size 0 * fs))"
    by (simp add: int_to_size_def)
  show ?thesis
    using in_read_run [where slept = slept and in_s = in_s and r = 0, OF assms(1-5) dat r _ assms(8)] by auto
qed

theorem in_read_interrupted_witness:
  "\<exists>in1 buf'. in_read (\<lambda>_. 4) sin (\<lambda>_ b. b) False (\<lambda>_. do_in_standby \<lparr>tv_sec = 1, tv_nsec = 0\<rparr>) \<lparr>tv_sec = 1, tv_nsec = 0\<rparr>
     si_example (replicate 320 7) 320 = Some (in1, buf', 320) \<and> take 320 buf' = replicate 320 0"
proof -
  have "(320 :: size_t) div 4 = 80" by simp
  moreover have "in_read_begin \<lparr>tv_sec = 1, tv_nsec = 0\<rparr> si_example 80 = Some (si_example\<lparr>si_worker_standby := False,
      si_standby := False, si_standby_exit_time := \<lparr>tv_sec = 1, tv_nsec = 0\<rparr>, si_standby_frames_read := 0\<rparr>, 10000)"
    by (simp add: in_read_begin_def si_example_def get_current_input_position_def to_int64_id Let_def
        in_get_sample_rate_def)
  ultimately obtain in1 where b: "in_read_begin \<lparr>tv_sec = 1, tv_nsec = 0\<rparr> si_example (320 div 4) = Some (in1, 10000)"
    by simp
  show ?thesis
    using in_read_interrupted [where frame_size_of = "\<lambda>_. 4" and slept = "\<lambda>_. do_in_standby \<lparr>tv_sec = 1, tv_nsec = 0\<rparr>"
        and buf = "replicate 320 7", OF refl _ si_example_facts(3,4) b _ refl, of sin "\<lambda>_ b. b" False]
    by (auto simp: to_int64_id)
qed

lemma TWO_PI_bounds: "6 \<le> TWO_PI" "TWO_PI \<le> 8"
proof -
  have "of_int 3 \<le> to_double (314159265 / 100000000)" "to_double (314159265 / 100000000) \<le> of_int 4"
    using binary64.rnd_mono [of "of_int 3" "314159265 / 100000000"] binary64.rnd_mono [of "314159265 / 100000000" "of_int 4"]
      binary64.rnd_int [of 3] binary64.rnd_int [of 4] by simp_all
  then show "6 \<le> TWO_PI" "TWO_PI \<le> 8"
    using binary64.rnd_mono [of "of_int 6" "2 * to_double (314159265 / 100000000)"]
      binary64.rnd_mono [of "2 * to_double (314159265 / 100000000)" "of_int 8"]
      binary64.rnd_int [of 6] binary64.rnd_int [of 8]
    by (simp_all add: TWO_PI_def)
qed

lemma next_phase:
  assumes "0 \<le> p" "p \<le> 8" "0 \<le> d" "d \<le> 6"
  shows "0 \<le> (if TWO_PI < to_float (p + d) then to_float (to_double (to_float (p + d) - TWO_PI)) else to_float (p + d))"
    and "(if TWO_PI < to_float (p + d) then to_float (to_double (to_float (p + d) - TWO_PI)) else to_float (p + d)) \<le> 8"
proof -
  let ?q = "to_float (p + d)"
  have q: "0 \<le> ?q" "?q \<le> 14"
    using assms binary32.rnd_nonneg [of "p + d"] binary32.rnd_mono [of "p + d" "of_int 14"] binary32.rnd_int [of 14]
    by simp_all
  have r: "0 \<le> to_float (to_double (?q - TWO_PI)) \<and> to_float (to_double (?q - TWO_PI)) \<le> 8" if "TWO_PI < ?q"
  proof -
    have d: "0 \<le> to_double (?q - TWO_PI)" "to_double (?q - TWO_PI) \<le> 8"
      using that q(2) TWO_PI_bounds binary64.rnd_nonneg [of "?q - TWO_PI"]
        binary64.rnd_mono [of "?q - TWO_PI" "of_int 8"] binary64.rnd_int [of 8] by simp_all
    then show ?thesis
      using binary32.rnd_nonneg [OF d(1)] binary32.rnd_mono [of "to_double (?q - TWO_PI)" "of_int 8"]
        binary32.rnd_int [of 8] by simp
  qed
  show "0 \<le> (if TWO_PI < ?q then to_float (to_double (?q - TWO_PI)) else ?q)"
    and "(if TWO_PI < ?q then to_float (to_double (?q - TWO_PI)) else ?q) \<le> 8"
    using r q(1) TWO_PI_bounds by auto
qed

lemma tone_sample:
  assumes "\<bar>c_sin x\<bar> \<le> 1"
  shows "\<bar>sint (word_of_int (c_trunc (to_double (c_sin x * 4096))) :: s16)\<bar> \<le> 4096"
proof -
  have "\<bar>c_sin x * 4096\<bar> \<le> of_int 4096" using assms by (simp add: abs_mult)
  then have "\<bar>to_double (c_sin x * 4096)\<bar> \<le> of_int 4096" by (rule binary64.rnd_abs_le) simp
  then have "\<bar>c_trunc (to_double (c_sin x * 4096))\<bar> \<le> 4096" by (rule c_trunc_abs)
  then show ?thesis by (subst sint_of_int16) (simp_all add: abs_le_iff)
qed

lemma tone_samples_spec:
  assumes "\<And>x. \<bar>c_sin x\<bar> \<le> 1" and "0 \<le> phase osc" "phase osc \<le> 8" "0 \<le> phase_increment osc" "phase_increment osc \<le> 6"
    and "pseudo_pcm_samples c_sin n osc = (samples, osc')"
  shows "length samples = n \<and> (\<forall>s \<in> set samples. \<bar>sint s\<bar> \<le> 4096) \<and> 0 \<le> phase osc' \<and> phase osc' \<le> 8 \<and>
    phase_increment osc' = phase_increment osc"
  using assms(2-6)
proof (induction n arbitrary: osc samples osc')
  case (Suc n)
  let ?q = "to_float (phase osc + phase_increment osc)"
  let ?p = "if TWO_PI < ?q then to_float (to_double (?q - TWO_PI)) else ?q"
  let ?o = "osc\<lparr>phase := ?p\<rparr>"
  obtain ss o2 where r: "pseudo_pcm_samples c_sin n ?o = (ss, o2)" by fastforce
  note p = next_phase [OF Suc.prems(1-4)]
  have IH: "length ss = n \<and> (\<forall>s \<in> set ss. \<bar>sint s\<bar> \<le> 4096) \<and> 0 \<le> phase o2 \<and> phase o2 \<le> 8 \<and>
      phase_increment o2 = phase_increment ?o"
    by (rule Suc.IH [OF _ _ _ _ r]) (use p Suc.prems(3,4) in simp_all)
  have "samples = word_of_int (c_trunc (to_double (c_sin (phase osc) * 4096))) # ss" "osc' = o2"
    using Suc.prems(5) r by (simp_all add: Let_def)
  then show ?case using IH tone_sample [where c_sin = c_sin and x = "phase osc", OF assms(1)] by simp
qed simp

text \<open>
  The tone generator fills every whole sample of the request and leaves the rest of the buffer
  alone, returns the requested count, keeps every sample within 4096 of zero and keeps its phase in
  a bounded range, so that it can run for ever.
\<close>

theorem tone_bounded:
  assumes "\<And>x. \<bar>c_sin x\<bar> \<le> 1" and "0 \<le> phase osc" and "phase osc \<le> 8" and "0 \<le> phase_increment osc"
    and "phase_increment osc \<le> 6" and "2 * (unat count div 2) \<le> length dat" and "unat count < 2 ^ 31"
  shows "\<exists>samples osc'. pseudo_pcm_read c_sin dat count osc =
      Some (samples_to_bytes samples @ drop (2 * (unat count div 2)) dat, osc', int (unat count)) \<and>
    length samples = unat count div 2 \<and> (\<forall>s \<in> set samples. \<bar>sint s\<bar> \<le> 4096) \<and>
    0 \<le> phase osc' \<and> phase osc' \<le> 8 \<and> phase_increment osc' = phase_increment osc"
proof -
  obtain ss o2 where r: "pseudo_pcm_samples c_sin (unat count div 2) osc = (ss, o2)" by fastforce
  have "uint count = int (unat count)" by (rule of_nat_unat [symmetric])
  then have "to_int32 (uint count) = int (unat count)" using to_int32_nat [OF assms(7)] by (simp only:)
  then show ?thesis
    using tone_samples_spec [OF assms(1-5) r] assms(6)
    by (intro exI [of _ ss] exI [of _ o2]) (simp add: pseudo_pcm_read_def r del: of_nat_unat)
qed

theorem tone_bounded_witness:
  "\<exists>samples osc'. pseudo_pcm_read sin [1, 2, 3, 4, 5] 5 \<lparr>phase = 0, phase_increment = 1\<rparr> =
     Some (samples_to_bytes samples @ [5], osc', 5) \<and> length samples = 2 \<and> phase osc' \<le> 8"
proof -
  have "\<bar>sin x\<bar> \<le> 1" for x :: real by (rule abs_sin_le_one)
  then show ?thesis
    using tone_bounded [of sin "\<lparr>phase = 0, phase_increment = 1\<rparr>" 5 "[1, 2, 3, 4, 5]"] by auto
qed

text \<open>
  The capture position does not go backwards between two clock readings in order, and going
  to standby freezes it: at any later time it is the position at the moment of standby.
\<close>

theorem input_position_monotone:
  assumes "\<bar>(clock_us t1 - clock_us (si_standby_exit_time in_s)) * uint (in_get_sample_rate in_s)\<bar> < 2 ^ 63"
    and "\<bar>(clock_us t2 - clock_us (si_standby_exit_time in_s)) * uint (in_get_sample_rate in_s)\<bar> < 2 ^ 63"
    and "clock_us t1 \<le> clock_us t2" and "0 \<le> si_standby_position in_s" and "si_standby_position in_s < 2 ^ 62"
  shows "get_current_input_position t1 in_s \<le> get_current_input_position t2 in_s \<and>
    get_current_input_position t2 (do_in_standby t1 in_s) = get_current_input_position t1 in_s"
proof -
  let ?r = "in_get_sample_rate in_s" and ?x = "si_standby_exit_time in_s"
  have "(clock_us t1 - clock_us ?x) * uint ?r \<le> (clock_us t2 - clock_us ?x) * uint ?r"
    using assms(3) by (intro mult_right_mono) simp_all
  then have "position_since ?r ?x t1 \<le> position_since ?r ?x t2"
    using assms(1,2) by (simp add: position_since_eq zdiv_mono1)
  moreover have fit: "to_int64 (si_standby_position in_s + d) = si_standby_position in_s + d" if "0 \<le> d" "d < 2 ^ 44" for d
    using that assms(4,5) by (intro to_int64_id) simp_all
  moreover note position_since_bounds [of ?r ?x t1] position_since_bounds [of ?r ?x t2]
  ultimately show ?thesis
    using fit [of 0]
    by (auto simp: get_current_input_position_def do_in_standby_def in_get_sample_rate_def [symmetric])
qed

text \<open>
  The assertion of \<open>in_read\<close> can fail. At 44100 Hz a read of 672 frames asks for a sleep of
  15238 microseconds, rounded down; when the sleep takes exactly that long the position has
  advanced by only 671 frames, and the next read at that moment fails the assertion.
\<close>

theorem in_read_assertion_fails:
  "let s0 = si_example\<lparr>si_req_config := \<lparr>sample_rate = 44100, channel_mask = 0xC, format = 1\<rparr>\<rparr>;
       now = \<lparr>tv_sec = 100, tv_nsec = 0\<rparr>; later = \<lparr>tv_sec = 100, tv_nsec = 15238000\<rparr>
   in \<exists>s1. in_read_begin now s0 672 = Some (s1, 15238) \<and>
        in_read_begin later (s1\<lparr>si_standby_frames_read := to_int64 (si_standby_frames_read s1 + 672)\<rparr>) 672 = None"
proof -
  let ?later = "\<lparr>tv_sec = 100, tv_nsec = 15238000\<rparr> :: timespec" and ?now = "\<lparr>tv_sec = 100, tv_nsec = 0\<rparr> :: timespec"
  have c: "clock_us ?now = 100000000" "clock_us ?later = 100015238"
    by (simp_all add: clock_us_def to_int64_id c_div_def)
  have "position_since 44100 ?now ?later = 671" by (subst position_since_eq) (simp_all add: c)
  then show ?thesis
    by (simp add: Let_def in_read_begin_def si_example_def get_current_input_position_def to_int64_id
        in_get_sample_rate_def)
qed

end
