(* ===== verification/Audio_In_Worker.thy ===== *)
theory Audio_In_Worker
  imports Audio_In
begin

text \<open>
  The worker thread of an input stream, \<open>in_read_worker\<close> of \<open>hals/audio/driver/audio_hw.c\<close>, as
  a state machine in the manner of the output worker: the sections are the places where the thread
  does not hold \<open>in->lock\<close>, and each operation runs from one to the next. The PCM is a parameter:
  what \<open>pcm_open\<close> returns and whether it is ready, its frame size, the allocator; the outcome of
  each \<open>pcm_read\<close> (return code and what the buffer then holds) is an argument of the step.
\<close>

section \<open>State\<close>

datatype in_section = InTop | InWait | InReading | InExited

record 'p in_worker =
  iw_section :: in_section
  iw_pcm :: "'p option"
  iw_buffer :: "bytes option"
  iw_buffer_frames :: size_t
  iw_restart :: bool

definition in_worker_init :: "'p in_worker" where
  "in_worker_init = \<lparr>iw_section = InTop, iw_pcm = None, iw_buffer = None, iw_buffer_frames = 0, iw_restart = False\<rparr>"

record 'p in_worker_env =
  ie_pcm_open :: 'p
  ie_is_ready :: "'p \<Rightarrow> bool"
  ie_frames_to_bytes :: "'p \<Rightarrow> u32 \<Rightarrow> u32"
  ie_malloc_ok :: bool

type_synonym 'p in_state = "generic_stream_in \<times> 'p in_worker"

section \<open>Operations\<close>

text \<open>After the standby loop: leave the thread, or open the PCM if needed and read.\<close>

definition in_worker_open :: "'p in_worker_env \<Rightarrow> 'p in_state \<Rightarrow> 'p in_state" where
  "in_worker_open E s =
     (case s of (in_s, w) \<Rightarrow>
        if si_worker_exit in_s then (in_s, w\<lparr>iw_section := InExited, iw_buffer := None\<rparr>)
        else if iw_pcm w \<noteq> None then (in_s, w\<lparr>iw_section := InReading\<rparr>)
        else
          let w = w\<lparr>iw_pcm := Some (ie_pcm_open E)\<rparr> in
          if \<not> ie_is_ready E (ie_pcm_open E) then (in_s, w\<lparr>iw_section := InExited\<rparr>)
          else
            let buffer_frames = pc_period_size (si_pcm_config in_s);
                buffer_size = ie_frames_to_bytes E (ie_pcm_open E) (ucast (ucast buffer_frames :: size_t));
                w = w\<lparr>iw_buffer_frames := ucast buffer_frames\<rparr>
            in if \<not> ie_malloc_ok E then (in_s, w\<lparr>iw_section := InExited\<rparr>)
               else (in_s, w\<lparr>iw_buffer := Some (replicate (unat buffer_size) 0), iw_section := InReading\<rparr>))"

text \<open>The loop while the stream is in standby or the last read failed; again after a wake-up.\<close>

definition in_worker_top :: "'p in_worker_env \<Rightarrow> 'p in_state \<Rightarrow> 'p in_state" where
  "in_worker_top E s =
     (case s of (in_s, w) \<Rightarrow>
        if si_worker_standby in_s \<or> iw_restart w then
          (let w = w\<lparr>iw_restart := False\<rparr>;
               w = (if iw_pcm w \<noteq> None then w\<lparr>iw_pcm := None, iw_buffer := None\<rparr> else w)
           in if si_worker_exit in_s then in_worker_open E (in_s, w)
              else (in_s, w\<lparr>iw_section := InWait\<rparr>))
        else in_worker_open E (in_s, w))"

text \<open>
  The rest of the loop body: \<open>ret\<close> is the result of \<open>pcm_read\<close> and \<open>dat\<close> what the buffer holds
  after it. The frames go to the ring whether or not the read succeeded.
\<close>

definition in_worker_read :: "int \<Rightarrow> bytes \<Rightarrow> 'p in_state \<Rightarrow> 'p in_state option" where
  "in_worker_read ret dat s =
     (case s of (in_s, w) \<Rightarrow>
        (case audio_vbuffer_write (si_buffer in_s) dat (iw_buffer_frames w) of
           None \<Rightarrow> None
         | Some (vb, frames_written) \<Rightarrow>
            Some (in_s\<lparr>si_buffer := vb\<rparr>,
                  w\<lparr>iw_buffer := Some dat, iw_restart := (ret \<noteq> 0 \<or> iw_restart w), iw_section := InTop\<rparr>)))"

section \<open>Steps\<close>

text \<open>The buffer keeps its length over \<open>pcm_read\<close>; its content and the result are up to the driver.\<close>

inductive in_worker_step :: "'p in_worker_env \<Rightarrow> 'p in_state \<Rightarrow> 'p in_state \<Rightarrow> bool" for E where
  step_top: "iw_section w = InTop \<Longrightarrow> in_worker_step E (in_s, w) (in_worker_top E (in_s, w))"
| step_wake: "iw_section w = InWait \<Longrightarrow> in_worker_step E (in_s, w) (in_worker_top E (in_s, w))"
| step_read: "iw_section w = InReading \<Longrightarrow> iw_buffer w = Some buffer \<Longrightarrow> length dat = length buffer \<Longrightarrow>
    in_worker_read ret dat (in_s, w) = Some s' \<Longrightarrow> in_worker_step E (in_s, w) s'"

inductive_cases in_worker_stepE: "in_worker_step E (in_s, w) s'"
inductive_simps in_worker_step_iff: "in_worker_step E (in_s, w) s'"

text \<open>The locked part of \<open>adev_close_input_stream\<close>.\<close>

definition in_close_request :: "timespec \<Rightarrow> generic_stream_in \<Rightarrow> generic_stream_in" where
  "in_close_request now in_s = (do_in_standby now in_s)\<lparr>si_worker_exit := True\<rparr>"

lemmas in_worker_defs = in_worker_open_def in_worker_top_def in_worker_read_def

text \<open>
  What holds between the operations: while reading the worker has a PCM and a buffer of one
  period; a stream in standby has told its worker so; the ring is well-formed.
\<close>

definition in_worker_inv :: "'p in_state \<Rightarrow> bool" where
  "in_worker_inv s \<longleftrightarrow>
     (case s of (in_s, w) \<Rightarrow>
        vb_ok (si_buffer in_s) \<and> (si_standby in_s \<longrightarrow> si_worker_standby in_s) \<and>
        (iw_section w = InReading \<longrightarrow> iw_pcm w \<noteq> None) \<and>
        (iw_section w \<noteq> InExited \<and> iw_pcm w \<noteq> None \<longrightarrow>
           (\<exists>buffer. iw_buffer w = Some buffer \<and> length buffer < 2 ^ 64 \<and>
              unat (iw_buffer_frames w) * vb_fs (si_buffer in_s) \<le> length buffer)))"

text \<open>A PCM whose frames are those of the ring: two channels of 16 bits.\<close>

definition in_env_ok :: "'p in_worker_env \<Rightarrow> generic_stream_in \<Rightarrow> bool" where
  "in_env_ok E in_s \<longleftrightarrow>
     (\<forall>p n. unat (n :: u32) < 2 ^ 30 \<longrightarrow> unat (ie_frames_to_bytes E p n) = 4 * unat n) \<and>
     vb_fs (si_buffer in_s) = 4 \<and> unat (pc_period_size (si_pcm_config in_s)) < 2 ^ 30"

section \<open>Lemmas\<close>

lemma in_close_request_fields [simp]:
  "si_buffer (in_close_request now in_s) = si_buffer in_s" "si_worker_exit (in_close_request now in_s)"
  "\<not> si_standby in_s \<or> si_worker_standby in_s \<Longrightarrow> si_worker_standby (in_close_request now in_s)"
  by (auto simp: in_close_request_def do_in_standby_def)

text \<open>A closing stream: the loop ends with the PCM closed and the buffer freed.\<close>

lemma in_top_closing:
  assumes "si_worker_standby in_s" and "si_worker_exit in_s"
  shows "\<exists>w'. in_worker_top E (in_s, w) = (in_s, w') \<and> iw_section w' = InExited \<and> iw_pcm w' = None \<and> iw_buffer w' = None"
  using assms by (simp add: in_worker_defs Let_def)

text \<open>One read of a period and the way back to the next read.\<close>

lemma in_read_total:
  assumes "vb_ok (si_buffer in_s)" and "unat (iw_buffer_frames w) * vb_fs (si_buffer in_s) \<le> length dat"
    and "length dat < 2 ^ 64"
  shows "\<exists>vb. in_worker_read ret dat (in_s, w) = Some (in_s\<lparr>si_buffer := vb\<rparr>,
      w\<lparr>iw_buffer := Some dat, iw_restart := (ret \<noteq> 0 \<or> iw_restart w), iw_section := InTop\<rparr>) \<and>
    vb_ok vb \<and> vb_fs vb = vb_fs (si_buffer in_s) \<and> vb_cap vb = vb_cap (si_buffer in_s) \<and>
    vb_contents vb = vb_contents (si_buffer in_s) @
      take (min (unat (iw_buffer_frames w)) (vb_cap (si_buffer in_s) - vb_level (si_buffer in_s)) * vb_fs (si_buffer in_s)) dat"
  using vbuffer_write_spec [OF assms] by (auto simp: in_worker_read_def)

text \<open>The loop of the thread while the reads succeed.\<close>

fun in_capture :: "'p in_worker_env \<Rightarrow> bytes list \<Rightarrow> 'p in_state \<Rightarrow> 'p in_state option" where
  "in_capture E [] s = Some s"
| "in_capture E (dat # dats) s =
     Option.bind (in_worker_read 0 dat s) (\<lambda>s. in_capture E dats (in_worker_top E s))"

text \<open>Appending to a bounded store and cutting at its size, period by period, is cutting once.\<close>

lemma bounded_append:
  assumes "length c = l * f" and "length d = n * f" and "l \<le> m"
  shows "c @ take (min n (m - l) * f) d = take (m * f) (c @ d)"
proof -
  have "take (min n (m - l) * f) d = take ((m - l) * f) d"
    using assms(2) by (cases "n \<le> m - l") (simp_all add: min_def)
  then show ?thesis using assms by (simp add: diff_mult_distrib)
qed

lemma in_capture_spec:
  assumes "vb_ok (si_buffer in_s)" and "\<not> si_worker_standby in_s" and "\<not> si_worker_exit in_s"
    and "iw_section w = InReading" and "iw_pcm w \<noteq> None" and "\<not> iw_restart w"
    and "\<forall>dat \<in> set dats. length dat = unat (iw_buffer_frames w) * vb_fs (si_buffer in_s) \<and> length dat < 2 ^ 64"
  shows "\<exists>vb w'. in_capture E dats (in_s, w) = Some (in_s\<lparr>si_buffer := vb\<rparr>, w') \<and> iw_section w' = InReading \<and>
    iw_pcm w' = iw_pcm w \<and> vb_ok vb \<and>
    vb_contents vb = take (vb_cap (si_buffer in_s) * vb_fs (si_buffer in_s)) (vb_contents (si_buffer in_s) @ concat dats)"
  using assms
proof (induction dats arbitrary: in_s w)
  case Nil
  let ?v = "si_buffer in_s"
  have "length (vb_contents ?v) \<le> vb_cap ?v * vb_fs ?v"
    using vb.contents_length vb.level_le Nil.prems(1) by simp
  then show ?case using Nil.prems by (intro exI [of _ ?v] exI [of _ w]) simp
next
  case (Cons dat dats)
  let ?v = "si_buffer in_s"
  have dat: "length dat = unat (iw_buffer_frames w) * vb_fs ?v" "length dat < 2 ^ 64" using Cons.prems(7) by simp_all
  obtain vb where rd: "in_worker_read 0 dat (in_s, w) = Some (in_s\<lparr>si_buffer := vb\<rparr>,
      w\<lparr>iw_buffer := Some dat, iw_restart := (0 \<noteq> (0 :: int) \<or> iw_restart w), iw_section := InTop\<rparr>)" "vb_ok vb"
    "vb_fs vb = vb_fs ?v" "vb_cap vb = vb_cap ?v"
    "vb_contents vb = vb_contents ?v @ take (min (unat (iw_buffer_frames w)) (vb_cap ?v - vb_level ?v) * vb_fs ?v) dat"
    using in_read_total [OF Cons.prems(1) _ dat(2), of w 0] dat(1) by auto
  have ct: "vb_contents vb = take (vb_cap ?v * vb_fs ?v) (vb_contents ?v @ dat)"
    unfolding rd(5) by (intro bounded_append dat(1) vb.contents_length vb.level_le Cons.prems(1))
  let ?w = "w\<lparr>iw_buffer := Some dat, iw_restart := False, iw_section := InReading\<rparr>"
  have top: "in_worker_top E (in_s\<lparr>si_buffer := vb\<rparr>, w\<lparr>iw_buffer := Some dat, iw_restart := False, iw_section := InTop\<rparr>) =
      (in_s\<lparr>si_buffer := vb\<rparr>, ?w)"
    using Cons.prems(2-6) by (simp add: in_worker_defs)
  obtain vb' w' where IH: "in_capture E dats (in_s\<lparr>si_buffer := vb\<rparr>, ?w) = Some (in_s\<lparr>si_buffer := vb'\<rparr>, w')"
    "iw_section w' = InReading" "iw_pcm w' = iw_pcm w" "vb_ok vb'"
    "vb_contents vb' = take (vb_cap ?v * vb_fs ?v) (vb_contents vb @ concat dats)"
    using Cons.IH [of "in_s\<lparr>si_buffer := vb\<rparr>" ?w] Cons.prems rd(2-4) by auto
  have tk: "take m (take m x @ y) = take m (x @ y)" for m and x y :: bytes by (simp add: min_def)
  have ct': "vb_contents vb' = take (vb_cap ?v * vb_fs ?v) (vb_contents ?v @ concat (dat # dats))"
    unfolding IH(5) ct tk by simp
  show ?case
    by (intro exI [of _ vb'] exI [of _ w'] conjI ct' IH(2-4)) (use rd(1) top IH(1) Cons.prems(6) in simp)
qed


section \<open>Properties\<close>

text \<open>
  C39. Capture. While its stream is active and the reads succeed, the worker never stops: every
  period it reads is appended to the ring in order, up to the ring's capacity; what does not fit is
  dropped, and nothing already stored is overwritten.
\<close>

theorem in_worker_captures:
  assumes "vb_ok (si_buffer in_s)" and "\<not> si_worker_standby in_s" and "\<not> si_worker_exit in_s"
    and "iw_section w = InReading" and "iw_pcm w = Some p" and "\<not> iw_restart w"
    and "\<forall>dat \<in> set dats. length dat = unat (iw_buffer_frames w) * vb_fs (si_buffer in_s) \<and> length dat < 2 ^ 64"
  shows "\<exists>vb w'. in_capture E dats (in_s, w) = Some (in_s\<lparr>si_buffer := vb\<rparr>, w') \<and> iw_section w' = InReading \<and>
    iw_pcm w' = Some p \<and> vb_ok vb \<and>
    vb_contents vb = take (vb_cap (si_buffer in_s) * vb_fs (si_buffer in_s)) (vb_contents (si_buffer in_s) @ concat dats)"
  using in_capture_spec [OF assms(1-4) _ assms(6,7), of E] assms(5) by simp

definition iw_example :: "nat in_worker" where
  "iw_example = \<lparr>iw_section = InReading, iw_pcm = Some 0, iw_buffer = Some [0, 0, 0, 0], iw_buffer_frames = 1, iw_restart = False\<rparr>"

definition ie_example :: "nat in_worker_env" where
  "ie_example = \<lparr>ie_pcm_open = 0, ie_is_ready = \<lambda>_. True, ie_frames_to_bytes = \<lambda>_ n. 4 * n, ie_malloc_ok = True\<rparr>"

definition si_capturing :: generic_stream_in where
  "si_capturing = si_example\<lparr>si_worker_standby := False, si_worker_exit := False, si_standby := False\<rparr>"


lemma vb_example_capacity: "vb_cap vb_example = 3" "vb_fs vb_example = 2" "vb_contents vb_example = [5, 6]"
  by (simp_all add: vb_example_def vb_contents_def ring_slice_def upt_rec)

theorem in_worker_captures_witness:
  "\<exists>vb w'. in_capture ie_example [[1, 2], [3, 4], [7, 8]] (si_capturing, iw_example) =
       Some (si_capturing\<lparr>si_buffer := vb\<rparr>, w') \<and> iw_section w' = InReading \<and> vb_contents vb = [5, 6, 1, 2, 3, 4]"
proof -
  have s: "vb_ok (si_buffer si_capturing)" "\<not> si_worker_standby si_capturing" "\<not> si_worker_exit si_capturing"
    "si_buffer si_capturing = vb_example"
    by (simp_all add: si_capturing_def si_example_def vb_example_ok)
  have w: "iw_section iw_example = InReading" "iw_pcm iw_example = Some 0" "\<not> iw_restart iw_example"
    "unat (iw_buffer_frames iw_example) = 1" by (simp_all add: iw_example_def)
  have d: "\<forall>dat \<in> set [[1, 2], [3, 4], [7, 8]]. length dat = unat (iw_buffer_frames iw_example) *
      vb_fs (si_buffer si_capturing) \<and> length (dat :: bytes) < 2 ^ 64"
    unfolding s(4) w(4) vb_example_capacity by simp
  show ?thesis
    using in_worker_captures [OF s(1-3) w(1-3) d, of ie_example]
    unfolding s(4) vb_example_capacity by auto
qed

text \<open>
  C25. Closing an input stream always ends its worker: from any section, after the request of
  \<open>adev_close_input_stream\<close> and whatever \<open>pcm_read\<close> returns, the worker is never stuck and is gone
  after at most two steps, with the PCM closed and its buffer freed, so the join returns.
\<close>

theorem in_close_ends_worker:
  assumes "in_worker_inv (in_s, w)" and "iw_section w \<noteq> InExited"
  shows "(\<exists>s. in_worker_step E (in_close_request now in_s, w) s) \<and>
    (\<forall>s. in_worker_step E (in_close_request now in_s, w) s \<longrightarrow>
       iw_section (snd s) = InExited \<and> iw_pcm (snd s) = None \<and> iw_buffer (snd s) = None \<or>
       (\<exists>s'. in_worker_step E s s') \<and>
       (\<forall>s'. in_worker_step E s s' \<longrightarrow> iw_section (snd s') = InExited \<and> iw_pcm (snd s') = None \<and> iw_buffer (snd s') = None))"
proof -
  let ?in = "in_close_request now in_s"
  have sb: "si_worker_standby ?in" "si_worker_exit ?in" using assms(1) by (auto simp: in_worker_inv_def)
  have top: "\<exists>w'. in_worker_top E (i, v) = (i, w') \<and> iw_section w' = InExited \<and> iw_pcm w' = None \<and> iw_buffer w' = None"
    if "si_worker_standby i" "si_worker_exit i" for i v
    using in_top_closing [OF that] .
  show ?thesis
  proof (cases "iw_section w")
    case InReading
    obtain buffer where b: "iw_buffer w = Some buffer" "unat (iw_buffer_frames w) * vb_fs (si_buffer in_s) \<le> length buffer"
      "vb_ok (si_buffer in_s)" "length buffer < 2 ^ 64"
      using assms(1) InReading by (auto simp: in_worker_inv_def)
    have rd: "\<exists>vb. in_worker_read ret dat (?in, w) = Some (?in\<lparr>si_buffer := vb\<rparr>,
        w\<lparr>iw_buffer := Some dat, iw_restart := (ret \<noteq> 0 \<or> iw_restart w), iw_section := InTop\<rparr>)"
      if "length dat = length buffer" for ret dat
      using in_read_total [of ?in w dat ret] b that by auto
    have next2: "(\<exists>s'. in_worker_step E (?in\<lparr>si_buffer := vb\<rparr>, v) s') \<and>
        (\<forall>s'. in_worker_step E (?in\<lparr>si_buffer := vb\<rparr>, v) s' \<longrightarrow>
           iw_section (snd s') = InExited \<and> iw_pcm (snd s') = None \<and> iw_buffer (snd s') = None)"
      if "iw_section v = InTop" for vb v
      using top [of "?in\<lparr>si_buffer := vb\<rparr>" v] sb that by (auto simp: in_worker_step_iff)
    have after: "\<exists>vb v. s = (?in\<lparr>si_buffer := vb\<rparr>, v) \<and> iw_section v = InTop" if st: "in_worker_step E (?in, w) s" for s
    proof -
      obtain dat ret where "length dat = length buffer" "in_worker_read ret dat (?in, w) = Some s"
        using st InReading b(1) by (auto simp: in_worker_step_iff)
      then show ?thesis using rd [of dat ret] by auto
    qed
    obtain s where s: "in_worker_read 0 buffer (?in, w) = Some s" using rd [of buffer 0] by auto
    have "in_worker_step E (?in, w) s" by (rule in_worker_step.step_read [OF InReading b(1) refl s])
    then show ?thesis using after next2 by (intro conjI allI impI disjI2) blast+
  qed (use top [OF sb, of w] assms(2) in \<open>auto simp: in_worker_step_iff\<close>)
qed


theorem in_close_ends_worker_witness:
  "\<exists>s. in_worker_step ie_example (in_close_request \<lparr>tv_sec = 1, tv_nsec = 0\<rparr> si_capturing, iw_example) s \<and>
     (iw_section (snd s) = InExited \<or> (\<exists>s'. in_worker_step ie_example s s' \<and> iw_section (snd s') = InExited))"
proof -
  have inv: "in_worker_inv (si_capturing, iw_example)"
    by (simp add: in_worker_inv_def si_capturing_def si_example_def vb_example_ok iw_example_def vb_example_capacity)
  have w: "iw_section iw_example \<noteq> InExited"
    by (simp add: iw_example_def)
  show ?thesis
    using in_close_ends_worker [OF inv w, of ie_example "\<lparr>tv_sec = 1, tv_nsec = 0\<rparr>"] by meson
qed

section \<open>The invariant is kept\<close>

lemma in_inv_top:
  assumes "in_env_ok E in_s" and "in_worker_inv (in_s, w)" and "iw_section w \<noteq> InExited"
  shows "in_worker_inv (in_worker_top E (in_s, w))"
proof -
  let ?n = "pc_period_size (si_pcm_config in_s)"
  have cast: "(ucast (ucast ?n :: size_t) :: u32) = ?n" by (rule bit_word_eqI) (simp add: bit_simps)
  have "unat (ie_frames_to_bytes E (ie_pcm_open E) ?n) = 4 * unat ?n" "unat ?n < 2 ^ 30"
    using assms(1) by (simp_all add: in_env_ok_def)
  then show ?thesis
    using assms by (auto simp: in_worker_inv_def in_worker_defs in_env_ok_def Let_def cast split: if_splits)
qed

lemma in_inv_read:
  assumes "in_worker_inv (in_s, w)" and "iw_section w = InReading" and "iw_buffer w = Some buffer"
    and "length dat = length buffer" and "in_worker_read ret dat (in_s, w) = Some s'"
  shows "in_worker_inv s'"
proof -
  have len: "unat (iw_buffer_frames w) * vb_fs (si_buffer in_s) \<le> length dat" "length dat < 2 ^ 64" "vb_ok (si_buffer in_s)"
    using assms by (auto simp: in_worker_inv_def)
  show ?thesis using in_read_total [OF len(3,1,2), of ret] len assms(1,5) by (auto simp: in_worker_inv_def)
qed

lemma in_inv_step:
  assumes "in_env_ok E in_s" and "in_worker_inv (in_s, w)" and "in_worker_step E (in_s, w) s'"
  shows "in_worker_inv s'"
  using assms(3) in_inv_top [OF assms(1,2)] in_inv_read [OF assms(2)] by (cases s') (auto simp: in_worker_step_iff)

end
