(* ===== verification/Audio_Dump.thy ===== *)
theory Audio_Dump
  imports Audio_Out Audio_In
begin

text \<open>
  What the dump functions of \<open>hals/audio/driver/audio_hw.c\<close> print, with the conversions of
  \<open>dprintf\<close> they use. The text of a pointer (\<open>%p\<close>) is implementation-defined and a parameter.
\<close>

section \<open>Conversions\<close>

text \<open>\<open>%d\<close>, \<open>%f\<close> of a finite number (six decimals, ties to even) and \<open>%08x\<close>.\<close>

definition signed_decimal :: "int \<Rightarrow> string" where
  "signed_decimal x = (if x < 0 then ''-'' else []) @ decimal (nat \<bar>x\<bar>)"

definition zero_padded :: "nat \<Rightarrow> string \<Rightarrow> string" where
  "zero_padded w s = replicate (w - length s) (CHR ''0'') @ s"

definition fixed6 :: "real \<Rightarrow> string" where
  "fixed6 x = (let n = nat \<bar>rne (x * 1000000)\<bar>
     in (if x < 0 then ''-'' else []) @ decimal (n div 1000000) @ ''.'' @ zero_padded 6 (decimal (n mod 1000000)))"

definition hex_char :: "nat \<Rightarrow> char" where
  "hex_char d = (if d < 10 then char_of (48 + d) else char_of (87 + d))"

fun hex_digits :: "nat \<Rightarrow> nat \<Rightarrow> string" where
  "hex_digits 0 n = []"
| "hex_digits (Suc k) n = hex_digits k (n div 16) @ [hex_char (n mod 16)]"

definition hex08 :: "u32 \<Rightarrow> string" where
  "hex08 x = hex_digits 8 (unat x)"

section \<open>The dumps\<close>

definition bool_str :: "bool \<Rightarrow> string" where
  "bool_str x = (if x then ''true'' else ''false'')"

definition nl :: string where "nl = [char_of (10 :: nat)]"
definition tab :: string where "tab = [char_of (9 :: nat)]"

text \<open>A line of the form tab, tab, name, colon, blank, value.\<close>

definition dump_line :: "string \<Rightarrow> string \<Rightarrow> string" where
  "dump_line name v = tab @ tab @ name @ '': '' @ v @ nl"

text \<open>
  \<open>out_dump\<close>: the text written and the return value. A stream without an address would make
  \<open>%s\<close> follow a null pointer.
\<close>

definition out_dump :: "(audio_config \<Rightarrow> size_t) \<Rightarrow> string \<Rightarrow> generic_stream_out \<Rightarrow> (string \<times> int) option" where
  "out_dump frame_size_of dev_pointer out =
     (case so_bus_address out of None \<Rightarrow> None
      | Some bus_address \<Rightarrow> Some
         (tab @ ''out_dump:'' @ nl @
          dump_line ''address'' (c_str bus_address) @
          dump_line ''sample rate'' (decimal (unat (out_get_sample_rate out))) @
          dump_line ''buffer size'' (decimal (unat (out_get_buffer_size frame_size_of out))) @
          dump_line ''channel mask'' (hex08 (out_get_channels out)) @
          dump_line ''format'' (signed_decimal (sint (out_get_format out))) @
          dump_line ''device'' (hex08 (so_device out)) @
          dump_line ''amplitude ratio'' (fixed6 (so_amplitude_ratio out)) @
          dump_line ''enabled channels'' (signed_decimal (sint (so_enabled_channels out))) @
          dump_line ''is ducked'' (bool_str (so_is_ducked out)) @
          dump_line ''is muted'' (bool_str (so_is_muted out)) @
          dump_line ''audio dev'' dev_pointer @ nl, 0))"

text \<open>\<open>in_dump\<close> asks for the buffer size, which reads the period properties.\<close>

definition in_dump ::
    "properties \<Rightarrow> period_statics \<Rightarrow> string \<Rightarrow> generic_stream_in \<Rightarrow> (string \<times> int) \<times> period_statics" where
  "in_dump props st dev_pointer in_s =
     (case in_get_buffer_size props st in_s of (n, st') \<Rightarrow>
        ((tab @ ''in_dump:'' @ nl @
          dump_line ''sample rate'' (decimal (unat (in_get_sample_rate in_s))) @
          dump_line ''buffer size'' (decimal (unat n)) @
          dump_line ''channel mask'' (hex08 (in_get_channels in_s)) @
          dump_line ''format'' (signed_decimal (sint (in_get_format in_s))) @
          dump_line ''device'' (hex08 (si_device in_s)) @
          dump_line ''audio dev'' dev_pointer @ nl, 0), st'))"

definition adev_dump :: "'d \<Rightarrow> int" where
  "adev_dump dev = 0"

section \<open>The conversions can be read back\<close>

definition hex_value :: "char \<Rightarrow> nat" where
  "hex_value c = (let n = of_char c in if n < 58 then n - 48 else n - 87)"

definition hex_number :: "string \<Rightarrow> nat" where
  "hex_number s = foldl (\<lambda>n c. 16 * n + hex_value c) 0 s"

lemma hex_value_char: "d < 16 \<Longrightarrow> hex_value (hex_char d) = d"
  by (simp add: hex_value_def hex_char_def Let_def of_char_of)

lemma hex_number_digits: "hex_number (hex_digits k n) = n mod 16 ^ k"
proof (induction k arbitrary: n)
  case (Suc k)
  have "hex_number (hex_digits (Suc k) n) = 16 * (n div 16 mod 16 ^ k) + n mod 16"
    using Suc [of "n div 16"] by (simp add: hex_number_def hex_value_char)
  then show ?case by (simp add: mod_mult2_eq)
qed (simp add: hex_number_def)

lemma hex08_reads_back: "hex_number (hex08 x) = unat x"
  using unsigned_less [of x, where ?'a = nat] by (simp add: hex08_def hex_number_digits)

lemma hex08_length: "length (hex08 x) = 8"
proof -
  have "length (hex_digits k n) = k" for k n by (induction k arbitrary: n) simp_all
  then show ?thesis by (simp add: hex08_def)
qed

end
