(* ===== verification/Audio_Device.thy ===== *)
theory Audio_Device
  imports Audio_In
begin

text \<open>
  The device object of \<open>hals/audio/driver/audio_hw.c\<close> without its streams: mutes, the selected
  zone, audio patches, the tone frequencies of input buses, and the hands-free controls of
  \<open>hals/audio/driver/audio_extn/hfp.c\<close>. The hash maps and the mixer of \<open>tinyalsa\<close> are
  parameters. Every operation is the body of one critical section of the device's lock.
\<close>

section \<open>State\<close>

record ('m, 'f, 'x) generic_audio_device =
  last_patch_id :: u32
  master_mute :: bool
  mic_mute :: bool
  ad_mixer :: 'x
  out_bus_stream_map :: 'm
  in_bus_tone_frequency_map :: 'f
  next_tone_frequency_to_assign :: int
  last_zone_selected_to_play :: int
  hfp_running :: bool

section \<open>Mutes and trivial calls\<close>

definition adev_set_master_mute :: "('m, 'f, 'x) generic_audio_device \<Rightarrow> bool \<Rightarrow> ('m, 'f, 'x) generic_audio_device \<times> int" where
  "adev_set_master_mute dev muted = (dev\<lparr>master_mute := muted\<rparr>, 0)"

definition adev_get_master_mute :: "('m, 'f, 'x) generic_audio_device \<Rightarrow> bool \<times> int" where
  "adev_get_master_mute dev = (master_mute dev, 0)"

definition adev_set_mic_mute :: "('m, 'f, 'x) generic_audio_device \<Rightarrow> bool \<Rightarrow> ('m, 'f, 'x) generic_audio_device \<times> int" where
  "adev_set_mic_mute dev state = (dev\<lparr>mic_mute := state\<rparr>, 0)"

definition adev_get_mic_mute :: "('m, 'f, 'x) generic_audio_device \<Rightarrow> bool \<times> int" where
  "adev_get_mic_mute dev = (mic_mute dev, 0)"

definition adev_get_parameters :: "('m, 'f, 'x) generic_audio_device \<Rightarrow> string \<Rightarrow> string option" where
  "adev_get_parameters dev keys = None"

definition adev_init_check :: "('m, 'f, 'x) generic_audio_device \<Rightarrow> int" where
  "adev_init_check dev = 0"

definition adev_set_voice_volume :: "('m, 'f, 'x) generic_audio_device \<Rightarrow> real \<Rightarrow> int" where
  "adev_set_voice_volume dev volume = 0"

definition adev_set_master_volume :: "('m, 'f, 'x) generic_audio_device \<Rightarrow> real \<Rightarrow> int" where
  "adev_set_master_volume dev volume = - ENOSYS"

definition adev_get_master_volume :: "('m, 'f, 'x) generic_audio_device \<Rightarrow> int" where
  "adev_get_master_volume dev = - ENOSYS"

definition adev_set_mode :: "('m, 'f, 'x) generic_audio_device \<Rightarrow> int \<Rightarrow> int" where
  "adev_set_mode dev mode = 0"

definition adev_get_input_buffer_size ::
    "properties \<Rightarrow> period_statics \<Rightarrow> ('m, 'f, 'x) generic_audio_device \<Rightarrow> audio_config \<Rightarrow> size_t \<times> period_statics" where
  "adev_get_input_buffer_size props st dev config = get_input_buffer_size props st config"

section \<open>Audio patches\<close>

datatype port_type = AUDIO_PORT_TYPE_NONE | AUDIO_PORT_TYPE_DEVICE | AUDIO_PORT_TYPE_MIX | AUDIO_PORT_TYPE_SESSION

text \<open>
  The ports are given by their types; the two loops of the source only log them. \<open>None\<close> is a
  handle that is not written.
\<close>

definition adev_create_audio_patch ::
    "('m, 'f, 'x) generic_audio_device \<Rightarrow> port_type list \<Rightarrow> port_type list \<Rightarrow>
     ('m, 'f, 'x) generic_audio_device \<times> int option \<times> int" where
  "adev_create_audio_patch dev sources sinks =
     (if length sources = 1 \<and> length sinks = 1 \<and> sources ! 0 = AUDIO_PORT_TYPE_DEVICE \<and>
         sinks ! 0 = AUDIO_PORT_TYPE_DEVICE
      then let dev = dev\<lparr>last_patch_id := last_patch_id dev + 1\<rparr> in (dev, Some (sint (last_patch_id dev)), 0)
      else (dev, None, 0))"

definition adev_release_audio_patch :: "('m, 'f, 'x) generic_audio_device \<Rightarrow> int \<Rightarrow> int" where
  "adev_release_audio_patch dev handle = 0"

section \<open>Tone frequencies\<close>

abbreviation (input) DEFAULT_FREQUENCY :: int where "DEFAULT_FREQUENCY \<equiv> 150"
abbreviation (input) TONE_FREQUENCY_INCREASE :: int where "TONE_FREQUENCY_INCREASE \<equiv> 20"
abbreviation (input) MAX_TONE_FREQUENCY :: int where "MAX_TONE_FREQUENCY \<equiv> 500"

definition increase_next_tone_frequency :: "('m, 'f, 'x) generic_audio_device \<Rightarrow> ('m, 'f, 'x) generic_audio_device" where
  "increase_next_tone_frequency adev =
     (let adev = adev\<lparr>next_tone_frequency_to_assign := next_tone_frequency_to_assign adev + TONE_FREQUENCY_INCREASE\<rparr>
      in if MAX_TONE_FREQUENCY < next_tone_frequency_to_assign adev
         then adev\<lparr>next_tone_frequency_to_assign := DEFAULT_FREQUENCY\<rparr> else adev)"

definition create_or_fetch_tone_frequency ::
    "('f, int) hashmap_api \<Rightarrow> ('m, 'f, 'x) generic_audio_device \<Rightarrow> string \<Rightarrow> int \<Rightarrow>
     ('m, 'f, 'x) generic_audio_device \<times> int" where
  "create_or_fetch_tone_frequency F adev address update_frequency =
     (case hashmapGet F (in_bus_tone_frequency_map adev) address of
        Some frequency \<Rightarrow> (adev, frequency)
      | None \<Rightarrow> (adev\<lparr>in_bus_tone_frequency_map :=
                        hashmapPut F (in_bus_tone_frequency_map adev) address update_frequency\<rparr>, update_frequency))"

text \<open>The lines of \<open>adev_open_input_stream\<close> that give a tone generator its frequency.\<close>

definition assign_tone_frequency ::
    "('f, int) hashmap_api \<Rightarrow> ('m, 'f, 'x) generic_audio_device \<Rightarrow> string \<Rightarrow> ('m, 'f, 'x) generic_audio_device \<times> int" where
  "assign_tone_frequency F adev address =
     (let update_frequency = next_tone_frequency_to_assign adev;
          (adev, frequency) = create_or_fetch_tone_frequency F adev address update_frequency
      in (if update_frequency = frequency then increase_next_tone_frequency adev else adev, frequency))"

definition tone_oscillator :: "int \<Rightarrow> u32 \<Rightarrow> oscillator" where
  "tone_oscillator frequency rate =
     \<lparr>phase = 0, phase_increment = to_float (to_double (to_double (TWO_PI * of_int frequency) / to_float (of_int (uint rate))))\<rparr>"

section \<open>Hands-free controls\<close>

text \<open>The mixer of \<open>tinyalsa\<close>: controls by name, and setting one of a control's values.\<close>

record 'x mixer_api =
  mixer_get_ctl_by_name :: "'x \<Rightarrow> string \<Rightarrow> nat option"
  mixer_ctl_set_value :: "'x \<Rightarrow> nat \<Rightarrow> nat \<Rightarrow> int \<Rightarrow> 'x \<times> int"

definition AUDIO_PARAMETER_HFP_ENABLE :: string where "AUDIO_PARAMETER_HFP_ENABLE = ''hfp_enable''"
definition AUDIO_PARAMETER_HFP_SET_SAMPLING_RATE :: string where
  "AUDIO_PARAMETER_HFP_SET_SAMPLING_RATE = ''hfp_set_sampling_rate''"
definition AUDIO_PARAMETER_HFP_VOLUME :: string where "AUDIO_PARAMETER_HFP_VOLUME = ''hfp_volume''"
definition AUDIO_PARAMETER_HFP_VALUE_MAX :: nat where "AUDIO_PARAMETER_HFP_VALUE_MAX = 128"

definition hfp_set_enable ::
    "'x mixer_api \<Rightarrow> ('m, 'f, 'x) generic_audio_device \<Rightarrow> bool \<Rightarrow> ('m, 'f, 'x) generic_audio_device \<times> int" where
  "hfp_set_enable M adev enable =
     (case mixer_get_ctl_by_name M (ad_mixer adev) AUDIO_PARAMETER_HFP_ENABLE of
        None \<Rightarrow> (adev, - EINVAL)
      | Some ctl \<Rightarrow>
         (let (x, r) = mixer_ctl_set_value M (ad_mixer adev) ctl 0 (if enable then 1 else 0)
          in if r < 0 then (adev\<lparr>ad_mixer := x\<rparr>, - EINVAL)
             else (adev\<lparr>ad_mixer := x, hfp_running := enable\<rparr>, 0)))"

definition hfp_set_sampling_rate ::
    "'x mixer_api \<Rightarrow> ('m, 'f, 'x) generic_audio_device \<Rightarrow> int \<Rightarrow> ('m, 'f, 'x) generic_audio_device \<times> int" where
  "hfp_set_sampling_rate M adev rate =
     (case mixer_get_ctl_by_name M (ad_mixer adev) AUDIO_PARAMETER_HFP_SET_SAMPLING_RATE of
        None \<Rightarrow> (adev, - EINVAL)
      | Some ctl \<Rightarrow>
         (let (x, r) = mixer_ctl_set_value M (ad_mixer adev) ctl 0 rate
          in (adev\<lparr>ad_mixer := x\<rparr>, if r < 0 then - EINVAL else 0)))"

definition hfp_set_volume ::
    "'x mixer_api \<Rightarrow> ('m, 'f, 'x) generic_audio_device \<Rightarrow> int \<Rightarrow> ('m, 'f, 'x) generic_audio_device \<times> int" where
  "hfp_set_volume M adev vol =
     (case mixer_get_ctl_by_name M (ad_mixer adev) AUDIO_PARAMETER_HFP_VOLUME of
        None \<Rightarrow> (adev, - EINVAL)
      | Some ctl \<Rightarrow>
         (let (x, r) = mixer_ctl_set_value M (ad_mixer adev) ctl 0 vol
          in (adev\<lparr>ad_mixer := x\<rparr>, if r < 0 then - EINVAL else 0)))"

text \<open>
  The three parts of \<open>audio_extn_hfp_set_parameters\<close>. A part is skipped when its key is absent; the
  result code is that of the last lookup or call made, and a negative code of a call ends it.
\<close>

definition hfp_part_enable ::
    "'x mixer_api \<Rightarrow> str_parms \<Rightarrow> ('m, 'f, 'x) generic_audio_device \<Rightarrow> ('m, 'f, 'x) generic_audio_device \<times> int \<times> bool" where
  "hfp_part_enable M get adev =
     (let (ret, val) = get AUDIO_PARAMETER_HFP_ENABLE AUDIO_PARAMETER_HFP_VALUE_MAX in
      if 0 \<le> ret then
        let (adev, ret) =
          (if strcmp_eq val ''true''
           then (if \<not> hfp_running adev then hfp_set_enable M adev True else (adev, ret))
           else (if hfp_running adev then hfp_set_enable M adev False else (adev, ret)))
        in (adev, ret, ret < 0)
      else (adev, ret, False))"

definition hfp_part_rate ::
    "'x mixer_api \<Rightarrow> str_parms \<Rightarrow> ('m, 'f, 'x) generic_audio_device \<Rightarrow> ('m, 'f, 'x) generic_audio_device \<times> int \<times> bool" where
  "hfp_part_rate M get adev =
     (let (ret, val) = get AUDIO_PARAMETER_HFP_SET_SAMPLING_RATE AUDIO_PARAMETER_HFP_VALUE_MAX in
      if 0 \<le> ret then
        let (adev, ret) = hfp_set_sampling_rate M adev (to_int32 (fst (strtol10 val))) in (adev, ret, ret < 0)
      else (adev, ret, False))"

definition hfp_part_volume ::
    "'x mixer_api \<Rightarrow> str_parms \<Rightarrow> ('m, 'f, 'x) generic_audio_device \<Rightarrow> ('m, 'f, 'x) generic_audio_device \<times> int" where
  "hfp_part_volume M get adev =
     (let (ret, val) = get AUDIO_PARAMETER_HFP_VOLUME AUDIO_PARAMETER_HFP_VALUE_MAX in
      if 0 \<le> ret then hfp_set_volume M adev (to_int32 (fst (strtol10 val))) else (adev, ret))"

definition audio_extn_hfp_set_parameters ::
    "'x mixer_api \<Rightarrow> str_parms \<Rightarrow> ('m, 'f, 'x) generic_audio_device \<Rightarrow> ('m, 'f, 'x) generic_audio_device \<times> int" where
  "audio_extn_hfp_set_parameters M get adev =
     (case hfp_part_enable M get adev of (adev, ret, stop) \<Rightarrow>
        if stop then (adev, ret)
        else case hfp_part_rate M get adev of (adev, ret, stop) \<Rightarrow>
          if stop then (adev, ret) else hfp_part_volume M get adev)"

section \<open>Parameters of the device\<close>

definition AAE_PARAMETER_KEY_FOR_SELECTED_ZONE :: string where
  "AAE_PARAMETER_KEY_FOR_SELECTED_ZONE = ''com.android.car.emulator.selected_zone''"

text \<open>
  \<open>adev_set_parameters\<close>; \<open>hfp\<close> is \<open>audio_extn_hfp_set_parameters\<close>, or the constant 0 of the
  header when the build leaves hands-free out. The zone's result code is overwritten.
\<close>

definition adev_set_parameters ::
    "(str_parms \<Rightarrow> ('m, 'f, 'x) generic_audio_device \<Rightarrow> ('m, 'f, 'x) generic_audio_device \<times> int) \<Rightarrow>
     str_parms \<Rightarrow> ('m, 'f, 'x) generic_audio_device \<Rightarrow> ('m, 'f, 'x) generic_audio_device \<times> int" where
  "adev_set_parameters hfp parms adev =
     (case get_int_value parms AAE_PARAMETER_KEY_FOR_SELECTED_ZONE of
        (results, val) \<Rightarrow>
          let adev = (if 0 \<le> results
                      then adev\<lparr>last_zone_selected_to_play := (case val of None \<Rightarrow> 0 | Some v \<Rightarrow> v)\<rparr> else adev)
          in hfp parms adev)"
section \<open>Lemmas on the tones\<close>

text \<open>
  \<open>n\<close> frequencies have been handed out: they are the first \<open>n\<close> of 150, 170, ..., 490, no two
  buses (up to the map's equality) have the same one, and the next one is the first free, if any.
\<close>

definition tone_inv ::
    "('f, int) hashmap_api \<Rightarrow> (string \<Rightarrow> string \<Rightarrow> bool) \<Rightarrow> nat \<Rightarrow> ('m, 'f, 'x) generic_audio_device \<Rightarrow> bool" where
  "tone_inv F eq n dev \<longleftrightarrow> n \<le> 18 \<and>
     (n < 18 \<longrightarrow> next_tone_frequency_to_assign dev = 150 + 20 * int n) \<and>
     (\<exists>j < 18. next_tone_frequency_to_assign dev = 150 + 20 * int j) \<and>
     (\<forall>k f. hashmapGet F (in_bus_tone_frequency_map dev) k = Some f \<longrightarrow> (\<exists>j < n. f = 150 + 20 * int j)) \<and>
     (\<forall>k l f. hashmapGet F (in_bus_tone_frequency_map dev) k = Some f \<longrightarrow>
        hashmapGet F (in_bus_tone_frequency_map dev) l = Some f \<longrightarrow> eq k l)"

lemma increase_tone:
  assumes "next_tone_frequency_to_assign dev = 150 + 20 * int j" and "j < 18"
  shows "next_tone_frequency_to_assign (increase_next_tone_frequency dev) = 150 + 20 * int (Suc j mod 18)"
    and "in_bus_tone_frequency_map (increase_next_tone_frequency dev) = in_bus_tone_frequency_map dev"
proof -
  have "Suc j mod 18 = (if j = 17 then 0 else Suc j)" using assms(2) by simp
  then show "next_tone_frequency_to_assign (increase_next_tone_frequency dev) = 150 + 20 * int (Suc j mod 18)"
    and "in_bus_tone_frequency_map (increase_next_tone_frequency dev) = in_bus_tone_frequency_map dev"
    using assms by (auto simp: increase_next_tone_frequency_def Let_def)
qed

lemma assign_known:
  assumes "hashmapGet F (in_bus_tone_frequency_map dev) a = Some f"
  shows "assign_tone_frequency F dev a =
    (if next_tone_frequency_to_assign dev = f then increase_next_tone_frequency dev else dev, f)"
  by (simp add: assign_tone_frequency_def create_or_fetch_tone_frequency_def assms)

lemma assign_new:
  assumes "hashmapGet F (in_bus_tone_frequency_map dev) a = None"
  shows "assign_tone_frequency F dev a =
    (increase_next_tone_frequency (dev\<lparr>in_bus_tone_frequency_map :=
       hashmapPut F (in_bus_tone_frequency_map dev) a (next_tone_frequency_to_assign dev)\<rparr>),
     next_tone_frequency_to_assign dev)"
  by (simp add: assign_tone_frequency_def create_or_fetch_tone_frequency_def assms Let_def)

text \<open>One assignment, on every branch.\<close>

lemma assign_tone_spec:
  assumes "hashmap F eq" and "tone_inv F eq n dev"
    and "n < 18 \<or> hashmapGet F (in_bus_tone_frequency_map dev) a \<noteq> None"
    and "assign_tone_frequency F dev a = (dev', f)"
  shows "150 \<le> f \<and> f \<le> 490 \<and>
    (\<forall>b. hashmapGet F (in_bus_tone_frequency_map dev') b =
       (if eq a b then Some f else hashmapGet F (in_bus_tone_frequency_map dev) b)) \<and>
    (\<forall>b. hashmapGet F (in_bus_tone_frequency_map dev) b = Some f \<longrightarrow> eq a b) \<and>
    tone_inv F eq (if hashmapGet F (in_bus_tone_frequency_map dev) a = None then Suc n else n) dev'"
proof -
  let ?m = "in_bus_tone_frequency_map dev"
  obtain j where j: "j < 18" "next_tone_frequency_to_assign dev = 150 + 20 * int j"
    using assms(2) by (auto simp: tone_inv_def)
  show ?thesis
  proof (cases "hashmapGet F ?m a")
    case (Some g)
    then have g: "f = g" "dev' = (if next_tone_frequency_to_assign dev = f then increase_next_tone_frequency dev else dev)"
      using assms(4) assign_known [OF Some] by auto
    obtain i where i: "i < n" "f = 150 + 20 * int i" "n \<le> 18" using assms(2) Some g by (auto simp: tone_inv_def)
    have m: "in_bus_tone_frequency_map dev' = ?m" using increase_tone(2) [OF j(2,1)] g by simp
    have same: "hashmapGet F ?m b = Some f \<longleftrightarrow> eq a b" for b
      using hashmap.get_cong [OF assms(1), of a b] assms(2) Some g(1) by (auto simp: tone_inv_def)
    have "n < 18 \<Longrightarrow> dev' = dev" using g i assms(2) by (auto simp: tone_inv_def)
    moreover have "\<exists>j < 18. next_tone_frequency_to_assign dev' = 150 + 20 * int j"
      using increase_tone(1) [OF j(2,1)] j g(2) by (cases "next_tone_frequency_to_assign dev = f") (auto intro: exI [of _ "Suc j mod 18"])
    ultimately have "tone_inv F eq n dev'" using assms(2) m by (auto simp: tone_inv_def)
    then show ?thesis using i same Some m by simp
  next
    case None
    then have n: "n < 18" "j = n" using assms(2,3) j by (auto simp: tone_inv_def)
    let ?d = "dev\<lparr>in_bus_tone_frequency_map := hashmapPut F ?m a (next_tone_frequency_to_assign dev)\<rparr>"
    have f: "f = 150 + 20 * int n" and d: "dev' = increase_next_tone_frequency ?d"
      using assms(4) assign_new [OF None] j(2) n(2) by auto
    have inc: "next_tone_frequency_to_assign dev' = 150 + 20 * int (Suc n mod 18)"
      "in_bus_tone_frequency_map dev' = hashmapPut F ?m a f"
      using increase_tone [of ?d n] n j(2) f d by simp_all
    have get: "hashmapGet F (in_bus_tone_frequency_map dev') b = (if eq a b then Some f else hashmapGet F ?m b)" for b
      unfolding inc(2) by (rule hashmap.get_put [OF assms(1)])
    have fresh: "hashmapGet F ?m b \<noteq> Some f" for b
    proof
      assume "hashmapGet F ?m b = Some f"
      then have "\<exists>i < n. f = 150 + 20 * int i" using assms(2) unfolding tone_inv_def by blast
      then show False using f by auto
    qed
    have inj: "eq k l" if "hashmapGet F (in_bus_tone_frequency_map dev') k = Some h"
      "hashmapGet F (in_bus_tone_frequency_map dev') l = Some h" for k l h
    proof -
      have old: "hashmapGet F ?m k = Some h \<Longrightarrow> hashmapGet F ?m l = Some h \<Longrightarrow> eq k l"
        using assms(2) unfolding tone_inv_def by blast
      have "eq a k \<Longrightarrow> eq a l \<Longrightarrow> eq k l"
        using hashmap.sym [OF assms(1)] hashmap.trans [OF assms(1)] by blast
      moreover have "eq a k = eq a l" using that fresh unfolding get by (auto split: if_splits)
      ultimately show ?thesis using that old unfolding get by (auto split: if_splits)
    qed
    have vals: "\<exists>i < Suc n. h = 150 + 20 * int i" if "hashmapGet F (in_bus_tone_frequency_map dev') k = Some h" for k h
    proof (cases "eq a k")
      case True
      then show ?thesis using that f unfolding get by auto
    next
      case False
      then have "\<exists>i < n. h = 150 + 20 * int i" using that assms(2) unfolding get tone_inv_def by simp
      then show ?thesis by (auto simp: less_Suc_eq)
    qed
    have "tone_inv F eq (Suc n) dev'"
      using inj vals inc(1) n(1) unfolding tone_inv_def by (auto intro: exI [of _ "Suc n mod 18"])
    then show ?thesis using f n(1) get fresh None by simp
  qed
qed

section \<open>Properties\<close>

text \<open>
  Tone frequencies of input buses. With fewer than 18 buses known, or for a known one: the
  frequency is between 150 and 490 Hz, it is the one the bus already has if it has one, no other
  known bus has it, all other buses keep theirs, and the invariant holds again.
\<close>

theorem tones_stable_and_distinct:
  assumes "hashmap F eq" and "tone_inv F eq n dev"
    and "n < 18 \<or> hashmapGet F (in_bus_tone_frequency_map dev) a \<noteq> None"
    and "assign_tone_frequency F dev a = (dev', f)"
  shows "150 \<le> f \<and> f \<le> 490 \<and>
    (\<forall>b. hashmapGet F (in_bus_tone_frequency_map dev') b =
       (if eq a b then Some f else hashmapGet F (in_bus_tone_frequency_map dev) b)) \<and>
    (\<forall>b. hashmapGet F (in_bus_tone_frequency_map dev) b = Some f \<longrightarrow> eq a b) \<and>
    tone_inv F eq (if hashmapGet F (in_bus_tone_frequency_map dev) a = None then Suc n else n) dev'"
  by (rule assign_tone_spec [OF assms])

definition dev_example :: "((string \<times> nat) list, (string \<times> int) list, unit) generic_audio_device" where
  "dev_example = \<lparr>last_patch_id = 0, master_mute = False, mic_mute = False, ad_mixer = (), out_bus_stream_map = [],
     in_bus_tone_frequency_map = [], next_tone_frequency_to_assign = 150, last_zone_selected_to_play = 1,
     hfp_running = False\<rparr>"

theorem tones_stable_and_distinct_witness:
  "\<exists>d1 d2 f. assign_tone_frequency (alist_api str_eq) dev_example ''bus_tone_1'' = (d1, 150) \<and>
     assign_tone_frequency (alist_api str_eq) d1 ''bus_tone_2'' = (d2, f) \<and> f \<noteq> 150"
proof -
  obtain d1 where d1: "assign_tone_frequency (alist_api str_eq) dev_example ''bus_tone_1'' = (d1, 150)"
    by (simp add: assign_tone_frequency_def create_or_fetch_tone_frequency_def alist_api_def dev_example_def)
  obtain d2 f where d2: "assign_tone_frequency (alist_api str_eq) d1 ''bus_tone_2'' = (d2, f)" by fastforce
  have inv: "tone_inv (alist_api str_eq) str_eq 0 dev_example"
    by (simp add: tone_inv_def dev_example_def alist_api_def)
  have none: "hashmapGet (alist_api str_eq) (in_bus_tone_frequency_map dev_example) a = None" for a
    by (simp add: dev_example_def alist_api_def)
  have h: "hashmap (alist_api str_eq :: ((string \<times> int) list, int) hashmap_api) str_eq" by unfold_locales
  note one = tones_stable_and_distinct [OF h inv _ d1, unfolded none]
  have ne: "\<not> str_eq ''bus_tone_1'' ''bus_tone_2''" "str_eq ''bus_tone_1'' ''bus_tone_1''"
    by (simp_all add: str_eq_def strcmp_eq_def c_str_def)
  have inv1: "tone_inv (alist_api str_eq) str_eq (Suc 0) d1"
    and get1: "hashmapGet (alist_api str_eq) (in_bus_tone_frequency_map d1) ''bus_tone_1'' = Some 150"
    using one ne by auto
  have "f = 150 \<longrightarrow> str_eq ''bus_tone_2'' ''bus_tone_1''"
    using tones_stable_and_distinct [OF h inv1 _ d2] get1 by auto
  then have "f \<noteq> 150" using ne(1) by (auto simp: str_eq_def strcmp_eq_def)
  then show ?thesis using d1 d2 by blast
qed

text \<open>A sequence of successful requests for a patch between two devices: the handles given out.\<close>

fun patch_handles :: "nat \<Rightarrow> ('m, 'f, 'x) generic_audio_device \<Rightarrow> int option list" where
  "patch_handles 0 dev = []"
| "patch_handles (Suc n) dev =
     (case adev_create_audio_patch dev [AUDIO_PORT_TYPE_DEVICE] [AUDIO_PORT_TYPE_DEVICE] of
        (dev', h, _) \<Rightarrow> h # patch_handles n dev')"

lemma create_patch: "adev_create_audio_patch dev [AUDIO_PORT_TYPE_DEVICE] [AUDIO_PORT_TYPE_DEVICE] =
    (dev\<lparr>last_patch_id := last_patch_id dev + 1\<rparr>, Some (sint (last_patch_id dev + 1)), 0)"
  by (simp add: adev_create_audio_patch_def Let_def)

lemma patch_handles_eq:
  "patch_handles n dev = map (\<lambda>i. Some (sint (last_patch_id dev + of_nat (Suc i)))) [0..<n]"
proof (induction n arbitrary: dev)
  case (Suc n)
  show ?case unfolding patch_handles.simps create_patch
    by (simp add: Suc map_upt_Suc add.assoc del: upt_Suc)
qed simp

lemma of_nat_u32_inj: "i < 2 ^ 32 \<Longrightarrow> j < 2 ^ 32 \<Longrightarrow> (of_nat i :: u32) = of_nat j \<Longrightarrow> i = j"
  by (simp add: word_of_nat_eq_iff take_bit_nat_eq_self)

text \<open>
  Patch handles: up to \<open>2 ^ 32\<close> successive patches between two devices get pairwise different
  handles, whatever the last identifier was; any other request returns 0 too, but creates nothing
  and leaves the caller's handle unwritten.
\<close>

theorem patch_handles_distinct:
  assumes "n \<le> 2 ^ 32"
  shows "length (patch_handles n dev) = n \<and> None \<notin> set (patch_handles n dev) \<and> distinct (patch_handles n dev) \<and>
    (sources \<noteq> [AUDIO_PORT_TYPE_DEVICE] \<or> sinks \<noteq> [AUDIO_PORT_TYPE_DEVICE] \<longrightarrow>
       adev_create_audio_patch dev sources sinks = (dev, None, 0))"
proof -
  have "inj_on (\<lambda>i. Some (sint (last_patch_id dev + of_nat (Suc i)))) {0..<n}"
  proof (rule inj_onI)
    fix i j
    assume ij: "i \<in> {0..<n}" "j \<in> {0..<n}"
      and eq: "Some (sint (last_patch_id dev + of_nat (Suc i))) = Some (sint (last_patch_id dev + of_nat (Suc j)))"
    then have "last_patch_id dev + of_nat (Suc i) = last_patch_id dev + of_nat (Suc j)"
      by (simp only: option.inject signed_word_eqI)
    then have "(of_nat i :: u32) = of_nat j" by simp
    then show "i = j" using ij assms by (intro of_nat_u32_inj) simp_all
  qed
  then have "distinct (patch_handles n dev)" by (simp add: patch_handles_eq distinct_map)
  moreover have "\<not> (length sources = 1 \<and> length sinks = 1 \<and> sources ! 0 = AUDIO_PORT_TYPE_DEVICE \<and>
      sinks ! 0 = AUDIO_PORT_TYPE_DEVICE)"
    if "sources \<noteq> [AUDIO_PORT_TYPE_DEVICE] \<or> sinks \<noteq> [AUDIO_PORT_TYPE_DEVICE]"
    using that by (auto simp: length_Suc_conv)
  then have "sources \<noteq> [AUDIO_PORT_TYPE_DEVICE] \<or> sinks \<noteq> [AUDIO_PORT_TYPE_DEVICE] \<longrightarrow>
      adev_create_audio_patch dev sources sinks = (dev, None, 0)"
    unfolding adev_create_audio_patch_def by (intro impI if_not_P) blast
  ultimately show ?thesis by (auto simp: patch_handles_eq)
qed

theorem patch_handles_distinct_witness: "distinct (patch_handles 3 dev_example)"
  using patch_handles_distinct [of 3 dev_example "[]" "[]"] by simp

text \<open>
  Selecting a zone: with a decimal zone below \<open>2 ^ 31\<close> as the parameter the device plays that
  zone; with anything else after the numeral, or without the parameter, the selection stays. Either
  way the result code is that of the hands-free part alone, so a malformed zone is not reported.
\<close>

theorem set_parameters_zone:
  assumes "parms AAE_PARAMETER_KEY_FOR_SELECTED_ZONE SIZE_OF_PARSE_BUFFER = (r, decimal n @ rest)"
    and "takeWhile is_digit (c_str rest) = []" and "\<And>d. hfp parms d = (d, code)"
  shows "adev_set_parameters hfp parms dev =
    (if 0 \<le> r \<and> c_str rest = [] \<and> n < 2 ^ 31 then dev\<lparr>last_zone_selected_to_play := int n\<rparr> else dev, code)"
proof -
  have v: "get_int_value parms AAE_PARAMETER_KEY_FOR_SELECTED_ZONE =
    (if r < 0 then (r, None)
     else if c_str rest = [] \<and> n < 2 ^ 31 then (r, Some (int n)) else (- EINVAL, None))"
    by (rule get_int_value_eq [where get = parms, OF assms(1,2)])
  show ?thesis by (simp add: adev_set_parameters_def v assms(3) Let_def not_le)
qed

theorem set_parameters_zone_witness:
  "adev_set_parameters (\<lambda>_ d. (d, 0)) (\<lambda>_ _. (1, ''12'')) dev_example =
     (dev_example\<lparr>last_zone_selected_to_play := 12\<rparr>, 0) \<and>
   adev_set_parameters (\<lambda>_ d. (d, 0)) (\<lambda>_ _. (1, ''12x'')) dev_example = (dev_example, 0)"
  using set_parameters_zone [of "\<lambda>_ _. (1, ''12'')" 1 12 "''''" "\<lambda>_ d. (d, 0)" 0 dev_example]
    set_parameters_zone [of "\<lambda>_ _. (1, ''12x'')" 1 12 "''x''" "\<lambda>_ d. (d, 0)" 0 dev_example]
  by (simp add: decimal_12 c_str_def is_digit_def)

text \<open>
  Hands-free: an enable request on an idle device whose mixer accepts it starts hands-free and
  sets the control to 1; the call returns the lookup code of the volume key, so without a volume a
  successful start is reported as that key's "not found".
\<close>

theorem hfp_enable_reported:
  assumes "get AUDIO_PARAMETER_HFP_ENABLE AUDIO_PARAMETER_HFP_VALUE_MAX = (r, ''true'')" and "0 \<le> r"
    and "get AUDIO_PARAMETER_HFP_SET_SAMPLING_RATE AUDIO_PARAMETER_HFP_VALUE_MAX = (r1, v1)" and "r1 < 0"
    and "get AUDIO_PARAMETER_HFP_VOLUME AUDIO_PARAMETER_HFP_VALUE_MAX = (r2, v2)" and "r2 < 0"
    and "\<not> hfp_running adev" and "mixer_get_ctl_by_name M (ad_mixer adev) AUDIO_PARAMETER_HFP_ENABLE = Some ctl"
    and "mixer_ctl_set_value M (ad_mixer adev) ctl 0 1 = (x, 0)"
  shows "audio_extn_hfp_set_parameters M get adev = (adev\<lparr>ad_mixer := x, hfp_running := True\<rparr>, r2)"
  using assms
  by (simp add: audio_extn_hfp_set_parameters_def hfp_part_enable_def hfp_part_rate_def hfp_part_volume_def
      hfp_set_enable_def strcmp_eq_def)

theorem hfp_enable_reported_witness:
  "audio_extn_hfp_set_parameters
     \<lparr>mixer_get_ctl_by_name = (\<lambda>_ _. Some 3), mixer_ctl_set_value = (\<lambda>x c i v. (x, 0))\<rparr>
     (\<lambda>k _. if k = AUDIO_PARAMETER_HFP_ENABLE then (4, ''true'') else (- 2, '''')) dev_example =
   (dev_example\<lparr>ad_mixer := (), hfp_running := True\<rparr>, - 2)"
  by (rule hfp_enable_reported [where r = 4 and ctl = 3 and ?r1.0 = "- 2" and ?v1.0 = "[]" and ?v2.0 = "[]"])
    (simp_all add: AUDIO_PARAMETER_HFP_ENABLE_def AUDIO_PARAMETER_HFP_SET_SAMPLING_RATE_def
      AUDIO_PARAMETER_HFP_VOLUME_def dev_example_def)

end
