(* ===== verification/Audio_Hal.thy ===== *)
theory Audio_Hal
  imports Audio_Device
begin

text \<open>
  The module level of \<open>hals/audio/driver/audio_hw.c\<close>: the global device handle and its reference
  count, opening and closing the device, opening, closing and registering streams, and the calls
  that find a stream by its bus address. Objects live in heaps whose indices are the pointers
  (\<open>None\<close> once freed); a function returns \<open>None\<close> where the code would follow a null or dangling
  pointer, or would wait for ever.
\<close>

section \<open>State\<close>

record ('m, 'f, 'x) audio_hal =
  audio_device_ref_count :: u32
  device_handle :: "nat option"
  static_adev :: "nat option"
  hal_devices :: "('m, 'f, 'x) generic_audio_device option list"
  pcm_config_in_period_count :: u32
  pcm_config_out_period_count :: u32
  hal_statics :: period_statics
  out_streams :: "generic_stream_out option list"
  in_streams :: "generic_stream_in option list"

text \<open>The platform: properties, maps, mixer, allocator, and the sample size of a PCM format.\<close>

record ('m, 'f, 'x) audio_platform =
  ap_props :: properties
  ap_simulate_multi_zone :: bool
  ap_out_map :: "('m, nat) hashmap_api"
  ap_tone_map :: "('f, int) hashmap_api"
  ap_mixer_open :: 'x
  ap_mixer_ctls :: "'x \<Rightarrow> (string \<times> nat) list"
  ap_mixer_set_percent :: "'x \<Rightarrow> nat \<Rightarrow> nat \<Rightarrow> int \<Rightarrow> 'x"
  ap_mixer_set_value :: "'x \<Rightarrow> nat \<Rightarrow> nat \<Rightarrow> int \<Rightarrow> 'x"
  ap_stream_calloc :: bool
  ap_buffer_calloc :: bool
  ap_format_to_bits :: "u32 \<Rightarrow> u32"

definition heap_get :: "'a option list \<Rightarrow> nat \<Rightarrow> 'a option" where
  "heap_get h p = (if p < length h then h ! p else None)"

lemma heap_get_simps [simp]:
  "heap_get (h @ [x]) (length h) = x"
  "p < length h \<Longrightarrow> heap_get (h[p := x]) q = (if p = q then x else heap_get h q)"
  "heap_get h p = Some y \<Longrightarrow> heap_get (h @ [x]) p = Some y"
  by (auto simp: heap_get_def nth_append split: if_splits)

lemma heap_get_len: "heap_get h p = Some y \<Longrightarrow> p < length h"
  by (auto simp: heap_get_def split: if_splits)

section \<open>Opening and closing the device\<close>

definition AUDIO_HARDWARE_INTERFACE :: string where "AUDIO_HARDWARE_INTERFACE = ''audio_hw_if''"

text \<open>The loop of \<open>adev_open\<close> over the mixer's controls: volumes to 100 percent, switches on.\<close>

definition default_ctl :: "('m, 'f, 'x) audio_platform \<Rightarrow> nat \<times> string \<times> nat \<Rightarrow> 'x \<Rightarrow> 'x" where
  "default_ctl E c x =
     (case c of (i, name, num_values) \<Rightarrow>
        if strcmp_eq name ''Master Playback Volume'' \<or> strcmp_eq name ''Capture Volume''
        then fold (\<lambda>z x. ap_mixer_set_percent E x i z 100) [0..<num_values] x
        else if strcmp_eq name ''Master Playback Switch'' \<or> strcmp_eq name ''Capture Switch''
        then fold (\<lambda>z x. ap_mixer_set_value E x i z 1) [0..<num_values] x
        else x)"

definition default_ctls :: "('m, 'f, 'x) audio_platform \<Rightarrow> 'x \<Rightarrow> 'x" where
  "default_ctls E x = fold (default_ctl E) (List.enumerate 0 (ap_mixer_ctls E x)) x"

definition new_device :: "('m, 'f, 'x) audio_platform \<Rightarrow> ('m, 'f, 'x) generic_audio_device" where
  "new_device E = \<lparr>last_patch_id = 0, master_mute = False, mic_mute = False,
     ad_mixer = default_ctls E (ap_mixer_open E),
     out_bus_stream_map = hashmapCreate (ap_out_map E), in_bus_tone_frequency_map = hashmapCreate (ap_tone_map E),
     next_tone_frequency_to_assign = DEFAULT_FREQUENCY, last_zone_selected_to_play = DEFAULT_ZONE_TO_LEFT_SPEAKER,
     hfp_running = False\<rparr>"

definition adev_open ::
    "('m, 'f, 'x) audio_platform \<Rightarrow> string \<Rightarrow> ('m, 'f, 'x) audio_hal \<Rightarrow> ('m, 'f, 'x) audio_hal \<times> int \<times> nat option" where
  "adev_open E name hal =
     (if \<not> strcmp_eq name AUDIO_HARDWARE_INTERFACE then (hal, - EINVAL, None)
      else if audio_device_ref_count hal \<noteq> 0
      then (hal\<lparr>audio_device_ref_count := audio_device_ref_count hal + 1\<rparr>, 0, static_adev hal)
      else
        let (in_count, st) = get_in_period_count (ap_props E) (hal_statics hal);
            (out_count, st) = get_out_period_count (ap_props E) st;
            i = length (hal_devices hal)
        in (hal\<lparr>pcm_config_in_period_count := word_of_int in_count,
                pcm_config_out_period_count := word_of_int out_count, hal_statics := st,
                hal_devices := hal_devices hal @ [Some (new_device E)], static_adev := Some i,
                device_handle := Some i, audio_device_ref_count := audio_device_ref_count hal + 1\<rparr>, 0, Some i))"

definition adev_close :: "nat option \<Rightarrow> ('m, 'f, 'x) audio_hal \<Rightarrow> (('m, 'f, 'x) audio_hal \<times> int) option" where
  "adev_close dev hal =
     (case dev of
        None \<Rightarrow> Some (hal, 0)
      | Some i \<Rightarrow>
         if audio_device_ref_count hal = 0 then Some (hal, - EINVAL)
         else
           let hal = hal\<lparr>audio_device_ref_count := audio_device_ref_count hal - 1\<rparr> in
           if audio_device_ref_count hal = 0 then
             (if heap_get (hal_devices hal) i = None then None
              else Some (hal\<lparr>hal_devices := (hal_devices hal)[i := None], device_handle := None\<rparr>, 0))
           else Some (hal, 0))"

section \<open>Output streams\<close>

definition zero_vbuffer :: audio_vbuffer where
  "zero_vbuffer = \<lparr>data = [], frame_size = 0, frame_count = 0, head = 0, tail = 0, live = 0\<rparr>"

abbreviation (input) PCM_FORMAT_S16_LE :: u32 where "PCM_FORMAT_S16_LE \<equiv> 0"

text \<open>The two templates, and the configuration of a stream made from one.\<close>

definition pcm_config_out :: pcm_config where
  "pcm_config_out = \<lparr>pc_channels = 2, pc_rate = 0, pc_period_size = 0, pc_period_count = 0,
     pc_format = PCM_FORMAT_S16_LE, pc_stop_threshold = 0\<rparr>"

definition pcm_config_in :: pcm_config where
  "pcm_config_in = \<lparr>pc_channels = 2, pc_rate = 0, pc_period_size = 0, pc_period_count = 0,
     pc_format = PCM_FORMAT_S16_LE, pc_stop_threshold = 2 ^ 31 - 1\<rparr>"

definition out_pcm_config :: "u32 \<Rightarrow> int \<Rightarrow> u32 \<Rightarrow> pcm_config" where
  "out_pcm_config rate period_ms period_count =
     pcm_config_out\<lparr>pc_rate := rate, pc_period_count := period_count, pc_period_size := (rate * word_of_int period_ms) div 1000\<rparr>"

lemma out_pcm_config_eq: "out_pcm_config rate period_ms period_count =
    \<lparr>pc_channels = 2, pc_rate = rate, pc_period_size = (rate * word_of_int period_ms) div 1000,
     pc_period_count = period_count, pc_format = PCM_FORMAT_S16_LE, pc_stop_threshold = 0\<rparr>"
  by (simp add: out_pcm_config_def pcm_config_out_def)

text \<open>The stream before its buffer: \<open>calloc\<close> and the assignments that follow.\<close>

definition stream_out_init :: "u32 \<Rightarrow> audio_config \<Rightarrow> pcm_config \<Rightarrow> generic_stream_out" where
  "stream_out_init dev config pc =
     \<lparr>so_device = dev, so_req_config = config, so_pcm_config = pc, so_buffer = zero_vbuffer, so_bus_address = None,
      so_gain_stage = \<lparr>min_value = 0, max_value = 0, step_value = 0\<rparr>, so_amplitude_ratio = 0,
      so_enabled_channels = 0, so_is_ducked = False, so_is_muted = False, so_standby = True,
      so_underrun_position = 0, so_underrun_time = \<lparr>tv_sec = 0, tv_nsec = 0\<rparr>, so_last_write_time_us = 0,
      so_frames_total_buffered = 0, so_frames_written = 0, so_frames_rendered = 0,
      so_worker_standby = False, so_worker_exit = False\<rparr>"

definition pcm_buffer_init :: "('m, 'f, 'x) audio_platform \<Rightarrow> pcm_config \<Rightarrow> audio_vbuffer \<times> int" where
  "pcm_buffer_init E pc =
     (case audio_vbuffer_init (ap_buffer_calloc E) (Some zero_vbuffer)
             (ucast (pc_period_size pc * pc_period_count pc))
             (ucast ((pc_channels pc * ap_format_to_bits E (pc_format pc)) div 8)) of
        (Some v, ret) \<Rightarrow> (v, ret) | (None, ret) \<Rightarrow> (zero_vbuffer, ret))"

text \<open>
  The part that runs when the buffer could be made: flags, channels and the bus address. Both
  multi-zone settings of the enabled channels depend on the address.
\<close>

definition stream_out_ready :: "('m, 'f, 'x) audio_platform \<Rightarrow> audio_vbuffer \<Rightarrow> string \<Rightarrow> generic_stream_out \<Rightarrow> generic_stream_out" where
  "stream_out_ready E vb address out =
     out\<lparr>so_buffer := vb, so_worker_standby := True, so_worker_exit := False,
        so_enabled_channels :=
          (if ap_simulate_multi_zone E
           then if strstr (c_str address) AUDIO_ZONE_KEYWORD \<noteq> None then RIGHT_CHANNEL else LEFT_CHANNEL
           else BOTH_CHANNELS),
        so_is_ducked := False, so_is_muted := False, so_bus_address := Some (c_str address),
        so_gain_stage := default_gain_stage, so_amplitude_ratio := 1\<rparr>"

text \<open>
  \<open>adev_open_output_stream\<close>: the module's state, the caller's refined configuration, the result
  code and the stream. A null address reaches \<open>strncpy\<close> and \<open>strstr\<close> as a null pointer.
\<close>

definition adev_open_output_stream ::
    "('m, 'f, 'x) audio_platform \<Rightarrow> nat \<Rightarrow> u32 \<Rightarrow> audio_config \<Rightarrow> string option \<Rightarrow> ('m, 'f, 'x) audio_hal \<Rightarrow>
     (('m, 'f, 'x) audio_hal \<times> audio_config \<times> int \<times> nat option) option" where
  "adev_open_output_stream E dev devs config address hal =
     (case refine_output_parameters config of (ret, config) \<Rightarrow>
        if ret \<noteq> 0 then Some (hal, config, - EINVAL, None)
        else if \<not> ap_stream_calloc E then Some (hal, config, - ENOMEM, None)
        else
          let (period_ms, st) = get_out_period_ms (ap_props E) (hal_statics hal);
              pc = out_pcm_config (sample_rate config) period_ms (pcm_config_out_period_count hal);
              out = stream_out_init devs config pc;
              (vb, ret) = pcm_buffer_init E pc;
              p = length (out_streams hal);
              hal = hal\<lparr>hal_statics := st\<rparr>
          in if ret \<noteq> 0
             then Some (hal\<lparr>out_streams := out_streams hal @ [Some (out\<lparr>so_buffer := vb\<rparr>)]\<rparr>, config, ret, None)
             else case (address, heap_get (hal_devices hal) dev) of
                    (Some a, Some d) \<Rightarrow>
                      Some (hal\<lparr>out_streams := out_streams hal @ [Some (stream_out_ready E vb a out)],
                                hal_devices := (hal_devices hal)[dev := Some (d\<lparr>out_bus_stream_map :=
                                  hashmapPut (ap_out_map E) (out_bus_stream_map d) (c_str a) p\<rparr>)]\<rparr>,
                            config, 0, Some p)
                  | _ \<Rightarrow> None)"

text \<open>
  \<open>adev_close_output_stream\<close>: \<open>slept\<close> and \<open>now\<close> as in \<open>do_out_standby\<close>; \<open>join\<close> gives the
  stream as the worker leaves it when it exits, \<open>None\<close> if it never does.
\<close>

definition adev_close_output_stream ::
    "('m, 'f, 'x) audio_platform \<Rightarrow>
     (nat \<Rightarrow> u64 \<Rightarrow> generic_stream_out \<times> timespec \<Rightarrow> generic_stream_out \<times> timespec) \<Rightarrow> timespec \<Rightarrow>
     (generic_stream_out \<Rightarrow> generic_stream_out option) \<Rightarrow> nat \<Rightarrow> nat \<Rightarrow> ('m, 'f, 'x) audio_hal \<Rightarrow>
     ('m, 'f, 'x) audio_hal option" where
  "adev_close_output_stream E slept now join dev p hal =
     Option.bind (heap_get (out_streams hal) p) (\<lambda>out.
     Option.bind (do_out_standby slept now out) (\<lambda>(out, now).
     Option.bind (join (out\<lparr>so_worker_exit := True\<rparr>)) (\<lambda>out.
     Option.bind (heap_get (hal_devices hal) dev) (\<lambda>d.
       let d = (case so_bus_address out of
                  None \<Rightarrow> d
                | Some a \<Rightarrow> d\<lparr>out_bus_stream_map := hashmapRemove (ap_out_map E) (out_bus_stream_map d) a\<rparr>)
       in Some (hal\<lparr>hal_devices := (hal_devices hal)[dev := Some d], out_streams := (out_streams hal)[p := None]\<rparr>)))))"

section \<open>Calls that find a stream by its address\<close>

text \<open>\<open>get_audio_device\<close>: the pointer registered for the address; \<open>None\<close> without one.\<close>

definition get_audio_device :: "('m, 'f, 'x) audio_platform \<Rightarrow> string \<Rightarrow> ('m, 'f, 'x) audio_hal \<Rightarrow> nat option" where
  "get_audio_device E address hal =
     (case Option.bind (device_handle hal) (heap_get (hal_devices hal)) of
        None \<Rightarrow> None
      | Some d \<Rightarrow> hashmapGet (ap_out_map E) (out_bus_stream_map d) address)"

definition update_out_stream ::
    "nat \<Rightarrow> (generic_stream_out \<Rightarrow> generic_stream_out) \<Rightarrow> ('m, 'f, 'x) audio_hal \<Rightarrow> ('m, 'f, 'x) audio_hal option" where
  "update_out_stream p f hal =
     (case heap_get (out_streams hal) p of
        None \<Rightarrow> None | Some out \<Rightarrow> Some (hal\<lparr>out_streams := (out_streams hal)[p := Some (f out)]\<rparr>))"

definition set_device_address_is_ducked ::
    "('m, 'f, 'x) audio_platform \<Rightarrow> string \<Rightarrow> bool \<Rightarrow> ('m, 'f, 'x) audio_hal \<Rightarrow> ('m, 'f, 'x) audio_hal option" where
  "set_device_address_is_ducked E device_address is_ducked hal =
     (case get_audio_device E device_address hal of
        None \<Rightarrow> Some hal
      | Some p \<Rightarrow> update_out_stream p (\<lambda>out. out\<lparr>so_is_ducked := is_ducked\<rparr>) hal)"

definition set_device_address_is_muted ::
    "('m, 'f, 'x) audio_platform \<Rightarrow> string \<Rightarrow> bool \<Rightarrow> ('m, 'f, 'x) audio_hal \<Rightarrow> ('m, 'f, 'x) audio_hal option" where
  "set_device_address_is_muted E device_address is_muted hal =
     (case get_audio_device E device_address hal of
        None \<Rightarrow> Some hal
      | Some p \<Rightarrow> update_out_stream p (\<lambda>out. out\<lparr>so_is_muted := is_muted\<rparr>) hal)"

definition adev_set_audio_port_config ::
    "('m, 'f, 'x) audio_platform \<Rightarrow> (real \<Rightarrow> real \<Rightarrow> real) \<Rightarrow> nat \<Rightarrow> string \<Rightarrow> int \<Rightarrow> ('m, 'f, 'x) audio_hal \<Rightarrow>
     (('m, 'f, 'x) audio_hal \<times> int) option" where
  "adev_set_audio_port_config E c_pow dev bus_address val hal =
     (case heap_get (hal_devices hal) dev of
        None \<Rightarrow> None
      | Some d \<Rightarrow>
         (case hashmapGet (ap_out_map E) (out_bus_stream_map d) bus_address of
            None \<Rightarrow> Some (hal, - EINVAL)
          | Some p \<Rightarrow>
             map_option (\<lambda>hal. (hal, 0))
               (update_out_stream p
                  (\<lambda>out. out\<lparr>so_amplitude_ratio := amplitude_of_gain c_pow (so_gain_stage out) val\<rparr>) hal)))"

section \<open>Input streams\<close>

definition in_pcm_config :: "u32 \<Rightarrow> int \<Rightarrow> u32 \<Rightarrow> pcm_config" where
  "in_pcm_config rate period_ms period_count =
     pcm_config_in\<lparr>pc_rate := rate, pc_period_count := period_count, pc_period_size := (rate * word_of_int period_ms) div 1000\<rparr>"

lemma in_pcm_config_eq: "in_pcm_config rate period_ms period_count =
    \<lparr>pc_channels = 2, pc_rate = rate, pc_period_size = (rate * word_of_int period_ms) div 1000,
     pc_period_count = period_count, pc_format = PCM_FORMAT_S16_LE, pc_stop_threshold = 2 ^ 31 - 1\<rparr>"
  by (simp add: in_pcm_config_def pcm_config_in_def)

definition stream_in_init :: "u32 \<Rightarrow> audio_config \<Rightarrow> pcm_config \<Rightarrow> audio_vbuffer \<Rightarrow> generic_stream_in" where
  "stream_in_init devs config pc vb =
     \<lparr>si_device = devs, si_req_config = config, si_pcm_config = pc, si_stereo_to_mono_buf = None,
      si_stereo_to_mono_buf_size = 0, si_buffer = vb, si_bus_address = None, si_standby = True,
      si_standby_position = 0, si_standby_exit_time = \<lparr>tv_sec = 0, tv_nsec = 0\<rparr>, si_standby_frames_read = 0,
      si_worker_standby = False, si_worker_exit = False, si_oscillator = \<lparr>phase = 0, phase_increment = 0\<rparr>\<rparr>"

text \<open>
  The lines of \<open>adev_open_input_stream\<close> under \<open>if (address)\<close>. They run also when the buffer
  could not be made. Only a tone generator reads the device; \<open>None\<close> if that one is gone.
\<close>

definition in_set_address ::
    "('m, 'f, 'x) audio_platform \<Rightarrow> string \<Rightarrow> ('m, 'f, 'x) generic_audio_device option \<Rightarrow> generic_stream_in \<Rightarrow>
     (generic_stream_in \<times> ('m, 'f, 'x) generic_audio_device option) option" where
  "in_set_address E address adev in_s =
     (let in_s = in_s\<lparr>si_bus_address := Some (c_str address)\<rparr> in
      case is_tone_generator_device in_s of
        None \<Rightarrow> None
      | Some False \<Rightarrow> Some (in_s, adev)
      | Some True \<Rightarrow>
         (case adev of
            None \<Rightarrow> None
          | Some d \<Rightarrow>
             (case assign_tone_frequency (ap_tone_map E) d address of (d, frequency) \<Rightarrow>
                Some (in_s\<lparr>si_oscillator := tone_oscillator frequency (in_get_sample_rate in_s)\<rparr>, Some d))))"

text \<open>
  \<open>adev_open_input_stream\<close>: the result code is that of the buffer's initialization, but the
  stream is handed out either way.
\<close>

definition adev_open_input_stream ::
    "('m, 'f, 'x) audio_platform \<Rightarrow> nat \<Rightarrow> u32 \<Rightarrow> audio_config \<Rightarrow> string option \<Rightarrow> ('m, 'f, 'x) audio_hal \<Rightarrow>
     (('m, 'f, 'x) audio_hal \<times> audio_config \<times> int \<times> nat option) option" where
  "adev_open_input_stream E dev devs config address hal =
     (case refine_input_parameters config of (ret, config) \<Rightarrow>
        if ret \<noteq> 0 then Some (hal, config, - EINVAL, None)
        else if \<not> ap_stream_calloc E then Some (hal, config, - ENOMEM, None)
        else
          let (period_ms, st) = get_in_period_ms (ap_props E) (hal_statics hal);
              pc = in_pcm_config (sample_rate config) period_ms (pcm_config_in_period_count hal);
              (vb, ret) = pcm_buffer_init E pc;
              in_s = stream_in_init devs config pc vb;
              in_s = (if ret = 0 then in_s\<lparr>si_worker_standby := True, si_worker_exit := False\<rparr> else in_s);
              p = length (in_streams hal);
              hal = hal\<lparr>hal_statics := st\<rparr>
          in case address of
               None \<Rightarrow> Some (hal\<lparr>in_streams := in_streams hal @ [Some in_s]\<rparr>, config, ret, Some p)
             | Some a \<Rightarrow>
                map_option
                  (\<lambda>(in_s, adev). (hal\<lparr>in_streams := in_streams hal @ [Some in_s],
                                     hal_devices := (hal_devices hal)[dev := adev]\<rparr>, config, ret, Some p))
                  (in_set_address E a (heap_get (hal_devices hal) dev) in_s))"

text \<open>\<open>adev_close_input_stream\<close>: clock and \<open>join\<close> as for output.\<close>

definition adev_close_input_stream ::
    "timespec \<Rightarrow> (generic_stream_in \<Rightarrow> generic_stream_in option) \<Rightarrow> nat \<Rightarrow>
     ('m, 'f, 'x) audio_hal \<Rightarrow> ('m, 'f, 'x) audio_hal option" where
  "adev_close_input_stream now join p hal =
     Option.bind (heap_get (in_streams hal) p) (\<lambda>in_s.
     Option.bind (join ((do_in_standby now in_s)\<lparr>si_worker_exit := True\<rparr>)) (\<lambda>in_s.
     Some (hal\<lparr>in_streams := (in_streams hal)[p := None]\<rparr>)))"

section \<open>Lemmas on opening\<close>

lemma registry_put:
  assumes "hashmap (ap_out_map E) str_eq" and "device_handle hal = Some dev" and "heap_get (hal_devices hal) dev = Some d"
  shows "get_audio_device E b (hal\<lparr>out_streams := ss, hal_devices := (hal_devices hal)[dev := Some (d\<lparr>out_bus_stream_map :=
           hashmapPut (ap_out_map E) (out_bus_stream_map d) a p\<rparr>)]\<rparr>) =
         (if str_eq a b then Some p else get_audio_device E b hal)"
  using assms heap_get_len [OF assms(3)]
  by (simp add: get_audio_device_def hashmap.get_put [OF assms(1)])

lemma registry_remove:
  assumes "hashmap (ap_out_map E) str_eq" and "device_handle hal = Some dev" and "heap_get (hal_devices hal) dev = Some d"
  shows "get_audio_device E b (hal\<lparr>hal_devices := (hal_devices hal)[dev := Some (d\<lparr>out_bus_stream_map :=
           hashmapRemove (ap_out_map E) (out_bus_stream_map d) a\<rparr>)], out_streams := ss\<rparr>) =
         (if str_eq a b then None else get_audio_device E b hal)"
  using assms heap_get_len [OF assms(3)]
  by (simp add: get_audio_device_def hashmap.get_remove [OF assms(1)])

text \<open>The size of a period and of the ring, for the rates both directions accept.\<close>

lemma period_size_unat:
  fixes rate :: u32
  assumes "8000 \<le> rate" and "rate \<le> 48000" and "0 < ms" and "ms \<le> 1000"
  shows "unat ((rate * word_of_int ms) div 1000) = unat rate * nat ms div 1000"
    and "0 < unat rate * nat ms div 1000" and "unat rate * nat ms div 1000 \<le> 48000"
proof -
  have r: "8000 \<le> unat rate" "unat rate \<le> 48000" using assms(1,2) by (simp_all add: word_le_nat_alt)
  have m: "unat (word_of_int ms :: u32) = nat ms" using assms(3,4) by (simp add: unat_eq_nat_uint uint_word_of_int)
  have le: "unat rate * nat ms \<le> 48000 * 1000" using r(2) assms(4) by (intro mult_le_mono) simp_all
  have ge: "8000 * 1 \<le> unat rate * nat ms" using r(1) assms(3) by (intro mult_le_mono) simp_all
  have "unat (rate * word_of_int ms) = unat rate * nat ms" using le m by (subst unat_mult_bounded32) simp_all
  then show "unat ((rate * word_of_int ms) div 1000) = unat rate * nat ms div 1000" by (simp add: unat_div)
  show "0 < unat rate * nat ms div 1000" using ge by (simp add: div_greater_zero_iff)
  show "unat rate * nat ms div 1000 \<le> 48000" using div_le_mono [OF le, of 1000] by simp
qed

lemma pcm_buffer_init_ok:
  assumes "ap_buffer_calloc E" and "ap_format_to_bits E PCM_FORMAT_S16_LE = 16"
    and "pc_channels pc = 2" and "pc_format pc = PCM_FORMAT_S16_LE"
    and "0 < unat (pc_period_size pc) * unat (pc_period_count pc)"
    and "unat (pc_period_size pc) * unat (pc_period_count pc) < 2 ^ 31"
  shows "\<exists>vb. pcm_buffer_init E pc = (vb, 0) \<and> vb_ok vb \<and> vb_contents vb = [] \<and> vb_fs vb = 4 \<and>
    audio_vbuffer_live (Some vb) = 0 \<and>
    audio_vbuffer_dead (Some vb) = int (unat (pc_period_size pc) * unat (pc_period_count pc))"
proof -
  let ?fc = "ucast (pc_period_size pc * pc_period_count pc) :: size_t"
  have u: "unat (pc_period_size pc * pc_period_count pc) = unat (pc_period_size pc) * unat (pc_period_count pc)"
    using assms(6) by (intro unat_mult_bounded32) simp
  then have fc: "unat ?fc = unat (pc_period_size pc) * unat (pc_period_count pc)"
    by simp
  have fs: "(ucast ((pc_channels pc * ap_format_to_bits E (pc_format pc)) div 8) :: size_t) = 4"
    using assms(2-4) by simp
  obtain v where v: "audio_vbuffer_init True (Some zero_vbuffer) ?fc 4 = (Some v, 0)" "vb_ok v" "vb_contents v = []"
    "audio_vbuffer_live (Some v) = 0" "audio_vbuffer_dead (Some v) = int (unat ?fc)" "frame_size v = 4"
    using vbuffer_init_spec [of ?fc 4 zero_vbuffer] assms(5,6) fc by auto
  then have "vb_fs v = 4" by simp
  then show ?thesis using v fc by (auto simp: pcm_buffer_init_def fs assms(1) simp del: of_nat_unat)
qed


lemma rates_range:
  assumes "config_supported output_sample_rates c \<or> config_supported input_sample_rates c"
  shows "8000 \<le> sample_rate c" and "sample_rate c \<le> 48000"
  using assms by (auto simp: config_supported_def output_sample_rates_def input_sample_rates_def)

lemma refine_supported:
  "config_supported output_sample_rates c \<Longrightarrow> refine_output_parameters c = (0, c)"
  "config_supported input_sample_rates c \<Longrightarrow> refine_input_parameters c = (0, c)"
proof -
  have r: "refine_parameters rates c = (0, c)"
    if "config_supported rates c" "sorted_wrt (<) rates" "rates \<noteq> []" for rates
    using refine_parameters_spec [OF that(2,3), of c] that(1) by (metis prod.collapse)
  show "config_supported output_sample_rates c \<Longrightarrow> refine_output_parameters c = (0, c)"
    "config_supported input_sample_rates c \<Longrightarrow> refine_input_parameters c = (0, c)"
    using r rates_sorted by (auto simp: refine_output_parameters_def refine_input_parameters_def)
qed

section \<open>Properties\<close>

text \<open>
  C35. Opening an output stream for a supported configuration, with periods of at most a second,
  succeeds: the stream is new, in standby, not muted, at unit gain, its ring well-formed, empty and
  as large as all periods together, and from then on the address, and only it, leads to the stream.
\<close>

theorem open_output_registers:
  assumes "hashmap (ap_out_map E) str_eq" and "config_supported output_sample_rates config"
    and "ap_stream_calloc E" and "ap_buffer_calloc E" and "ap_format_to_bits E PCM_FORMAT_S16_LE = 16"
    and "get_out_period_ms (ap_props E) (hal_statics hal) = (ms, st)" and "0 < ms" and "ms \<le> 1000"
    and "0 < pcm_config_out_period_count hal" and "pcm_config_out_period_count hal \<le> 1000"
    and "device_handle hal = Some dev" and "heap_get (hal_devices hal) dev = Some d"
  shows "\<exists>hal' p out. adev_open_output_stream E dev devs config (Some a) hal = Some (hal', config, 0, Some p) \<and>
    heap_get (out_streams hal) p = None \<and> heap_get (out_streams hal') p = Some out \<and>
    so_standby out \<and> \<not> so_is_muted out \<and> so_amplitude_ratio out = 1 \<and> so_bus_address out = Some (c_str a) \<and>
    vb_ok (so_buffer out) \<and> vb_contents (so_buffer out) = [] \<and> vb_fs (so_buffer out) = 4 \<and>
    audio_vbuffer_dead (Some (so_buffer out)) =
      int ((unat (sample_rate config) * nat ms div 1000) * unat (pcm_config_out_period_count hal)) \<and>
    (\<forall>b. get_audio_device E b hal' = (if str_eq a b then Some p else get_audio_device E b hal))"
proof -
  let ?pc = "out_pcm_config (sample_rate config) ms (pcm_config_out_period_count hal)"
  note rr = rates_range [OF disjI1 [OF assms(2)]]
  note ps = period_size_unat [OF rr assms(7,8)]
  have cnt: "0 < unat (pcm_config_out_period_count hal)" "unat (pcm_config_out_period_count hal) \<le> 1000"
    using assms(9,10) by (simp_all add: word_le_nat_alt word_less_nat_alt)
  have size: "unat (pc_period_size ?pc) * unat (pc_period_count ?pc) =
      (unat (sample_rate config) * nat ms div 1000) * unat (pcm_config_out_period_count hal)"
    by (simp only: out_pcm_config_eq pcm_config.simps ps(1))
  have "(unat (sample_rate config) * nat ms div 1000) * unat (pcm_config_out_period_count hal) \<le> 48000 * 1000"
    using ps(3) cnt(2) by (intro mult_le_mono)
  then obtain vb where vb: "pcm_buffer_init E ?pc = (vb, 0)" "vb_ok vb" "vb_contents vb = []" "vb_fs vb = 4"
    "audio_vbuffer_dead (Some vb) =
      int ((unat (sample_rate config) * nat ms div 1000) * unat (pcm_config_out_period_count hal))"
    using pcm_buffer_init_ok [of E ?pc] assms(4,5) ps(2) cnt(1)
    unfolding size by (auto simp: out_pcm_config_eq simp del: of_nat_mult of_nat_unat)
  let ?out = "stream_out_ready E vb a (stream_out_init devs config ?pc)"
  let ?p = "length (out_streams hal)"
  let ?hal' = "hal\<lparr>hal_statics := st, out_streams := out_streams hal @ [Some ?out],
     hal_devices := (hal_devices hal)[dev := Some (d\<lparr>out_bus_stream_map :=
       hashmapPut (ap_out_map E) (out_bus_stream_map d) (c_str a) ?p\<rparr>)]\<rparr>"
  have run: "adev_open_output_stream E dev devs config (Some a) hal = Some (?hal', config, 0, Some ?p)"
    by (simp add: adev_open_output_stream_def refine_supported(1) [OF assms(2)] assms(3,6,12) vb(1) Let_def)
  have reg: "get_audio_device E b ?hal' = (if str_eq a b then Some ?p else get_audio_device E b hal)" for b
    using registry_put [where hal = "hal\<lparr>hal_statics := st\<rparr>" and E = E and dev = dev and d = d and b = b and
        a = "c_str a" and p = ?p and ss = "out_streams hal @ [Some ?out]"] assms(1,11,12)
    by (simp add: get_audio_device_def str_eq_def strcmp_eq_def)
  show ?thesis
    by (intro exI [of _ ?hal'] exI [of _ ?p] exI [of _ ?out] conjI allI)
      (use run vb reg in \<open>simp_all add: stream_out_ready_def stream_out_init_def heap_get_def del: of_nat_mult of_nat_unat\<close>)
qed


definition platform_example ::
    "((string \<times> nat) list, (string \<times> int) list, unit) audio_platform" where
  "platform_example = \<lparr>ap_props = \<lparr>property_get = \<lambda>_. 0, property_get_int32 = \<lambda>_ d. d\<rparr>,
     ap_simulate_multi_zone = True, ap_out_map = alist_api str_eq, ap_tone_map = alist_api str_eq,
     ap_mixer_open = (), ap_mixer_ctls = \<lambda>_. [], ap_mixer_set_percent = \<lambda>x _ _ _. x,
     ap_mixer_set_value = \<lambda>x _ _ _. x, ap_stream_calloc = True, ap_buffer_calloc = True,
     ap_format_to_bits = \<lambda>_. 16\<rparr>"

definition hal_example :: "((string \<times> nat) list, (string \<times> int) list, unit) audio_hal" where
  "hal_example = \<lparr>audio_device_ref_count = 1, device_handle = Some 0, static_adev = Some 0,
     hal_devices = [Some dev_example], pcm_config_in_period_count = 4, pcm_config_out_period_count = 4,
     hal_statics = period_statics_init, out_streams = [], in_streams = []\<rparr>"

lemma platform_example_facts:
  "hashmap (ap_out_map platform_example) str_eq" "hashmap (ap_tone_map platform_example) str_eq"
  "get_out_period_ms (ap_props platform_example) (hal_statics hal_example) =
     (15, period_statics_init\<lparr>out_period_ms := 15\<rparr>)"
  "get_in_period_ms (ap_props platform_example) (hal_statics hal_example) =
     (15, period_statics_init\<lparr>in_period_ms := 15\<rparr>)"
  using str_map.hashmap_axioms
  by (simp_all add: platform_example_def hal_example_def get_out_period_ms_def get_in_period_ms_def
      period_statics_init_def PROP_KEY_OUT_PERIOD_MS_def PROP_KEY_IN_PERIOD_MS_def Let_def)

theorem open_output_registers_witness:
  "\<exists>hal' p out. adev_open_output_stream platform_example 0 2 \<lparr>sample_rate = 48000, channel_mask = 0xC, format = 1\<rparr>
       (Some ''bus0'') hal_example = Some (hal', \<lparr>sample_rate = 48000, channel_mask = 0xC, format = 1\<rparr>, 0, Some p) \<and>
     heap_get (out_streams hal') p = Some out \<and> audio_vbuffer_dead (Some (so_buffer out)) = 2880 \<and>
     get_audio_device platform_example ''bus0'' hal' = Some p"
proof -
  let ?c = "\<lparr>sample_rate = 48000, channel_mask = 0xC, format = 1\<rparr> :: audio_config"
  have c: "config_supported output_sample_rates ?c" by (simp add: config_supported_def output_sample_rates_def)
  obtain hal' p out where
    "adev_open_output_stream platform_example 0 2 ?c (Some ''bus0'') hal_example = Some (hal', ?c, 0, Some p)"
    "heap_get (out_streams hal') p = Some out"
    "audio_vbuffer_dead (Some (so_buffer out)) = int ((unat (48000 :: u32) * nat 15 div 1000) * unat (4 :: u32))"
    "get_audio_device platform_example ''bus0'' hal' = Some p"
    using open_output_registers [OF platform_example_facts(1) c _ _ _ platform_example_facts(3), of 0 dev_example 2 "''bus0''"]
    by (auto simp: platform_example_def hal_example_def heap_get_def str_eq_def strcmp_eq_def)
  then show ?thesis by (intro exI [of _ hal'] exI [of _ p] exI [of _ out]) simp
qed

section \<open>Controls by address\<close>

datatype address_control = Duck string bool | Mute string bool

fun run_control :: "('m, 'f, 'x) audio_platform \<Rightarrow> address_control \<Rightarrow> ('m, 'f, 'x) audio_hal \<Rightarrow> ('m, 'f, 'x) audio_hal option" where
  "run_control E (Duck a b) hal = set_device_address_is_ducked E a b hal"
| "run_control E (Mute a b) hal = set_device_address_is_muted E a b hal"

fun run_controls :: "('m, 'f, 'x) audio_platform \<Rightarrow> address_control list \<Rightarrow> ('m, 'f, 'x) audio_hal \<Rightarrow> ('m, 'f, 'x) audio_hal option" where
  "run_controls E [] hal = Some hal"
| "run_controls E (c # cs) hal = Option.bind (run_control E c hal) (run_controls E cs)"

text \<open>What a sequence of controls asks for the stream at \<open>a\<close>: the last request for it counts.\<close>

fun requested :: "string \<Rightarrow> address_control list \<Rightarrow> bool \<times> bool \<Rightarrow> bool \<times> bool" where
  "requested a [] s = s"
| "requested a (Duck b x # cs) s = requested a cs (if str_eq a b then (x, snd s) else s)"
| "requested a (Mute b x # cs) s = requested a cs (if str_eq a b then (fst s, x) else s)"

definition no_dangling :: "('m, 'f, 'x) audio_platform \<Rightarrow> ('m, 'f, 'x) audio_hal \<Rightarrow> bool" where
  "no_dangling E hal \<longleftrightarrow> (\<forall>b q. get_audio_device E b hal = Some q \<longrightarrow> heap_get (out_streams hal) q \<noteq> None)"

lemma get_audio_device_streams [simp]: "get_audio_device E b (hal\<lparr>out_streams := ss\<rparr>) = get_audio_device E b hal"
  by (simp add: get_audio_device_def)

lemma update_out_stream_Some:
  assumes "heap_get (out_streams hal) q = Some o2"
  shows "update_out_stream q f hal = Some (hal\<lparr>out_streams := (out_streams hal)[q := Some (f o2)]\<rparr>)"
  by (simp add: update_out_stream_def assms)

text \<open>One control: it finds a live stream or does nothing; the stream at \<open>a\<close> follows its requests.\<close>

lemma run_control_step:
  assumes "no_dangling E hal" and a: "get_audio_device E a hal = Some p"
    and "\<And>b. get_audio_device E b hal = Some p \<longleftrightarrow> str_eq a b" and out: "heap_get (out_streams hal) p = Some out"
  shows "\<exists>hal'. run_control E c hal = Some hal' \<and> no_dangling E hal' \<and>
    (\<forall>b. get_audio_device E b hal' = get_audio_device E b hal) \<and>
    heap_get (out_streams hal') p = Some (case requested a [c] (so_is_ducked out, so_is_muted out) of
      (d, m) \<Rightarrow> out\<lparr>so_is_ducked := d, so_is_muted := m\<rparr>)"
proof -
  have step: "\<exists>hal'. (case get_audio_device E b hal of None \<Rightarrow> Some hal | Some q \<Rightarrow> update_out_stream q f hal) = Some hal' \<and>
      no_dangling E hal' \<and> (\<forall>b. get_audio_device E b hal' = get_audio_device E b hal) \<and>
      heap_get (out_streams hal') p = Some (if str_eq a b then f out else out)" for b f
  proof (cases "get_audio_device E b hal")
    case None
    then have "\<not> str_eq a b" using assms(3) [of b] by simp
    then show ?thesis using assms(1) out None by simp
  next
    case (Some q)
    obtain o2 where o2: "heap_get (out_streams hal) q = Some o2" using assms(1) Some by (auto simp: no_dangling_def)
    have eq: "str_eq a b \<longleftrightarrow> q = p" using assms(3) [of b] Some by auto
    have "no_dangling E (hal\<lparr>out_streams := (out_streams hal)[q := Some (f o2)]\<rparr>)"
      using assms(1) heap_get_len [OF o2] by (auto simp: no_dangling_def)
    then show ?thesis using heap_get_len [OF o2] out o2 eq by (auto simp: Some update_out_stream_Some [OF o2])
  qed
  show ?thesis
  proof (cases c)
    case (Duck b x)
    show ?thesis
      using step [where b = b and f = "so_is_ducked_update (\<lambda>_. x)"]
      by (cases "str_eq a b") (simp_all add: Duck set_device_address_is_ducked_def)
  next
    case (Mute b x)
    show ?thesis
      using step [where b = b and f = "so_is_muted_update (\<lambda>_. x)"]
      by (cases "str_eq a b") (simp_all add: Mute set_device_address_is_muted_def)
  qed
qed


lemma run_controls_reach:
  assumes "no_dangling E hal" and "\<And>b. get_audio_device E b hal = Some p \<longleftrightarrow> str_eq a b"
    and "heap_get (out_streams hal) p = Some out"
  shows "\<exists>hal'. run_controls E cs hal = Some hal' \<and>
    (\<forall>b. get_audio_device E b hal' = get_audio_device E b hal) \<and>
    heap_get (out_streams hal') p = Some (case requested a cs (so_is_ducked out, so_is_muted out) of
      (d, m) \<Rightarrow> out\<lparr>so_is_ducked := d, so_is_muted := m\<rparr>)"
  using assms
proof (induction cs arbitrary: hal out)
  case (Cons c cs)
  have a: "get_audio_device E a hal = Some p" using Cons.prems(2) by (simp add: str_eq_def strcmp_eq_def)
  obtain h out1 where h: "run_control E c hal = Some h" "no_dangling E h"
    "\<forall>b. get_audio_device E b h = get_audio_device E b hal" "heap_get (out_streams h) p = Some out1"
    "out1 = (case requested a [c] (so_is_ducked out, so_is_muted out) of
      (d, m) \<Rightarrow> out\<lparr>so_is_ducked := d, so_is_muted := m\<rparr>)"
    using run_control_step [OF Cons.prems(1) a Cons.prems(2,3), of c] by auto
  have flags: "(so_is_ducked out1, so_is_muted out1) = requested a [c] (so_is_ducked out, so_is_muted out)"
    by (simp add: h(5) split: prod.split)
  have twice: "out1\<lparr>so_is_ducked := d, so_is_muted := m\<rparr> = out\<lparr>so_is_ducked := d, so_is_muted := m\<rparr>" for d m
    by (simp add: h(5) split: prod.split)
  have seq: "requested a cs (requested a [c] s) = requested a (c # cs) s" for s by (cases c) simp_all
  have reg: "get_audio_device E b h = Some p \<longleftrightarrow> str_eq a b" for b using h(3) Cons.prems(2) by simp
  show ?case
    using Cons.IH [OF h(2) reg h(4)] h(1,3) unfolding flags seq twice by auto
qed simp

text \<open>
  Ducking and muting by address: a sequence of such calls always returns, the registered
  stream ends up as the last requests for its address ask, keeps everything else, and requests for
  other addresses, registered or not, do not touch it.
\<close>

theorem controls_reach_their_stream:
  assumes "no_dangling E hal" and "\<And>b. get_audio_device E b hal = Some p \<longleftrightarrow> str_eq a b"
    and "heap_get (out_streams hal) p = Some out"
    and "requested a cs (so_is_ducked out, so_is_muted out) = (ducked, muted)"
  shows "\<exists>hal'. run_controls E cs hal = Some hal' \<and>
    (\<forall>b. get_audio_device E b hal' = get_audio_device E b hal) \<and>
    heap_get (out_streams hal') p = Some (out\<lparr>so_is_ducked := ducked, so_is_muted := muted\<rparr>)"
  using run_controls_reach [OF assms(1-3), of cs] assms(4) by simp

definition hal_two :: "string \<Rightarrow> ((string \<times> nat) list, (string \<times> int) list, unit) audio_hal" where
  "hal_two b = hal_example\<lparr>out_streams := [Some so_example, Some so_example],
     hal_devices := [Some (dev_example\<lparr>out_bus_stream_map := [(b, 1), (''bus0'', 0)]\<rparr>)]\<rparr>"

lemma hal_two_get: "get_audio_device platform_example c (hal_two b) =
    (if str_eq b c then Some 1 else if str_eq ''bus0'' c then Some 0 else None)"
  by (simp add: get_audio_device_def hal_two_def hal_example_def platform_example_def alist_api_def heap_get_def)

lemma str_eq_lit: "str_eq a b \<longleftrightarrow> c_str b = c_str a" "c_str ''bus0'' = ''bus0''" "c_str ''bus1'' = ''bus1''" "c_str ''x'' = ''x''"
  by (auto simp: str_eq_def strcmp_eq_def c_str_def)

theorem controls_reach_their_stream_witness:
  "\<exists>hal'. run_controls platform_example [Duck ''bus0'' True, Mute ''bus1'' True, Duck ''x'' True, Duck ''bus0'' False,
       Mute ''bus0'' True] (hal_two ''bus1'') = Some hal' \<and>
     heap_get (out_streams hal') 0 = Some (so_example\<lparr>so_is_ducked := False, so_is_muted := True\<rparr>)"
proof -
  have nd: "no_dangling platform_example (hal_two ''bus1'')"
    unfolding no_dangling_def hal_two_get by (auto simp: hal_two_def hal_example_def heap_get_def split: if_splits)
  have reg: "get_audio_device platform_example b (hal_two ''bus1'') = Some 0 \<longleftrightarrow> str_eq ''bus0'' b" for b
    unfolding hal_two_get by (auto simp: str_eq_lit)
  have s: "heap_get (out_streams (hal_two ''bus1'')) 0 = Some so_example"
    by (simp add: hal_two_def hal_example_def heap_get_def)
  have req: "requested ''bus0'' [Duck ''bus0'' True, Mute ''bus1'' True, Duck ''x'' True, Duck ''bus0'' False,
       Mute ''bus0'' True] (so_is_ducked so_example, so_is_muted so_example) = (False, True)"
    by (simp add: str_eq_lit)
  show ?thesis using controls_reach_their_stream [OF nd reg s req] by blast
qed

section \<open>Closing\<close>

text \<open>
  Two open streams with one address: the map holds the one opened last. Closing the older one
  removes the address from the map, so the younger one, still open, is not found any more and
  address controls do not reach it.
\<close>

theorem close_unregisters_newer:
  assumes "hashmap (ap_out_map E) str_eq" and "device_handle hal = Some dev" and "hal_devices hal ! dev = Some d"
    and "dev < length (hal_devices hal)" and "heap_get (out_streams hal) p = Some older" and "so_standby older"
    and "so_bus_address older = Some a" and "join (older\<lparr>so_worker_exit := True\<rparr>) = Some final"
    and "so_bus_address final = Some a" and "heap_get (out_streams hal) q = Some newer" and "p \<noteq> q"
    and "get_audio_device E a hal = Some q"
  shows "\<exists>hal'. adev_close_output_stream E slept now join dev p hal = Some hal' \<and>
    heap_get (out_streams hal') p = None \<and> heap_get (out_streams hal') q = Some newer \<and>
    get_audio_device E a hal' = None \<and> set_device_address_is_muted E a True hal' = Some hal'"
proof -
  have d: "heap_get (hal_devices hal) dev = Some d" using assms(3,4) by (simp add: heap_get_def)
  let ?hal' = "hal\<lparr>hal_devices := (hal_devices hal)[dev := Some (d\<lparr>out_bus_stream_map :=
      hashmapRemove (ap_out_map E) (out_bus_stream_map d) a\<rparr>)], out_streams := (out_streams hal)[p := None]\<rparr>"
  have run: "adev_close_output_stream E slept now join dev p hal = Some ?hal'"
    by (simp add: adev_close_output_stream_def assms(5-9) do_out_standby_def d Let_def)
  have gone: "get_audio_device E a ?hal' = None"
    using registry_remove [OF assms(1,2) d, where a = a and b = a] by (simp add: str_eq_def strcmp_eq_def)
  show ?thesis
    by (intro exI [of _ ?hal'] conjI)
      (use run gone assms(10,11) heap_get_len [OF assms(5)] in \<open>simp_all add: set_device_address_is_muted_def\<close>)
qed

theorem close_unregisters_newer_witness:
  "\<exists>hal'. adev_close_output_stream platform_example (\<lambda>_ _ s. s) \<lparr>tv_sec = 9, tv_nsec = 0\<rparr> Some 0 0 (hal_two ''bus0'') = Some hal' \<and>
     heap_get (out_streams hal') 1 = Some so_example \<and> get_audio_device platform_example ''bus0'' hal' = None"
proof -
  let ?d = "dev_example\<lparr>out_bus_stream_map := [(''bus0'', 1), (''bus0'', 0)]\<rparr>"
  have h: "device_handle (hal_two ''bus0'') = Some 0" "hal_devices (hal_two ''bus0'') = [Some ?d]"
    "heap_get (out_streams (hal_two ''bus0'')) 0 = Some so_example" "heap_get (out_streams (hal_two ''bus0'')) 1 = Some so_example"
    by (simp_all add: hal_two_def hal_example_def heap_get_def)
  have s: "so_standby so_example" "so_bus_address so_example = Some ''bus0''" by (simp_all add: so_example_def)
  have reg: "get_audio_device platform_example ''bus0'' (hal_two ''bus0'') = Some 1"
    by (simp add: hal_two_get str_eq_lit)
  show ?thesis
    using close_unregisters_newer [OF platform_example_facts(1) h(1) _ _ h(3) s _ _ h(4) _ reg,
        of ?d Some "so_example\<lparr>so_worker_exit := True\<rparr>" "\<lambda>_ _ s. s" "\<lparr>tv_sec = 9, tv_nsec = 0\<rparr>"] h(2) s(2)
    by auto
qed

text \<open>Opening the device \<open>n\<close> times, and closing it \<open>n\<close> times as long as each call succeeds.\<close>

fun adev_opens :: "('m, 'f, 'x) audio_platform \<Rightarrow> nat \<Rightarrow> ('m, 'f, 'x) audio_hal \<Rightarrow>
    ('m, 'f, 'x) audio_hal \<times> (int \<times> nat option) list" where
  "adev_opens E 0 hal = (hal, [])"
| "adev_opens E (Suc n) hal =
     (let (hal, ret, dev) = adev_open E AUDIO_HARDWARE_INTERFACE hal; (hal, rs) = adev_opens E n hal
      in (hal, (ret, dev) # rs))"

fun adev_closes :: "nat \<Rightarrow> nat \<Rightarrow> ('m, 'f, 'x) audio_hal \<Rightarrow> ('m, 'f, 'x) audio_hal option" where
  "adev_closes 0 dev hal = Some hal"
| "adev_closes (Suc n) dev hal =
     Option.bind (adev_close (Some dev) hal) (\<lambda>(hal, ret). if ret = 0 then adev_closes n dev hal else None)"

lemma opens_more:
  assumes "audio_device_ref_count hal = of_nat k" and "0 < k" and "k + n < 2 ^ 32" and "static_adev hal = Some i"
  shows "adev_opens E n hal = (hal\<lparr>audio_device_ref_count := of_nat (k + n)\<rparr>, replicate n (0, Some i))"
  using assms
proof (induction n arbitrary: k hal)
  case (Suc n)
  have "(of_nat k :: u32) \<noteq> 0" using Suc.prems of_nat_u32_inj [of k 0] by auto
  then have s: "adev_open E AUDIO_HARDWARE_INTERFACE hal =
      (hal\<lparr>audio_device_ref_count := of_nat (Suc k)\<rparr>, 0, Some i)"
    by (simp add: adev_open_def strcmp_eq_def Suc.prems(1,4))
  show ?case
    using Suc.IH [of "hal\<lparr>audio_device_ref_count := of_nat (Suc k)\<rparr>" "Suc k"] Suc.prems by (simp add: s)
qed simp

lemma closes_more:
  assumes "audio_device_ref_count hal = of_nat k" and "m < k" and "k < 2 ^ 32"
  shows "adev_closes m i hal = Some (hal\<lparr>audio_device_ref_count := of_nat (k - m)\<rparr>)"
  using assms
proof (induction m arbitrary: k hal)
  case (Suc m)
  obtain k' where k: "k = Suc k'" "0 < k'" using Suc.prems(2) by (cases k) auto
  have nz: "(of_nat k' :: u32) \<noteq> 0" "(of_nat (Suc k') :: u32) \<noteq> 0"
    using Suc.prems(3) k of_nat_u32_inj [of k' 0] of_nat_u32_inj [of "Suc k'" 0] by auto
  have s: "adev_close (Some i) hal = Some (hal\<lparr>audio_device_ref_count := of_nat k'\<rparr>, 0)"
    using nz by (simp add: adev_close_def Suc.prems(1) k(1) Let_def)
  show ?case
    using Suc.IH [of "hal\<lparr>audio_device_ref_count := of_nat k'\<rparr>" k'] Suc.prems k by (simp add: s)
qed simp


lemma open_first:
  assumes "audio_device_ref_count hal = 0"
  shows "\<exists>h1. adev_open E AUDIO_HARDWARE_INTERFACE hal = (h1, 0, Some (length (hal_devices hal))) \<and>
    audio_device_ref_count h1 = 1 \<and> static_adev h1 = Some (length (hal_devices hal)) \<and>
    device_handle h1 = Some (length (hal_devices hal)) \<and> hal_devices h1 = hal_devices hal @ [Some (new_device E)]"
proof -
  obtain ic st oc st' where "get_in_period_count (ap_props E) (hal_statics hal) = (ic, st)"
    "get_out_period_count (ap_props E) st = (oc, st')" by fastforce
  then show ?thesis by (simp add: adev_open_def strcmp_eq_def assms Let_def)
qed

lemma closes_snoc: "adev_closes (Suc m) dev hal =
    Option.bind (adev_closes m dev hal)
      (\<lambda>h. Option.bind (adev_close (Some dev) h) (\<lambda>(h, ret). if ret = 0 then Some h else None))"
proof (induction m arbitrary: hal)
  case (Suc m)
  show ?case
  proof (cases "adev_close (Some dev) hal")
    case (Some r)
    obtain h ret where r: "r = (h, ret)" by (cases r)
    have "adev_closes (Suc k) dev hal = (if ret = 0 then adev_closes k dev h else None)" for k by (simp add: Some r)
    then show ?thesis using Suc.IH [of h] by (cases "ret = 0") simp_all
  qed simp
qed (auto split: bind_splits)

text \<open>
  C32. The device is shared and counted: \<open>n\<close> openings create one device and all return it; it
  survives any smaller number of closings; the \<open>n\<close>-th frees it and clears the global handle, and
  one closing more reports \<open>-EINVAL\<close>.
\<close>

theorem device_ref_counting:
  assumes "audio_device_ref_count hal = 0" and "0 < n" and "n < 2 ^ 32" and "adev_opens E n hal = (hal', rs)"
    and "dev = length (hal_devices hal)" and "m < n"
  shows "rs = replicate n (0, Some dev) \<and> hal_devices hal' = hal_devices hal @ [Some (new_device E)] \<and>
    (\<exists>h. adev_closes m dev hal' = Some h \<and> hal_devices h = hal_devices hal' \<and> device_handle h = Some dev) \<and>
    (\<exists>h. adev_closes n dev hal' = Some h \<and> heap_get (hal_devices h) dev = None \<and> device_handle h = None \<and>
         adev_close (Some dev) h = Some (h, - EINVAL))"
proof -
  obtain h1 where h1: "adev_open E AUDIO_HARDWARE_INTERFACE hal = (h1, 0, Some dev)"
    "audio_device_ref_count h1 = of_nat 1" "static_adev h1 = Some dev" "device_handle h1 = Some dev"
    "hal_devices h1 = hal_devices hal @ [Some (new_device E)]"
    using open_first [OF assms(1)] assms(5) by auto
  obtain n' where n': "n = Suc n'" using assms(2) by (cases n) auto
  have more: "adev_opens E n' h1 = (h1\<lparr>audio_device_ref_count := of_nat n\<rparr>, replicate n' (0, Some dev))"
    using opens_more [OF h1(2) _ _ h1(3), of n'] assms(3) n' by simp
  then have rs: "rs = replicate n (0, Some dev)" and hal': "hal' = h1\<lparr>audio_device_ref_count := of_nat n\<rparr>"
    using assms(4) by (simp_all add: n' h1(1))
  have c: "audio_device_ref_count hal' = of_nat n" by (simp add: hal')
  note close = closes_more [OF c _ assms(3)]
  have last: "adev_closes n dev hal' = Some (h1\<lparr>audio_device_ref_count := 0,
      hal_devices := (hal_devices h1)[dev := None], device_handle := None\<rparr>)"
    using close [of n' dev] n' h1(5) assms(5)
    by (simp add: closes_snoc adev_close_def hal' heap_get_def del: adev_closes.simps(2))
  show ?thesis
    using rs h1(4,5) close [OF assms(6), of dev] last by (auto simp: hal' assms(5) heap_get_def adev_close_def)
qed


theorem device_ref_counting_witness:
  "\<exists>h. adev_closes 3 1 (fst (adev_opens platform_example 3 (hal_example\<lparr>audio_device_ref_count := 0\<rparr>))) = Some h \<and>
     device_handle h = None \<and> adev_close (Some 1) h = Some (h, - EINVAL)"
proof -
  obtain hal' rs where o: "adev_opens platform_example 3 (hal_example\<lparr>audio_device_ref_count := 0\<rparr>) = (hal', rs)"
    by fastforce
  have z: "audio_device_ref_count (hal_example\<lparr>audio_device_ref_count := 0\<rparr>) = 0"
    "1 = length (hal_devices (hal_example\<lparr>audio_device_ref_count := 0\<rparr>))" by (simp_all add: hal_example_def)
  show ?thesis unfolding o fst_conv using device_ref_counting [where m = 0, OF z(1) _ _ o z(2)] by auto
qed

section \<open>Tone generators\<close>

lemma tone_increment:
  assumes "150 \<le> f" and "f \<le> 490" and "8000 \<le> rate" and "rate \<le> 48000"
  shows "0 < phase_increment (tone_oscillator f rate)" and "phase_increment (tone_oscillator f rate) \<le> 1"
proof -
  let ?x = "to_double (TWO_PI * of_int f)" and ?r = "to_float (of_int (uint rate))"
  have u: "8000 \<le> uint rate" "uint rate \<le> 48000"
    using assms(3,4) by (simp_all add: word_le_def)
  then have r: "?r = of_int (uint rate)" by (intro binary32.rnd_int) simp
  have "6 * 150 \<le> TWO_PI * of_int f" "TWO_PI * of_int f \<le> 8 * 490"
    using TWO_PI_bounds assms(1,2) by (intro mult_mono; simp)+
  then have x: "900 \<le> ?x" "?x \<le> 3920"
    using binary64.rnd_mono [of "of_int 900" "TWO_PI * of_int f"] binary64.rnd_mono [of "TWO_PI * of_int f" "of_int 3920"]
      binary64.rnd_int [of 900] binary64.rnd_int [of 3920] by simp_all
  have ru: "(8000 :: real) \<le> of_int (uint rate)" "(0 :: real) < of_int (uint rate)" using u by linarith+
  have "0 < ?x / ?r" "?x / ?r \<le> of_int 1" unfolding r using x ru by (simp_all add: divide_le_eq)
  then have "0 < to_double (?x / ?r)" "to_double (?x / ?r) \<le> of_int 1"
    using round_to_sign [of "?x / ?r" 53] binary64.rnd_mono [of "?x / ?r" "of_int 1"] binary64.rnd_int [of 1]
    by (simp_all add: to_double_def)
  then show "0 < phase_increment (tone_oscillator f rate)" "phase_increment (tone_oscillator f rate) \<le> 1"
    using round_to_sign [of "to_double (?x / ?r)" 24] binary32.rnd_mono [of "to_double (?x / ?r)" "of_int 1"]
      binary32.rnd_int [of 1] by (simp_all add: tone_oscillator_def to_float_def [of "to_double _"])
qed


text \<open>
  Opening an input stream on a tone generator (while fewer than 18 buses have a tone, or for a
  known bus): the stream is new, in standby, its ring well-formed and empty, and its oscillator starts
  at phase 0 with a positive increment of at most 1, that of the frequency now recorded for the bus.
\<close>

theorem open_tone_generator:
  assumes "hashmap (ap_tone_map E) str_eq" and "config_supported input_sample_rates config"
    and "ap_stream_calloc E" and "ap_buffer_calloc E" and "ap_format_to_bits E PCM_FORMAT_S16_LE = 16"
    and "get_in_period_ms (ap_props E) (hal_statics hal) = (ms, st)" and "0 < ms" and "ms \<le> 1000"
    and "0 < pcm_config_in_period_count hal" and "pcm_config_in_period_count hal \<le> 1000"
    and "heap_get (hal_devices hal) dev = Some d" and "tone_inv (ap_tone_map E) str_eq n d"
    and "n < 18 \<or> hashmapGet (ap_tone_map E) (in_bus_tone_frequency_map d) a \<noteq> None"
    and "devs = AUDIO_DEVICE_IN_FM_TUNER \<or> devs = AUDIO_DEVICE_IN_BUS \<and> address_has_tone_keyword (c_str a)"
  shows "\<exists>hal' p in_s d' f. adev_open_input_stream E dev devs config (Some a) hal = Some (hal', config, 0, Some p) \<and>
    heap_get (in_streams hal) p = None \<and> heap_get (in_streams hal') p = Some in_s \<and>
    heap_get (hal_devices hal') dev = Some d' \<and> si_standby in_s \<and>
    vb_ok (si_buffer in_s) \<and> vb_contents (si_buffer in_s) = [] \<and>
    hashmapGet (ap_tone_map E) (in_bus_tone_frequency_map d') a = Some f \<and>
    si_oscillator in_s = tone_oscillator f (sample_rate config) \<and> phase (si_oscillator in_s) = 0 \<and>
    0 < phase_increment (si_oscillator in_s) \<and> phase_increment (si_oscillator in_s) \<le> 1"
proof -
  let ?pc = "in_pcm_config (sample_rate config) ms (pcm_config_in_period_count hal)"
  note rr = rates_range [OF disjI2 [OF assms(2)]]
  note ps = period_size_unat [OF rr assms(7,8)]
  have cnt: "0 < unat (pcm_config_in_period_count hal)" "unat (pcm_config_in_period_count hal) \<le> 1000"
    using assms(9,10) by (simp_all add: word_le_nat_alt word_less_nat_alt)
  have size: "unat (pc_period_size ?pc) * unat (pc_period_count ?pc) =
      (unat (sample_rate config) * nat ms div 1000) * unat (pcm_config_in_period_count hal)"
    by (simp only: in_pcm_config_eq pcm_config.simps ps(1))
  have "(unat (sample_rate config) * nat ms div 1000) * unat (pcm_config_in_period_count hal) \<le> 48000 * 1000"
    using ps(3) cnt(2) by (intro mult_le_mono)
  then obtain vb where vb: "pcm_buffer_init E ?pc = (vb, 0)" "vb_ok vb" "vb_contents vb = []"
    using pcm_buffer_init_ok [of E ?pc] assms(4,5) ps(2) cnt(1)
    unfolding size by (auto simp: in_pcm_config_eq simp del: of_nat_mult of_nat_unat)
  obtain d' f where df: "assign_tone_frequency (ap_tone_map E) d a = (d', f)" by fastforce
  note tone = assign_tone_spec [OF assms(1,12,13) df]
  have f: "150 \<le> f" "f \<le> 490" "hashmapGet (ap_tone_map E) (in_bus_tone_frequency_map d') a = Some f"
    using tone by (simp_all add: str_eq_def strcmp_eq_def)
  let ?in = "(stream_in_init devs config ?pc vb)\<lparr>si_worker_standby := True, si_worker_exit := False,
      si_bus_address := Some (c_str a), si_oscillator := tone_oscillator f (sample_rate config)\<rparr>"
  let ?p = "length (in_streams hal)"
  let ?hal' = "hal\<lparr>hal_statics := st, in_streams := in_streams hal @ [Some ?in], hal_devices := (hal_devices hal)[dev := Some d']\<rparr>"
  have tg: "is_tone_generator_device ((stream_in_init devs config ?pc vb)\<lparr>si_worker_standby := True, si_worker_exit := False,
      si_bus_address := Some (c_str a)\<rparr>) = Some True"
    using assms(14) by (auto simp: is_tone_generator_device_def stream_in_init_def)
  have run: "adev_open_input_stream E dev devs config (Some a) hal = Some (?hal', config, 0, Some ?p)"
    by (simp add: adev_open_input_stream_def refine_supported(2) [OF assms(2)] assms(3,6,11) vb(1) Let_def
        in_set_address_def tg df in_get_sample_rate_def) (simp add: stream_in_init_def)
  note inc = tone_increment [OF f(1,2) rr]
  show ?thesis
    by (intro exI [of _ ?hal'] exI [of _ ?p] exI [of _ ?in] exI [of _ d'] exI [of _ f] conjI)
      (use run vb f(3) inc heap_get_len [OF assms(11)] in
        \<open>simp_all add: stream_in_init_def heap_get_def tone_oscillator_def\<close>)
qed

theorem open_tone_generator_witness:
  "\<exists>hal' p in_s. adev_open_input_stream platform_example 0 AUDIO_DEVICE_IN_FM_TUNER
       \<lparr>sample_rate = 44100, channel_mask = 0xC, format = 1\<rparr> (Some ''fm'') hal_example =
       Some (hal', \<lparr>sample_rate = 44100, channel_mask = 0xC, format = 1\<rparr>, 0, Some p) \<and>
     heap_get (in_streams hal') p = Some in_s \<and> 0 < phase_increment (si_oscillator in_s)"
proof -
  let ?c = "\<lparr>sample_rate = 44100, channel_mask = 0xC, format = 1\<rparr> :: audio_config"
  have c: "config_supported input_sample_rates ?c" by (simp add: config_supported_def input_sample_rates_def)
  have h: "ap_stream_calloc platform_example" "ap_buffer_calloc platform_example"
    "ap_format_to_bits platform_example PCM_FORMAT_S16_LE = 16" "0 < pcm_config_in_period_count hal_example"
    "pcm_config_in_period_count hal_example \<le> 1000" "heap_get (hal_devices hal_example) 0 = Some dev_example"
    by (simp_all add: platform_example_def hal_example_def heap_get_def)
  have inv: "tone_inv (ap_tone_map platform_example) str_eq 0 dev_example"
    by (auto simp: tone_inv_def dev_example_def platform_example_def alist_api_def)
  show ?thesis
    using open_tone_generator [OF platform_example_facts(2) c h(1-3) platform_example_facts(4) _ _ h(4-6) inv,
        of "''fm''" AUDIO_DEVICE_IN_FM_TUNER] by auto
qed

end
