(* ===== verification/Dhcp_Message.thy ===== *)
theory Dhcp_Message
  imports C_Bytes
begin

text \<open>
  DHCP messages: \<open>dhcp/common/include/dhcp.h\<close>, \<open>message.h\<close> and \<open>message.cpp\<close>. The struct
  \<open>Message::Dhcp\<close> is a record whose integer fields hold the words as they lie in memory (network
  byte order is the sender's business, as in the code); \<open>dhcp_bytes\<close> is its view as bytes, 1260
  of them without padding. A pointer into the options is an index; reading or writing outside the
  options is undefined in C++ and \<open>None\<close> here. The counter of transaction ids is passed along.
\<close>

section \<open>Constants\<close>

definition PORT_BOOTP_SERVER :: u16 where "PORT_BOOTP_SERVER = 67"
definition PORT_BOOTP_CLIENT :: u16 where "PORT_BOOTP_CLIENT = 68"
abbreviation (input) OP_BOOTREQUEST :: u8 where "OP_BOOTREQUEST \<equiv> 1"
abbreviation (input) OP_BOOTREPLY :: u8 where "OP_BOOTREPLY \<equiv> 2"
abbreviation (input) FLAGS_BROADCAST :: u16 where "FLAGS_BROADCAST \<equiv> 0x8000"
abbreviation (input) HTYPE_ETHER :: u8 where "HTYPE_ETHER \<equiv> 1"
abbreviation (input) ETH_ALEN :: nat where "ETH_ALEN \<equiv> 6"

definition OPT_COOKIE :: bytes where "OPT_COOKIE = [0x63, 0x82, 0x53, 0x63]"

abbreviation (input) OPT_SUBNET_MASK :: u8 where "OPT_SUBNET_MASK \<equiv> 1"
abbreviation (input) OPT_GATEWAY :: u8 where "OPT_GATEWAY \<equiv> 3"
abbreviation (input) OPT_DNS :: u8 where "OPT_DNS \<equiv> 6"
abbreviation (input) OPT_MTU :: u8 where "OPT_MTU \<equiv> 26"
abbreviation (input) OPT_BROADCAST_ADDR :: u8 where "OPT_BROADCAST_ADDR \<equiv> 28"
abbreviation (input) OPT_REQUESTED_IP :: u8 where "OPT_REQUESTED_IP \<equiv> 50"
abbreviation (input) OPT_LEASE_TIME :: u8 where "OPT_LEASE_TIME \<equiv> 51"
abbreviation (input) OPT_MESSAGE_TYPE :: u8 where "OPT_MESSAGE_TYPE \<equiv> 53"
abbreviation (input) OPT_SERVER_ID :: u8 where "OPT_SERVER_ID \<equiv> 54"
abbreviation (input) OPT_PARAMETER_LIST :: u8 where "OPT_PARAMETER_LIST \<equiv> 55"
abbreviation (input) OPT_T1 :: u8 where "OPT_T1 \<equiv> 58"
abbreviation (input) OPT_T2 :: u8 where "OPT_T2 \<equiv> 59"
abbreviation (input) OPT_END :: u8 where "OPT_END \<equiv> 255"

abbreviation (input) DHCPDISCOVER :: u8 where "DHCPDISCOVER \<equiv> 1"
abbreviation (input) DHCPOFFER :: u8 where "DHCPOFFER \<equiv> 2"
abbreviation (input) DHCPREQUEST :: u8 where "DHCPREQUEST \<equiv> 3"
abbreviation (input) DHCPACK :: u8 where "DHCPACK \<equiv> 5"
abbreviation (input) DHCPNAK :: u8 where "DHCPNAK \<equiv> 6"

definition kDefaultLeaseTime :: u32 where "kDefaultLeaseTime = 10 * 60"

definition kRequestParameters :: bytes where
  "kRequestParameters = [OPT_SUBNET_MASK, OPT_GATEWAY, OPT_DNS, OPT_BROADCAST_ADDR, OPT_LEASE_TIME, OPT_T1, OPT_T2, OPT_MTU]"

section \<open>State\<close>

record dhcp =
  dh_op :: u8
  dh_htype :: u8
  dh_hlen :: u8
  dh_hops :: u8
  dh_xid :: u32
  dh_secs :: u16
  dh_flags :: u16
  dh_ciaddr :: u32
  dh_yiaddr :: u32
  dh_siaddr :: u32
  dh_giaddr :: u32
  dh_chaddr :: bytes
  dh_sname :: bytes
  dh_file :: bytes
  dh_options :: bytes

record message =
  dhcpData :: dhcp
  mSize :: size_t

abbreviation DHCP_SIZE :: nat where "DHCP_SIZE \<equiv> 1260"
abbreviation OPTIONS_OFFSET :: nat where "OPTIONS_OFFSET \<equiv> 236"
abbreviation OPTIONS_SIZE :: nat where "OPTIONS_SIZE \<equiv> 1024"

definition dhcp_zero :: dhcp where
  "dhcp_zero = \<lparr>dh_op = 0, dh_htype = 0, dh_hlen = 0, dh_hops = 0, dh_xid = 0, dh_secs = 0, dh_flags = 0,
     dh_ciaddr = 0, dh_yiaddr = 0, dh_siaddr = 0, dh_giaddr = 0, dh_chaddr = replicate 16 0,
     dh_sname = replicate 64 0, dh_file = replicate 128 0, dh_options = replicate OPTIONS_SIZE 0\<rparr>"

text \<open>The struct as \<open>data()\<close> shows it, and the struct that given bytes are.\<close>

definition dhcp_bytes :: "dhcp \<Rightarrow> bytes" where
  "dhcp_bytes d = [dh_op d, dh_htype d, dh_hlen d, dh_hops d] @ enc32 (dh_xid d) @ enc16 (dh_secs d) @ enc16 (dh_flags d) @
     enc32 (dh_ciaddr d) @ enc32 (dh_yiaddr d) @ enc32 (dh_siaddr d) @ enc32 (dh_giaddr d) @
     dh_chaddr d @ dh_sname d @ dh_file d @ dh_options d"

definition dhcp_of_bytes :: "bytes \<Rightarrow> dhcp" where
  "dhcp_of_bytes m = \<lparr>dh_op = m ! 0, dh_htype = m ! 1, dh_hlen = m ! 2, dh_hops = m ! 3, dh_xid = load32 m 4,
     dh_secs = load16 m 8, dh_flags = load16 m 10, dh_ciaddr = load32 m 12, dh_yiaddr = load32 m 16,
     dh_siaddr = load32 m 20, dh_giaddr = load32 m 24, dh_chaddr = take 16 (drop 28 m),
     dh_sname = take 64 (drop 44 m), dh_file = take 128 (drop 108 m), dh_options = take OPTIONS_SIZE (drop OPTIONS_OFFSET m)\<rparr>"

definition message_default :: message where
  "message_default = \<lparr>dhcpData = dhcp_zero, mSize = 0\<rparr>"

text \<open>
  The constructor from bytes. When they fit, what they do not cover of the struct is whatever was in
  the memory (\<open>old\<close>): this constructor does not clear it.
\<close>

definition message_of_data :: "dhcp \<Rightarrow> bytes \<Rightarrow> size_t \<Rightarrow> message option" where
  "message_of_data old dat nbytes =
     (if unat nbytes \<le> DHCP_SIZE
      then map_option (\<lambda>m. \<lparr>dhcpData = dhcp_of_bytes m, mSize = nbytes\<rparr>) (memcpy (dhcp_bytes old) 0 dat 0 (unat nbytes))
      else Some message_default)"

definition setSize :: "message \<Rightarrow> size_t \<Rightarrow> message" where
  "setSize m nbytes = m\<lparr>mSize := nbytes\<rparr>"

section \<open>Building\<close>

text \<open>The private constructor: header, cookie and message type; \<open>tid\<close> is \<open>sNextTransactionId\<close>.\<close>

definition message_new :: "u32 \<Rightarrow> u8 \<Rightarrow> bytes \<Rightarrow> u8 \<Rightarrow> message \<times> u32" where
  "message_new tid operation macAddress type =
     (\<lparr>dhcpData = dhcp_zero\<lparr>dh_op := operation, dh_htype := HTYPE_ETHER, dh_hlen := of_nat ETH_ALEN, dh_hops := 0,
         dh_flags := htons FLAGS_BROADCAST, dh_xid := htonl tid,
         dh_chaddr := take ETH_ALEN macAddress @ drop ETH_ALEN (dh_chaddr dhcp_zero),
         dh_options := OPT_COOKIE @ [OPT_MESSAGE_TYPE, 1, type] @ drop 7 (dh_options dhcp_zero)\<rparr>,
       mSize = of_nat (OPTIONS_OFFSET + 7)\<rparr>, tid + 1)"

text \<open>
  Writing at \<open>nextOption()\<close>, which is \<open>data() + size()\<close>, and moving the size behind it. A size
  inside the header is not reached (the constructors above and \<open>message_new\<close> exclude it).
\<close>

definition write_options :: "message \<Rightarrow> bytes \<Rightarrow> message option" where
  "write_options m bs =
     (if unat (mSize m) < OPTIONS_OFFSET then None
      else map_option (\<lambda>opts. m\<lparr>dhcpData := (dhcpData m)\<lparr>dh_options := opts\<rparr>, mSize := of_nat (unat (mSize m) + length bs)\<rparr>)
             (mem_write (dh_options (dhcpData m)) (unat (mSize m) - OPTIONS_OFFSET) bs))"

definition addOption :: "message \<Rightarrow> u8 \<Rightarrow> bytes \<Rightarrow> u8 \<Rightarrow> message option" where
  "addOption m type dat n =
     Option.bind (mem_read dat 0 (unat n)) (\<lambda>d. write_options m ([type, n] @ d))"

definition addOption32 :: "message \<Rightarrow> u8 \<Rightarrow> u32 \<Rightarrow> message option" where
  "addOption32 m type x = addOption m type (enc32 x) 4"

definition addOption_items :: "message \<Rightarrow> u8 \<Rightarrow> bytes \<Rightarrow> message option" where
  "addOption_items m type items = write_options m ([type, of_nat (length items)] @ items)"

definition endOptions :: "message \<Rightarrow> message option" where
  "endOptions m = write_options m [OPT_END]"

definition discover :: "u32 \<Rightarrow> bytes \<Rightarrow> (message \<times> u32) option" where
  "discover tid sourceMac =
     (case message_new tid OP_BOOTREQUEST sourceMac DHCPDISCOVER of (m, tid) \<Rightarrow>
        map_option (\<lambda>m. (m, tid)) (Option.bind (addOption_items m OPT_PARAMETER_LIST kRequestParameters) endOptions))"

definition request :: "u32 \<Rightarrow> bytes \<Rightarrow> u32 \<Rightarrow> u32 \<Rightarrow> (message \<times> u32) option" where
  "request tid sourceMac requestAddress serverAddress =
     (case message_new tid OP_BOOTREQUEST sourceMac DHCPREQUEST of (m, tid) \<Rightarrow>
        map_option (\<lambda>m. (m, tid))
          (Option.bind (addOption_items m OPT_PARAMETER_LIST kRequestParameters) (\<lambda>m.
           Option.bind (addOption32 m OPT_REQUESTED_IP requestAddress) (\<lambda>m.
           Option.bind (addOption32 m OPT_SERVER_ID serverAddress) endOptions))))"

text \<open>A server's reply takes the transaction from the request it answers.\<close>

definition reply_header :: "message \<Rightarrow> u32 \<Rightarrow> message \<Rightarrow> message" where
  "reply_header source offeredAddress m =
     m\<lparr>dhcpData := (dhcpData m)\<lparr>dh_xid := dh_xid (dhcpData source), dh_flags := dh_flags (dhcpData source),
         dh_yiaddr := offeredAddress, dh_giaddr := dh_giaddr (dhcpData source)\<rparr>\<rparr>"

text \<open>\<open>kDefaultLeaseTime\<close> is added as it lies in memory, without \<open>htonl\<close>.\<close>

definition reply_options :: "message \<Rightarrow> u32 \<Rightarrow> u32 \<Rightarrow> u32 \<Rightarrow> u32 list \<Rightarrow> message option" where
  "reply_options m serverAddress offeredNetmask offeredGateway offeredDnsServers =
     Option.bind (addOption32 m OPT_SERVER_ID serverAddress) (\<lambda>m.
     Option.bind (addOption32 m OPT_LEASE_TIME kDefaultLeaseTime) (\<lambda>m.
     Option.bind (addOption32 m OPT_SUBNET_MASK offeredNetmask) (\<lambda>m.
     Option.bind (addOption32 m OPT_GATEWAY offeredGateway) (\<lambda>m.
     Option.bind (addOption m OPT_DNS (concat (map enc32 offeredDnsServers)) (of_nat (length offeredDnsServers * 4)))
       endOptions))))"

definition offer_or_ack :: "u8 \<Rightarrow> u32 \<Rightarrow> message \<Rightarrow> u32 \<Rightarrow> u32 \<Rightarrow> u32 \<Rightarrow> u32 \<Rightarrow> u32 list \<Rightarrow> (message \<times> u32) option" where
  "offer_or_ack type tid source serverAddress offeredAddress offeredNetmask offeredGateway offeredDnsServers =
     (case message_new tid OP_BOOTREPLY (take ETH_ALEN (dh_chaddr (dhcpData source))) type of (m, tid) \<Rightarrow>
        map_option (\<lambda>m. (m, tid))
          (reply_options (reply_header source offeredAddress m) serverAddress offeredNetmask offeredGateway offeredDnsServers))"

definition offer :: "u32 \<Rightarrow> message \<Rightarrow> u32 \<Rightarrow> u32 \<Rightarrow> u32 \<Rightarrow> u32 \<Rightarrow> u32 list \<Rightarrow> (message \<times> u32) option" where
  "offer = offer_or_ack DHCPOFFER"

definition ack :: "u32 \<Rightarrow> message \<Rightarrow> u32 \<Rightarrow> u32 \<Rightarrow> u32 \<Rightarrow> u32 \<Rightarrow> u32 list \<Rightarrow> (message \<times> u32) option" where
  "ack = offer_or_ack DHCPACK"

definition nack :: "u32 \<Rightarrow> message \<Rightarrow> u32 \<Rightarrow> (message \<times> u32) option" where
  "nack tid source serverAddress =
     (case message_new tid OP_BOOTREPLY (take ETH_ALEN (dh_chaddr (dhcpData source))) DHCPNAK of (m, tid) \<Rightarrow>
        map_option (\<lambda>m. (m, tid))
          (Option.bind (addOption32 (reply_header source (dh_yiaddr (dhcpData m)) m) OPT_SERVER_ID serverAddress) endOptions))"

section \<open>Reading\<close>

definition optionsSize :: "message \<Rightarrow> nat" where
  "optionsSize m = (if unat (mSize m) \<le> OPTIONS_OFFSET then 0 else unat (mSize m) - OPTIONS_OFFSET)"

text \<open>The loop of \<open>getOption\<close> from index \<open>i\<close>: index of the option's data and its length.\<close>

function get_option :: "bytes \<Rightarrow> nat \<Rightarrow> u8 \<Rightarrow> nat \<Rightarrow> (nat \<times> u8) option option" where
  "get_option options optsSize code i =
     (if i + 2 < optsSize then
        (if length options \<le> i + 1 then None
         else if options ! i = OPT_END then Some None
         else if options ! i = code then Some (Some (i + 2, options ! (i + 1)))
         else get_option options optsSize code (i + 2 + unat (options ! (i + 1))))
      else Some None)"
  by pat_completeness auto
termination by (relation "measure (\<lambda>(options, optsSize, code, i). optsSize - i)") auto

declare get_option.simps [simp del]

definition getOption :: "message \<Rightarrow> u8 \<Rightarrow> (nat \<times> u8) option option" where
  "getOption m code = get_option (dh_options (dhcpData m)) (optionsSize m) code 4"

definition message_type :: "message \<Rightarrow> u8 option" where
  "message_type m =
     Option.bind (getOption m OPT_MESSAGE_TYPE) (\<lambda>r.
       case r of
         Some (opt, len) \<Rightarrow>
           if len = 1 then map_option hd (mem_read (dh_options (dhcpData m)) opt 1) else Some 0
       | None \<Rightarrow> Some 0)"

text \<open>\<open>serverId\<close> and \<open>requestedIp\<close> are the same code with different option codes.\<close>

definition address_option :: "message \<Rightarrow> u8 \<Rightarrow> u32 option" where
  "address_option m code =
     Option.bind (getOption m code) (\<lambda>r.
       case r of
         Some (opt, len) \<Rightarrow>
           if len = 4 then map_option (\<lambda>bs. load32 bs 0) (mem_read (dh_options (dhcpData m)) opt 4) else Some 0
       | None \<Rightarrow> Some 0)"

definition serverId :: "message \<Rightarrow> u32 option" where "serverId m = address_option m OPT_SERVER_ID"
definition requestedIp :: "message \<Rightarrow> u32 option" where "requestedIp m = address_option m OPT_REQUESTED_IP"

definition isValidDhcpMessage :: "message \<Rightarrow> u8 \<Rightarrow> bool" where
  "isValidDhcpMessage m expectedOp \<longleftrightarrow>
     \<not> unat (mSize m) < OPTIONS_OFFSET + 4 \<and> dh_op (dhcpData m) = expectedOp \<and>
     dh_htype (dhcpData m) = HTYPE_ETHER \<and> dh_hlen (dhcpData m) = of_nat ETH_ALEN \<and>
     take 4 (dh_options (dhcpData m)) = OPT_COOKIE"

definition isValidDhcpMessage_xid :: "message \<Rightarrow> u8 \<Rightarrow> u32 \<Rightarrow> bool" where
  "isValidDhcpMessage_xid m expectedOp expectedXid \<longleftrightarrow>
     isValidDhcpMessage m expectedOp \<and> dh_xid (dhcpData m) = expectedXid"


section \<open>Messages under construction\<close>

text \<open>A struct \<open>d\<close> whose options area holds \<open>bs\<close> followed by zeros, with the size behind \<open>bs\<close>.\<close>

definition built :: "dhcp \<Rightarrow> bytes \<Rightarrow> message" where
  "built d bs = \<lparr>dhcpData = d\<lparr>dh_options := bs @ replicate (OPTIONS_SIZE - length bs) 0\<rparr>,
     mSize = of_nat (OPTIONS_OFFSET + length bs)\<rparr>"

lemma unat_msize: "n \<le> 2000 \<Longrightarrow> unat (of_nat n :: size_t) = n"
  by (intro unat_of_nat_size) simp

lemma built_size [simp]:
  assumes "length bs \<le> OPTIONS_SIZE"
  shows "unat (mSize (built d bs)) = OPTIONS_OFFSET + length bs" and "optionsSize (built d bs) = length bs"
proof -
  have "unat (of_nat (OPTIONS_OFFSET + length bs) :: size_t) = OPTIONS_OFFSET + length bs"
    using assms by (intro unat_msize) simp
  then show "unat (mSize (built d bs)) = OPTIONS_OFFSET + length bs" and "optionsSize (built d bs) = length bs"
    by (simp_all only: built_def message.simps optionsSize_def) simp_all
qed

lemma built_options [simp]:
  "dh_options (dhcpData (built d bs)) = bs @ replicate (OPTIONS_SIZE - length bs) 0"
  by (simp add: built_def)

lemma built_write:
  assumes "length bs + length xs \<le> OPTIONS_SIZE"
  shows "write_options (built d bs) xs = Some (built d (bs @ xs))"
proof -
  have "unat (mSize (built d bs)) = OPTIONS_OFFSET + length bs" using assms by simp
  then show ?thesis
    using assms by (simp add: write_options_def mem_write_Some built_def add.assoc)
qed

lemma built_addOption:
  assumes "unat n \<le> length dat" and "length bs + unat n + 2 \<le> OPTIONS_SIZE"
  shows "addOption (built d bs) c dat n = Some (built d (bs @ [c, n] @ take (unat n) dat))"
  using assms by (simp add: addOption_def mem_read_Some built_write)

lemma built_addOption32: "length bs + 6 \<le> OPTIONS_SIZE \<Longrightarrow>
    addOption32 (built d bs) c x = Some (built d (bs @ [c, 4] @ enc32 x))"
  by (simp add: addOption32_def built_addOption)

lemma built_items: "length bs + length items + 2 \<le> OPTIONS_SIZE \<Longrightarrow>
    addOption_items (built d bs) c items = Some (built d (bs @ [c, of_nat (length items)] @ items))"
  by (simp add: addOption_items_def built_write)

lemma built_end: "length bs + 1 \<le> OPTIONS_SIZE \<Longrightarrow> endOptions (built d bs) = Some (built d (bs @ [OPT_END]))"
  by (simp add: endOptions_def built_write)

lemmas built_steps = built_addOption32 built_items built_end

text \<open>The header the constructor makes.\<close>

definition new_header :: "u32 \<Rightarrow> u8 \<Rightarrow> bytes \<Rightarrow> dhcp" where
  "new_header tid operation mac = dhcp_zero\<lparr>dh_op := operation, dh_htype := HTYPE_ETHER, dh_hlen := of_nat ETH_ALEN, dh_hops := 0,
     dh_flags := htons FLAGS_BROADCAST, dh_xid := htonl tid, dh_chaddr := take ETH_ALEN mac @ drop ETH_ALEN (dh_chaddr dhcp_zero)\<rparr>"

lemma message_new_built:
  "message_new tid operation mac type =
     (built (new_header tid operation mac) (OPT_COOKIE @ [OPT_MESSAGE_TYPE, 1, type]), tid + 1)"
  by (simp add: message_new_def built_def new_header_def OPT_COOKIE_def dhcp_zero_def drop_replicate)

lemma reply_header_built:
  "reply_header source offered (built d bs) =
     built (d\<lparr>dh_xid := dh_xid (dhcpData source), dh_flags := dh_flags (dhcpData source),
              dh_yiaddr := offered, dh_giaddr := dh_giaddr (dhcpData source)\<rparr>) bs"
  by (simp add: reply_header_def built_def)

section \<open>Options as a list\<close>

text \<open>The specification of the options area: pairs of a code and its data.\<close>

definition enc_option :: "u8 \<times> bytes \<Rightarrow> bytes" where
  "enc_option x = (case x of (code, dat) \<Rightarrow> code # of_nat (length dat) # dat)"

definition enc_options :: "(u8 \<times> bytes) list \<Rightarrow> bytes" where
  "enc_options os = concat (map enc_option os)"

definition options_area :: "(u8 \<times> bytes) list \<Rightarrow> bytes" where
  "options_area os = OPT_COOKIE @ enc_options os @ [OPT_END]"

definition options_ok :: "(u8 \<times> bytes) list \<Rightarrow> bool" where
  "options_ok os \<longleftrightarrow> (\<forall>(c, dat) \<in> set os. c \<noteq> OPT_END \<and> length dat < 256) \<and> length (options_area os) \<le> OPTIONS_SIZE"

lemma enc_options_simps [simp]:
  "enc_options [] = []" "enc_options ((c, dat) # os) = c # of_nat (length dat) # dat @ enc_options os"
  by (simp_all add: enc_options_def enc_option_def)

lemma unat_len8: "n < 256 \<Longrightarrow> unat (of_nat n :: u8) = n"
  by (simp add: unat_byte_of_nat)

text \<open>\<open>getOption\<close> finds the first option with its code, or none.\<close>

lemma get_option_spec:
  assumes "\<forall>(c, dat) \<in> set os. c \<noteq> OPT_END \<and> length dat < 256"
  shows "get_option (pre @ enc_options os @ OPT_END # rest) (length pre + length (enc_options os) + 1) code (length pre) =
    Some (case map_of os code of None \<Rightarrow> None
          | Some dat \<Rightarrow> Some (length pre + 2 + length (enc_options (takeWhile (\<lambda>x. fst x \<noteq> code) os)), of_nat (length dat)))"
  using assms
proof (induction os arbitrary: pre)
  case Nil
  then show ?case by (subst get_option.simps) simp
next
  case (Cons x os)
  obtain c dat where x: "x = (c, dat)" by (cases x)
  have c: "c \<noteq> OPT_END" "length dat < 256" using Cons.prems by (auto simp: x)
  let ?pre = "pre @ c # of_nat (length dat) # dat"
  have eq: "pre @ enc_options (x # os) @ OPT_END # rest = ?pre @ enc_options os @ OPT_END # rest"
    and len: "length pre + length (enc_options (x # os)) + 1 = length ?pre + length (enc_options os) + 1" by (simp_all add: x)
  have IH: "get_option (?pre @ enc_options os @ OPT_END # rest) (length ?pre + length (enc_options os) + 1) code (length ?pre) =
    Some (case map_of os code of None \<Rightarrow> None
          | Some dat \<Rightarrow> Some (length ?pre + 2 + length (enc_options (takeWhile (\<lambda>x. fst x \<noteq> code) os)), of_nat (length dat)))"
    using Cons.prems by (intro Cons.IH) simp
  show ?case
  proof (cases "c = code")
    case True
    then show ?thesis using c by (subst get_option.simps) (simp add: x nth_append)
  next
    case False
    have i: "length pre + 2 + unat (of_nat (length dat) :: u8) = length ?pre" by (simp add: unat_len8 c(2))
    show ?thesis
      unfolding eq len
      by (subst get_option.simps) (use False c IH i in \<open>simp add: nth_append x split: option.splits\<close>)
  qed
qed

lemma option_data:
  assumes "map_of os code = Some dat"
  shows "take (length dat) (drop (2 + length (enc_options (takeWhile (\<lambda>x. fst x \<noteq> code) os))) (enc_options os @ rest)) = dat"
    and "2 + length (enc_options (takeWhile (\<lambda>x. fst x \<noteq> code) os)) + length dat \<le> length (enc_options os)"
  using assms by (induction os) (auto split: if_splits)


lemma cookie_length [simp]: "length OPT_COOKIE = 4"
  by (simp add: OPT_COOKIE_def)

lemma getOption_built:
  assumes "options_ok os"
  shows "getOption (built d (options_area os)) code =
    Some (case map_of os code of None \<Rightarrow> None
          | Some dat \<Rightarrow> Some (4 + (2 + length (enc_options (takeWhile (\<lambda>x. fst x \<noteq> code) os))), of_nat (length dat)))"
proof -
  have os: "\<forall>(c, dat) \<in> set os. c \<noteq> OPT_END \<and> length dat < 256" "length (options_area os) \<le> OPTIONS_SIZE"
    using assms by (simp_all add: options_ok_def)
  have sz: "optionsSize (built d (options_area os)) = length OPT_COOKIE + length (enc_options os) + 1"
    using os(2) by (simp add: options_area_def)
  show ?thesis
    using get_option_spec [OF os(1), of OPT_COOKIE "replicate (OPTIONS_SIZE - length (options_area os)) 0" code]
    by (simp only: getOption_def sz) (simp add: options_area_def split: option.split)
qed

lemma option_read:
  assumes "options_ok os" and "map_of os code = Some dat"
  shows "mem_read (dh_options (dhcpData (built d (options_area os))))
    (4 + (2 + length (enc_options (takeWhile (\<lambda>x. fst x \<noteq> code) os)))) (length dat) = Some dat"
proof -
  let ?o = "2 + length (enc_options (takeWhile (\<lambda>x. fst x \<noteq> code) os))"
  let ?rest = "OPT_END # replicate (OPTIONS_SIZE - length (options_area os)) 0"
  have len: "?o + length dat \<le> length (enc_options os)" by (rule option_data(2) [OF assms(2)])
  have "take (length dat) (drop (4 + ?o) (OPT_COOKIE @ enc_options os @ ?rest)) = dat"
    using option_data(1) [OF assms(2), of ?rest] by simp
  then show ?thesis using len by (simp add: mem_read_def options_area_def)
qed

text \<open>The accessors on a message with the options \<open>os\<close>.\<close>

lemma message_type_built:
  assumes "options_ok os" and "map_of os OPT_MESSAGE_TYPE = Some [t]"
  shows "message_type (built d (options_area os)) = Some t"
  using option_read [OF assms] assms(2) by (simp add: message_type_def getOption_built [OF assms(1)] del: built_options)

lemma address_built:
  assumes "options_ok os" and "map_of os code = Some (enc32 x)"
  shows "address_option (built d (options_area os)) code = Some x"
proof -
  show ?thesis
    using option_read [OF assms] assms(2) u32_codec.dec_id [of x] by (simp add: address_option_def getOption_built [OF assms(1)] del: built_options)
qed

lemma address_absent:
  assumes "options_ok os" and "map_of os code = None"
  shows "address_option (built d (options_area os)) code = Some 0"
  using assms(2) by (simp add: address_option_def getOption_built [OF assms(1)])

lemma valid_built:
  assumes "options_ok os"
  shows "isValidDhcpMessage_xid (built d (options_area os)) expectedOp xid \<longleftrightarrow>
    dh_op d = expectedOp \<and> dh_htype d = HTYPE_ETHER \<and> dh_hlen d = of_nat ETH_ALEN \<and> dh_xid d = xid"
proof -
  have "unat (mSize (built d (options_area os))) = OPTIONS_OFFSET + length (options_area os)"
    using assms by (intro built_size) (simp add: options_ok_def)
  then show ?thesis
    by (auto simp: isValidDhcpMessage_xid_def isValidDhcpMessage_def options_area_def) (simp_all add: built_def)
qed

section \<open>The messages the code builds\<close>

definition request_options :: "u32 \<Rightarrow> u32 \<Rightarrow> (u8 \<times> bytes) list" where
  "request_options requestAddress serverAddress =
     [(OPT_MESSAGE_TYPE, [DHCPREQUEST]), (OPT_PARAMETER_LIST, kRequestParameters),
      (OPT_REQUESTED_IP, enc32 requestAddress), (OPT_SERVER_ID, enc32 serverAddress)]"

definition discover_options :: "(u8 \<times> bytes) list" where
  "discover_options = [(OPT_MESSAGE_TYPE, [DHCPDISCOVER]), (OPT_PARAMETER_LIST, kRequestParameters)]"

definition reply_list :: "u8 \<Rightarrow> u32 \<Rightarrow> u32 \<Rightarrow> u32 \<Rightarrow> u32 list \<Rightarrow> (u8 \<times> bytes) list" where
  "reply_list type server netmask gateway dns =
     [(OPT_MESSAGE_TYPE, [type]), (OPT_SERVER_ID, enc32 server), (OPT_LEASE_TIME, enc32 kDefaultLeaseTime),
      (OPT_SUBNET_MASK, enc32 netmask), (OPT_GATEWAY, enc32 gateway), (OPT_DNS, concat (map enc32 dns))]"

lemma request_params_length [simp]: "length kRequestParameters = 8"
  by (simp add: kRequestParameters_def)

lemma discover_built: "discover tid mac = Some (built (new_header tid OP_BOOTREQUEST mac) (options_area discover_options), tid + 1)"
  by (simp add: discover_def message_new_built built_steps options_area_def discover_options_def)

lemma request_built: "request tid mac a s =
    Some (built (new_header tid OP_BOOTREQUEST mac) (options_area (request_options a s)), tid + 1)"
  by (simp add: request_def message_new_built built_steps options_area_def request_options_def)

definition reply_struct :: "u32 \<Rightarrow> message \<Rightarrow> u32 \<Rightarrow> dhcp" where
  "reply_struct tid source offered =
     (new_header tid OP_BOOTREPLY (take ETH_ALEN (dh_chaddr (dhcpData source))))
       \<lparr>dh_xid := dh_xid (dhcpData source), dh_flags := dh_flags (dhcpData source), dh_yiaddr := offered,
        dh_giaddr := dh_giaddr (dhcpData source)\<rparr>"

lemma concat_enc32_length [simp]: "length (concat (map enc32 xs)) = 4 * length xs"
  by (rule u32_codec.array_size) simp

lemma reply_built:
  assumes "length dns < 64"
  shows "offer_or_ack type tid source server offered netmask gateway dns =
    Some (built (reply_struct tid source offered) (options_area (reply_list type server netmask gateway dns)), tid + 1)"
  using assms
  by (simp add: offer_or_ack_def message_new_built reply_header_built reply_options_def built_steps built_addOption
      unat_len8 options_area_def reply_list_def reply_struct_def mult.commute del: of_nat_mult)

lemma nack_built: "nack tid source server =
    Some (built (reply_struct tid source 0) (options_area [(OPT_MESSAGE_TYPE, [DHCPNAK]), (OPT_SERVER_ID, enc32 server)]), tid + 1)"
proof -
  have "dh_yiaddr (dhcpData (built (new_header tid op mac) bs)) = 0" for op mac bs
    by (simp add: built_def new_header_def dhcp_zero_def)
  then show ?thesis
    by (simp add: nack_def message_new_built reply_header_built built_steps options_area_def reply_struct_def)
qed

lemma built_options_ok:
  "options_ok discover_options" "options_ok (request_options a s)"
  "length dns < 64 \<Longrightarrow> options_ok (reply_list type server netmask gateway dns)"
  "options_ok [(OPT_MESSAGE_TYPE, [DHCPNAK]), (OPT_SERVER_ID, enc32 server)]"
  by (simp_all add: options_ok_def discover_options_def request_options_def reply_list_def options_area_def)


section \<open>Bounds of the option walk\<close>

lemma get_option_bounds:
  assumes "optsSize \<le> length options"
  shows "\<exists>r. get_option options optsSize code i = Some r \<and>
    (\<forall>opt len. r = Some (opt, len) \<longrightarrow> i + 2 \<le> opt \<and> opt < optsSize \<and> options ! (opt - 2) = code \<and> options ! (opt - 1) = len)"
  using assms
proof (induction options optsSize code i rule: get_option.induct)
  case (1 options optsSize code i)
  show ?case
  proof (cases "i + 2 < optsSize \<and> options ! i \<noteq> OPT_END \<and> options ! i \<noteq> code")
    case True
    then have "\<exists>r. get_option options optsSize code (i + 2 + unat (options ! (i + 1))) = Some r \<and>
        (\<forall>opt len. r = Some (opt, len) \<longrightarrow> i + 2 + unat (options ! (i + 1)) + 2 \<le> opt \<and> opt < optsSize \<and>
          options ! (opt - 2) = code \<and> options ! (opt - 1) = len)"
      using "1.IH" "1.prems" by simp
    then show ?thesis using True "1.prems" by (subst get_option.simps) auto
  next
    case False
    then show ?thesis using "1.prems" by (subst get_option.simps) auto
  qed
qed

lemma message_type_some:
  assumes "optionsSize m \<le> length (dh_options (dhcpData m))"
  shows "message_type m \<noteq> None"
  using get_option_bounds [OF assms, of OPT_MESSAGE_TYPE 4] assms
  by (auto simp: message_type_def getOption_def mem_read_def split: option.splits)

lemma address_option_some:
  assumes "optionsSize m + 3 \<le> length (dh_options (dhcpData m))"
  shows "address_option m c \<noteq> None"
proof -
  have "optionsSize m \<le> length (dh_options (dhcpData m))" using assms by simp
  from get_option_bounds [OF this, of c 4] assms show ?thesis
    by (auto simp: address_option_def getOption_def mem_read_def split: option.splits)
qed

section \<open>Properties\<close>

text \<open>
  C33. The messages of the client read back as what was asked for: a request and a discover always
  fit, take the next transaction id, are valid requests of that transaction and not replies, and
  their type, requested address and server id are the given ones (0 where the message has none).
\<close>

theorem client_messages_roundtrip:
  "\<exists>m d. request tid mac a s = Some (m, tid + 1) \<and> discover tid mac = Some (d, tid + 1) \<and>
     isValidDhcpMessage_xid m OP_BOOTREQUEST (htonl tid) \<and> \<not> isValidDhcpMessage_xid m OP_BOOTREPLY (htonl tid) \<and>
     message_type m = Some DHCPREQUEST \<and> requestedIp m = Some a \<and> serverId m = Some s \<and>
     isValidDhcpMessage_xid d OP_BOOTREQUEST (htonl tid) \<and> message_type d = Some DHCPDISCOVER \<and>
     requestedIp d = Some 0 \<and> serverId d = Some 0"
proof -
  let ?h = "new_header tid OP_BOOTREQUEST mac"
  have h: "dh_op ?h = OP_BOOTREQUEST" "dh_htype ?h = HTYPE_ETHER" "dh_hlen ?h = of_nat ETH_ALEN" "dh_xid ?h = htonl tid"
    by (simp_all add: new_header_def)
  note ok = built_options_ok(1) built_options_ok(2) [of a s]
  show ?thesis
    by (intro exI conjI, rule request_built, rule discover_built)
      (simp_all add: valid_built [OF ok(1)] valid_built [OF ok(2)] h requestedIp_def serverId_def
        message_type_built [OF ok(1)] message_type_built [OF ok(2)] address_built [OF ok(2)] address_absent [OF ok(1)]
        request_options_def [THEN arg_cong [where f = map_of]] discover_options_def [THEN arg_cong [where f = map_of]])
qed

text \<open>
  Replies answer their request: an offer, an acknowledgement and a refusal built for any
  request message carry its transaction id and are valid replies of that transaction; their type is
  the intended one, offer and acknowledgement carry the offered address, all name the server.
\<close>

theorem replies_answer_request:
  assumes "length dns < 64"
  shows "\<exists>om am nm. offer tid source server offered netmask gateway dns = Some (om, tid + 1) \<and>
    ack tid source server offered netmask gateway dns = Some (am, tid + 1) \<and> nack tid source server = Some (nm, tid + 1) \<and>
    (\<forall>(m, t, y) \<in> {(om, DHCPOFFER, offered), (am, DHCPACK, offered), (nm, DHCPNAK, 0)}.
       isValidDhcpMessage_xid m OP_BOOTREPLY (dh_xid (dhcpData source)) \<and> message_type m = Some t \<and>
       serverId m = Some server \<and> dh_yiaddr (dhcpData m) = y)"
proof -
  let ?d = "\<lambda>y. reply_struct tid source y"
  have h: "dh_op (?d y) = OP_BOOTREPLY" "dh_htype (?d y) = HTYPE_ETHER" "dh_hlen (?d y) = of_nat ETH_ALEN"
    "dh_xid (?d y) = dh_xid (dhcpData source)" "dh_yiaddr (dhcpData (built (?d y) bs)) = y" for y bs
    by (simp_all add: reply_struct_def new_header_def built_def)
  have g: "isValidDhcpMessage_xid (built (?d y) (options_area os)) OP_BOOTREPLY (dh_xid (dhcpData source)) \<and>
      message_type (built (?d y) (options_area os)) = Some t \<and> serverId (built (?d y) (options_area os)) = Some server \<and>
      dh_yiaddr (dhcpData (built (?d y) (options_area os))) = y"
    if "options_ok os" "map_of os OPT_MESSAGE_TYPE = Some [t]" "map_of os OPT_SERVER_ID = Some (enc32 server)" for os t y
    unfolding serverId_def
    by (intro conjI message_type_built address_built that) (simp_all add: valid_built [OF that(1)] h)
  note rb = reply_built [OF assms, of _ tid source server offered netmask gateway]
  have l: "map_of (reply_list ty server netmask gateway dns) OPT_MESSAGE_TYPE = Some [ty]"
    "map_of (reply_list ty server netmask gateway dns) OPT_SERVER_ID = Some (enc32 server)"
    "map_of [(OPT_MESSAGE_TYPE, [DHCPNAK]), (OPT_SERVER_ID, enc32 server)] OPT_MESSAGE_TYPE = Some [DHCPNAK]"
    "map_of [(OPT_MESSAGE_TYPE, [DHCPNAK]), (OPT_SERVER_ID, enc32 server)] OPT_SERVER_ID = Some (enc32 server)" for ty
    by (simp_all add: reply_list_def)
  note replies = g [OF built_options_ok(3) [OF assms] l(1,2)] g [OF built_options_ok(4) l(3,4)]
  show ?thesis
    unfolding offer_def ack_def
    by (intro exI conjI, rule rb, rule rb, rule nack_built) (simp add: replies)
qed


definition source_example :: message where
  "source_example = message_default\<lparr>dhcpData := dhcp_zero\<lparr>dh_xid := 7\<rparr>\<rparr>"

theorem replies_answer_request_witness:
  "\<exists>am. ack 5 source_example 1 2 3 4 [9, 10] = Some (am, 6) \<and> message_type am = Some DHCPACK \<and>
     isValidDhcpMessage_xid am OP_BOOTREPLY 7"
proof -
  have "length [9, 10 :: u32] < 64" "dh_xid (dhcpData source_example) = 7" by (simp_all add: source_example_def)
  then show ?thesis
    using replies_answer_request [of "[9, 10]" 5 source_example 1 2 3 4] by auto
qed

text \<open>
  No message makes the accessors leave the option area: for a message whose size fits the
  struct every option search returns, an option it finds begins inside the message and has the
  code and length found there, and the type can be read; for a message at least three bytes short of
  the struct the two addresses can be read too.
\<close>

theorem option_access_in_bounds:
  assumes "length (dh_options (dhcpData m)) = OPTIONS_SIZE" and "unat (mSize m) \<le> DHCP_SIZE"
  shows "(\<exists>r. getOption m code = Some r \<and>
      (\<forall>opt len. r = Some (opt, len) \<longrightarrow> opt < optionsSize m \<and> dh_options (dhcpData m) ! (opt - 2) = code \<and>
         dh_options (dhcpData m) ! (opt - 1) = len)) \<and>
    message_type m \<noteq> None \<and> (unat (mSize m) + 3 \<le> DHCP_SIZE \<longrightarrow> serverId m \<noteq> None \<and> requestedIp m \<noteq> None)"
proof -
  have sz: "optionsSize m \<le> length (dh_options (dhcpData m))" using assms by (simp add: optionsSize_def le_diff_conv)
  note walk = get_option_bounds [OF sz, where i = 4]
  have addr: "address_option m c \<noteq> None" if "unat (mSize m) + 3 \<le> DHCP_SIZE" for c
    using that assms by (intro address_option_some) (auto simp: optionsSize_def)
  show ?thesis
    using walk [of code] message_type_some [OF sz] addr by (auto simp: getOption_def serverId_def requestedIp_def)
qed

theorem option_access_in_bounds_witness:
  "message_type (message_default\<lparr>mSize := 300\<rparr>) \<noteq> None \<and> serverId (message_default\<lparr>mSize := 300\<rparr>) \<noteq> None"
  using option_access_in_bounds [of "message_default\<lparr>mSize := 300\<rparr>" 0]
  by (simp add: message_default_def dhcp_zero_def)

end
