(* ===== verification/Dhcp_System.thy ===== *)
theory Dhcp_System
  imports C_Bytes C_Strings
begin

text \<open>
  What the DHCP client needs of the system, and the small classes above it: \<open>Result\<close>
  (\<open>dhcp/common/include/result.h\<close>) and \<open>Timer\<close> (\<open>dhcp/client/timer.cpp\<close>). The system calls
  are the fields of a record over a kernel state \<open>'k\<close>; each takes the state and returns the next
  one with the call's result, so that the order of the calls is explicit. Addresses passed to
  \<open>bind\<close> and \<open>sendto\<close> are the bytes of the C structs.
\<close>

section \<open>Results\<close>

text \<open>The message of an error is the fixed text of its format; \<open>strerror\<close> is left out.\<close>

datatype result = Success | Error string

definition isSuccess :: "result \<Rightarrow> bool" where "isSuccess r \<longleftrightarrow> r = Success"

text \<open>\<open>if (!res) return res;\<close>\<close>

definition or_return :: "'s \<times> result \<Rightarrow> ('s \<Rightarrow> 's \<times> result) \<Rightarrow> 's \<times> result" where
  "or_return r f = (case r of (s, res) \<Rightarrow> if isSuccess res then f s else (s, res))"

lemma or_return_simps [simp]:
  "or_return (s, Success) f = f s" "or_return (s, Error e) f = (s, Error e)"
  by (simp_all add: or_return_def isSuccess_def)

section \<open>System calls\<close>

record 'k kernel_api =
  k_socket :: "'k \<Rightarrow> int \<Rightarrow> int \<Rightarrow> int \<Rightarrow> 'k \<times> int"
  k_close :: "'k \<Rightarrow> int \<Rightarrow> 'k"
  k_bind :: "'k \<Rightarrow> int \<Rightarrow> bytes \<Rightarrow> 'k \<times> int"
  k_sendto :: "'k \<Rightarrow> int \<Rightarrow> bytes \<Rightarrow> bytes \<Rightarrow> 'k \<times> int"
  k_sendmsg :: "'k \<Rightarrow> int \<Rightarrow> bytes \<Rightarrow> bytes list \<Rightarrow> bytes \<Rightarrow> 'k \<times> int"
  k_recv :: "'k \<Rightarrow> int \<Rightarrow> nat \<Rightarrow> 'k \<times> bytes option"
  k_recvmsg :: "'k \<Rightarrow> int \<Rightarrow> nat \<Rightarrow> 'k \<times> (bytes \<times> u32 list) option"
  k_setsockopt :: "'k \<Rightarrow> int \<Rightarrow> int \<Rightarrow> int \<Rightarrow> bytes \<Rightarrow> 'k \<times> int"
  k_get_index :: "'k \<Rightarrow> int \<Rightarrow> string \<Rightarrow> 'k \<times> u32 option"
  k_get_hwaddr :: "'k \<Rightarrow> int \<Rightarrow> string \<Rightarrow> 'k \<times> bytes option"
  k_get_flags :: "'k \<Rightarrow> int \<Rightarrow> string \<Rightarrow> 'k \<times> u16 option"
  k_set_flags :: "'k \<Rightarrow> int \<Rightarrow> string \<Rightarrow> u16 \<Rightarrow> 'k \<times> int"
  k_set_mtu :: "'k \<Rightarrow> int \<Rightarrow> string \<Rightarrow> int \<Rightarrow> 'k \<times> int"
  k_property_set :: "'k \<Rightarrow> string \<Rightarrow> string \<Rightarrow> 'k \<times> int"
  k_clock :: "'k \<Rightarrow> 'k \<times> int \<times> int"
  k_random :: "'k \<Rightarrow> 'k \<times> int"
  k_ppoll :: "'k \<Rightarrow> int \<Rightarrow> u64 \<times> u64 \<Rightarrow> 'k \<times> int"

text \<open>
  \<open>k_recv\<close> and \<open>k_recvmsg\<close> are given the room of the buffers and return no more bytes than that
  (\<open>readv\<close> fills its buffers in order, so one list of bytes stands for them); \<open>k_recvmsg\<close> also
  returns the interface of each packet-info control message. \<open>k_clock\<close> is \<open>clock_gettime\<close> on the
  monotonic clock (seconds, nanoseconds), \<open>k_random\<close> the client's distribution.
\<close>

section \<open>Timer\<close>

definition now :: "'k kernel_api \<Rightarrow> 'k \<Rightarrow> 'k \<times> u64" where
  "now K k = (case k_clock K k of (k, sec, nsec) \<Rightarrow> (k, word_of_int sec * 1000 + word_of_int (c_div nsec 1000000)))"

type_synonym timer = u64

definition timer_new :: timer where "timer_new = 0"

definition expireSeconds :: "'k kernel_api \<Rightarrow> 'k \<Rightarrow> u64 \<Rightarrow> 'k \<times> timer" where
  "expireSeconds K k seconds = (case now K k of (k, t) \<Rightarrow> (k, t + seconds * 1000))"

definition expired :: "'k kernel_api \<Rightarrow> 'k \<Rightarrow> timer \<Rightarrow> 'k \<times> bool" where
  "expired K k mExpires = (case now K k of (k, t) \<Rightarrow> (k, mExpires \<le> t))"

definition remainingMillis :: "'k kernel_api \<Rightarrow> 'k \<Rightarrow> timer \<Rightarrow> 'k \<times> u64" where
  "remainingMillis K k mExpires = (case now K k of (k, current) \<Rightarrow> (k, if mExpires < current then 0 else mExpires - current))"

end
