(* ===== verification/Dhcp_Socket.thy ===== *)
theory Dhcp_Socket
  imports Dhcp_Message Dhcp_System
begin

text \<open>
  \<open>dhcp/common/socket.cpp\<close>: the class \<open>Socket\<close>, the Internet checksum, and DHCP messages as UDP
  datagrams on a raw socket. The IP and UDP headers are records with a view as bytes, integers
  in them as they lie in memory.
\<close>

section \<open>Checksum\<close>

text \<open>The summing loop of \<open>addChecksum\<close>: 16-bit words of a little-endian machine, then a last byte.\<close>

fun sum_words :: "bytes \<Rightarrow> u32 \<Rightarrow> u32" where
  "sum_words (a # b # bs) checksum = sum_words bs (checksum + of_nat (le_val [a, b]))"
| "sum_words [a] checksum = checksum + ucast a"
| "sum_words [] checksum = checksum"

text \<open>Its second loop: the upper half is added to the lower one until it is empty.\<close>

lemma half_split: "unat (c AND 0xFFFF :: u32) = unat c mod 65536" "unat (drop_bit 16 c) = unat c div 65536" for c :: u32
proof -
  have "c AND 0xFFFF = take_bit 16 c" by (simp only: take_bit_eq_mask mask_eq_exp_minus_1) simp
  then have "unat (c AND 0xFFFF) = take_bit 16 (unat c)" by (simp only: unsigned_take_bit_eq)
  then show "unat (c AND 0xFFFF) = unat c mod 65536" by (simp add: take_bit_eq_mod)
  show "unat (drop_bit 16 c) = unat c div 65536" by (simp add: drop_bit_eq_div unat_div)
qed

lemma half_sum:
  fixes c :: u32
  assumes "drop_bit 16 c \<noteq> 0"
  shows "unat ((c AND 0xFFFF) + drop_bit 16 c) = unat c mod 65536 + unat c div 65536"
    and "unat c mod 65536 + unat c div 65536 < unat c"
proof -
  have c: "unat c < 2 ^ 32" using unsigned_less [of c] by simp
  have d: "0 < unat c div 65536" "unat c div 65536 < 65536"
    using assms c half_split(2) [of c] by (auto simp: unsigned_eq_0_iff less_mult_imp_div_less intro: gr0I)
  have e: "unat c = 65536 * (unat c div 65536) + unat c mod 65536" by simp
  show "unat c mod 65536 + unat c div 65536 < unat c" using d e by linarith
  have "unat c mod 65536 < 65536" by simp
  then have "unat (c AND 0xFFFF) + unat (drop_bit 16 c) < 2 ^ 32" using half_split [of c] d by simp
  then show "unat ((c AND 0xFFFF) + drop_bit 16 c) = unat c mod 65536 + unat c div 65536"
    using half_split [of c] unat_add_lem [of "c AND 0xFFFF" "drop_bit 16 c"] by simp
qed

function fold_carries :: "u32 \<Rightarrow> u32" where
  "fold_carries checksum =
     (let msw = drop_bit 16 checksum
      in if msw \<noteq> 0 then fold_carries ((checksum AND 0xFFFF) + msw) else checksum)"
  by pat_completeness auto
termination by (relation "measure unat") (simp_all add: half_sum)

declare fold_carries.simps [simp del]

definition addChecksum :: "bytes \<Rightarrow> u32 \<Rightarrow> u32" where
  "addChecksum buffer checksum = fold_carries (sum_words buffer checksum)"

definition finishChecksum :: "u32 \<Rightarrow> u32" where
  "finishChecksum checksum = (NOT checksum) AND 0xFFFF"

section \<open>Headers\<close>

record iphdr =
  ip_ihl :: u8
  ip_version :: u8
  ip_tos :: u8
  ip_tot_len :: u16
  ip_id :: u16
  ip_frag_off :: u16
  ip_ttl :: u8
  ip_protocol :: u8
  ip_check :: u16
  ip_saddr :: u32
  ip_daddr :: u32

record udphdr =
  udp_source :: u16
  udp_dest :: u16
  udp_len :: u16
  udp_check :: u16

text \<open>\<open>ihl\<close> and \<open>version\<close> are the lower and the upper four bits of the first byte.\<close>

definition ip_bytes :: "iphdr \<Rightarrow> bytes" where
  "ip_bytes ip = [ip_ihl ip + 16 * ip_version ip, ip_tos ip] @ enc16 (ip_tot_len ip) @ enc16 (ip_id ip) @ enc16 (ip_frag_off ip) @
     [ip_ttl ip, ip_protocol ip] @ enc16 (ip_check ip) @ enc32 (ip_saddr ip) @ enc32 (ip_daddr ip)"

definition udp_bytes :: "udphdr \<Rightarrow> bytes" where
  "udp_bytes udp = enc16 (udp_source udp) @ enc16 (udp_dest udp) @ enc16 (udp_len udp) @ enc16 (udp_check udp)"

abbreviation (input) IPVERSION :: u8 where "IPVERSION \<equiv> 4"
abbreviation (input) IPDEFTTL :: u8 where "IPDEFTTL \<equiv> 64"
abbreviation (input) IPPROTO_UDP :: u8 where "IPPROTO_UDP \<equiv> 17"

text \<open>\<open>message.data()\<close> with \<open>message.size()\<close> bytes; \<open>None\<close> when the size exceeds the struct.\<close>

definition message_bytes :: "message \<Rightarrow> bytes option" where
  "message_bytes m = mem_read (dhcp_bytes (dhcpData m)) 0 (unat (mSize m))"

section \<open>Sending\<close>

definition raw_ip :: "u32 \<Rightarrow> u32 \<Rightarrow> size_t \<Rightarrow> iphdr" where
  "raw_ip source destination nbytes =
     (let ip = \<lparr>ip_ihl = 20 div 4, ip_version = IPVERSION, ip_tos = 0, ip_tot_len = htons (ucast (20 + 8 + nbytes)), ip_id = 0,
            ip_frag_off = 0, ip_ttl = IPDEFTTL, ip_protocol = IPPROTO_UDP, ip_check = 0, ip_saddr = source, ip_daddr = destination\<rparr>
      in ip\<lparr>ip_check := ucast (finishChecksum (addChecksum (ip_bytes ip) 0))\<rparr>)"

text \<open>The UDP header; its checksum runs over the pseudo header, the header and the message in turn.\<close>

definition raw_udp :: "u32 \<Rightarrow> u16 \<Rightarrow> u32 \<Rightarrow> u16 \<Rightarrow> bytes \<Rightarrow> size_t \<Rightarrow> udphdr" where
  "raw_udp source sourcePort destination destinationPort dat nbytes =
     (let udp = \<lparr>udp_source = htons sourcePort, udp_dest = htons destinationPort, udp_len = htons (ucast (8 + nbytes)), udp_check = 0\<rparr>;
          udpChecksum = addChecksum (enc32 source) 0;
          udpChecksum = addChecksum (enc32 destination) udpChecksum;
          udpChecksum = addChecksum (enc16 (htons (ucast IPPROTO_UDP))) udpChecksum;
          udpChecksum = addChecksum (enc16 (udp_len udp)) udpChecksum;
          udpChecksum = addChecksum (udp_bytes udp) udpChecksum;
          udpChecksum = addChecksum dat udpChecksum
      in udp\<lparr>udp_check := ucast (finishChecksum udpChecksum)\<rparr>)"

abbreviation (input) AF_INET :: u16 where "AF_INET \<equiv> 2"
abbreviation (input) AF_PACKET :: u16 where "AF_PACKET \<equiv> 17"
abbreviation (input) ETH_P_IP :: u16 where "ETH_P_IP \<equiv> 0x0800"

text \<open>\<open>struct sockaddr_ll\<close> (20 bytes) and \<open>struct sockaddr_in\<close> (16 bytes).\<close>

definition sockaddr_ll :: "u32 \<Rightarrow> u8 \<Rightarrow> bytes \<Rightarrow> bytes" where
  "sockaddr_ll ifindex halen addr =
     enc16 AF_PACKET @ enc16 (htons ETH_P_IP) @ enc32 ifindex @ enc16 0 @ [0, halen] @ addr @ replicate (8 - length addr) 0"

definition sockaddr_in :: "u32 \<Rightarrow> u16 \<Rightarrow> bytes" where
  "sockaddr_in address port = enc16 AF_INET @ enc16 (htons port) @ enc32 address @ replicate 8 0"

text \<open>A socket is its descriptor, -1 when it is not open.\<close>

type_synonym sock = int

definition sock_new :: sock where "sock_new = -1"

definition sock_destroy :: "'k kernel_api \<Rightarrow> 'k \<Rightarrow> sock \<Rightarrow> 'k" where
  "sock_destroy K k fd = (if fd \<noteq> -1 then k_close K k fd else k)"

definition sock_open :: "'k kernel_api \<Rightarrow> int \<Rightarrow> int \<Rightarrow> int \<Rightarrow> 'k \<times> sock \<Rightarrow> ('k \<times> sock) \<times> result" where
  "sock_open K domain type protocol s =
     (case s of (k, fd) \<Rightarrow>
        if fd \<noteq> -1 then (s, Error ''Socket already open'')
        else case k_socket K k domain type protocol of (k, fd) \<Rightarrow>
               if fd = -1 then ((k, fd), Error ''Failed to open socket'') else ((k, fd), Success))"

definition sock_bind :: "'k kernel_api \<Rightarrow> bytes \<Rightarrow> 'k \<times> sock \<Rightarrow> ('k \<times> sock) \<times> result" where
  "sock_bind K sockaddr s =
     (case s of (k, fd) \<Rightarrow>
        if fd = -1 then (s, Error ''Socket not open'')
        else case k_bind K k fd sockaddr of (k, status) \<Rightarrow>
               if status \<noteq> 0 then ((k, fd), Error ''Unable to bind raw socket'') else ((k, fd), Success))"

definition bindIp :: "'k kernel_api \<Rightarrow> u32 \<Rightarrow> u16 \<Rightarrow> 'k \<times> sock \<Rightarrow> ('k \<times> sock) \<times> result" where
  "bindIp K address port = sock_bind K (sockaddr_in address port)"

definition bindRaw :: "'k kernel_api \<Rightarrow> u32 \<Rightarrow> 'k \<times> sock \<Rightarrow> ('k \<times> sock) \<times> result" where
  "bindRaw K interfaceIndex = sock_bind K (sockaddr_ll interfaceIndex 0 [])"

text \<open>\<open>CMSG_SPACE(sizeof(struct in_pktinfo))\<close> bytes: header (length, \<open>IPPROTO_IP\<close>, \<open>IP_PKTINFO\<close>), index, two addresses, padding.\<close>

definition pktinfo_control :: "u32 \<Rightarrow> bytes" where
  "pktinfo_control interfaceIndex =
     le_enc 8 28 @ enc32 0 @ enc32 8 @ enc32 interfaceIndex @ enc32 0 @ enc32 0 @ replicate 4 0"

definition sendOnInterface :: "'k kernel_api \<Rightarrow> u32 \<Rightarrow> u32 \<Rightarrow> u16 \<Rightarrow> message \<Rightarrow> 'k \<times> sock \<Rightarrow> (('k \<times> sock) \<times> result) option" where
  "sendOnInterface K interfaceIndex destinationAddress destinationPort m s =
     (case s of (k, fd) \<Rightarrow>
        if fd = -1 then Some (s, Error ''Socket not open'')
        else map_option
          (\<lambda>dat. case k_sendmsg K k fd (sockaddr_in destinationAddress destinationPort) [dat] (pktinfo_control interfaceIndex) of
                   (k, status) \<Rightarrow> if status \<le> 0 then ((k, fd), Error ''Failed to send packet'') else ((k, fd), Success))
          (message_bytes m))"

definition sendRawUdp ::
    "'k kernel_api \<Rightarrow> u32 \<Rightarrow> u16 \<Rightarrow> u32 \<Rightarrow> u16 \<Rightarrow> u32 \<Rightarrow> message \<Rightarrow> 'k \<times> sock \<Rightarrow> (('k \<times> sock) \<times> result) option" where
  "sendRawUdp K source sourcePort destination destinationPort interfaceIndex m s =
     (case s of (k, fd) \<Rightarrow>
        map_option
          (\<lambda>dat.
             let ip = raw_ip source destination (mSize m);
                 udp = raw_udp source sourcePort destination destinationPort dat (mSize m)
             in case k_sendmsg K k fd (sockaddr_ll interfaceIndex (of_nat ETH_ALEN) (replicate ETH_ALEN 0xFF))
                       [ip_bytes ip, udp_bytes udp, dat] [] of
                  (k, res) \<Rightarrow> if res = -1 then ((k, fd), Error ''Failed to send message'') else ((k, fd), Success))
          (message_bytes m))"

section \<open>Receiving\<close>

text \<open>Bytes the kernel stores from the start of the struct.\<close>

definition overlay :: "message \<Rightarrow> bytes \<Rightarrow> message" where
  "overlay m dat = m\<lparr>dhcpData := dhcp_of_bytes (dat @ drop (length dat) (dhcp_bytes (dhcpData m)))\<rparr>"

definition receiveFromInterface ::
    "'k kernel_api \<Rightarrow> message \<Rightarrow> u32 \<Rightarrow> 'k \<times> sock \<Rightarrow> (('k \<times> sock) \<times> message \<times> u32) \<times> result" where
  "receiveFromInterface K m interfaceIndex s =
     (case s of (k, fd) \<Rightarrow>
        case k_recvmsg K k fd DHCP_SIZE of
          (k, None) \<Rightarrow> (((k, fd), m, interfaceIndex), Error ''Error receiving on socket'')
        | (k, Some (dat, infos)) \<Rightarrow>
            (((k, fd), setSize (overlay m dat) (of_nat (length dat)), fold (\<lambda>i _. i) infos interfaceIndex), Success))"

text \<open>What \<open>readv\<close> delivered is examined: the two headers and the message behind them.\<close>

definition received_raw :: "u16 \<Rightarrow> bytes \<Rightarrow> message \<Rightarrow> message \<times> bool" where
  "received_raw expectedPort dat m =
     (let m = overlay m (drop 28 dat) in
      if length dat < 20 + 8 then (m, False)
      else (setSize m (of_nat (length dat) - 20 - 8),
            drop_bit 4 (dat ! 0) = IPVERSION \<and> take_bit 4 (dat ! 0) = 20 div 4 \<and> dat ! 9 = IPPROTO_UDP \<and>
            load16 dat 22 = htons expectedPort))"

definition receiveRawUdp ::
    "'k kernel_api \<Rightarrow> u16 \<Rightarrow> message \<Rightarrow> bool \<Rightarrow> 'k \<times> sock \<Rightarrow> (('k \<times> sock) \<times> message \<times> bool) \<times> result" where
  "receiveRawUdp K expectedPort m isValid s =
     (case s of (k, fd) \<Rightarrow>
        case k_recv K k fd (20 + 8 + DHCP_SIZE) of
          (k, None) \<Rightarrow> (((k, fd), m, isValid), Error ''Unable to read from socket'')
        | (k, Some dat) \<Rightarrow> (((k, fd), received_raw expectedPort dat m), Success))"

definition enableOption :: "'k kernel_api \<Rightarrow> int \<Rightarrow> int \<Rightarrow> 'k \<times> sock \<Rightarrow> ('k \<times> sock) \<times> result" where
  "enableOption K level optionName s =
     (case s of (k, fd) \<Rightarrow>
        if fd = -1 then (s, Error ''Socket not open'')
        else case k_setsockopt K k fd level optionName (enc32 1) of (k, status) \<Rightarrow>
               if status = -1 then ((k, fd), Error ''Failed to set socket option'') else ((k, fd), Success))"


section \<open>Arithmetic of the checksum\<close>

text \<open>The sum of the 16-bit words as a number, and the value its folding comes to.\<close>

fun word_sum :: "bytes \<Rightarrow> nat" where
  "word_sum (a # b # bs) = le_val [a, b] + word_sum bs"
| "word_sum [a] = unat a"
| "word_sum [] = 0"

definition ones_sum :: "nat \<Rightarrow> nat" where
  "ones_sum x = (if x = 0 then 0 else if x mod 65535 = 0 then 65535 else x mod 65535)"

lemma sum_words_nat: "unat c + word_sum bs < 2 ^ 32 \<Longrightarrow> unat (sum_words bs c) = unat c + word_sum bs"
proof (induction bs c rule: sum_words.induct)
  case (1 a b bs c)
  have l: "le_val [a, b] < 2 ^ 32" using le_val_bound [of "[a, b]"] by simp
  then have u: "unat (of_nat (le_val [a, b]) :: u32) = le_val [a, b]" by (intro unat_u32_of_nat) simp
  have "unat (c + of_nat (le_val [a, b])) = unat c + le_val [a, b]"
    using "1.prems" u unat_add_lem [of c "of_nat (le_val [a, b])"] by simp
  then show ?case using "1.IH" "1.prems" by simp
next
  case (2 a c)
  have u: "unat (ucast a :: u32) = unat a"
    using byte_lt [of a] by (simp add: unsigned_ucast_eq take_bit_nat_eq_self)
  then show ?case using "2.prems" unat_add_lem [of c "ucast a"] by simp
qed simp

lemma word_sum_append: "even (length xs) \<Longrightarrow> word_sum (xs @ ys) = word_sum xs + word_sum ys"
  by (induction xs rule: word_sum.induct) simp_all

lemma word_sum_bound: "word_sum bs \<le> 65535 * ((length bs + 1) div 2)"
proof (induction bs rule: word_sum.induct)
  case (1 a b bs)
  have "le_val [a, b] \<le> 65535" using le_val_bound [of "[a, b]"] by simp
  then show ?case using "1.IH" by simp
next
  case (2 a)
  show ?case using byte_lt [of a] by simp
qed simp

lemma word_sum_enc [simp]:
  "word_sum (enc16 w) = unat w" "word_sum (enc16 w @ bs) = unat w + word_sum bs"
proof -
  obtain a b where "enc16 w = [a, b]" by (simp add: enc16_def numeral_2_eq_2)
  then show "word_sum (enc16 w) = unat w" "word_sum (enc16 w @ bs) = unat w + word_sum bs"
    using le_val_enc16 [of w] by simp_all
qed

lemma mod_half: "(x mod 65536 + x div 65536) mod 65535 = x mod 65535" for x :: nat
proof -
  have "x = 65535 * (x div 65536) + (x mod 65536 + x div 65536)"
    using mult_div_mod_eq [of 65536 x] by linarith
  moreover have "(65535 * q + z) mod 65535 = z mod 65535" for q z :: nat by simp
  ultimately show ?thesis by metis
qed

lemma fold_carries_nat: "unat (fold_carries c) = ones_sum (unat c)"
proof (induction c rule: fold_carries.induct)
  case (1 c)
  show ?case
  proof (cases "drop_bit 16 c = 0")
    case True
    then have "unat c < 65536" using half_split(2) [of c] by (simp add: div_eq_0_iff)
    then have "unat c = ones_sum (unat c)"
      by (cases "unat c = 65535") (auto simp: ones_sum_def)
    then show ?thesis using True by (subst fold_carries.simps) simp
  next
    case False
    let ?s = "unat c mod 65536 + unat c div 65536"
    have "?s \<noteq> 0" using False half_split(2) [of c] by (auto simp: unsigned_eq_0_iff)
    moreover have "unat c \<noteq> 0" using half_sum(2) [OF False] by simp
    ultimately have "ones_sum ?s = ones_sum (unat c)" by (simp only: ones_sum_def mod_half if_False)
    then show ?thesis
      using "1.IH" [OF refl False] half_sum(1) [OF False] False by (subst fold_carries.simps) (simp add: Let_def)
  qed
qed

lemma addChecksum_nat:
  assumes "unat c + word_sum bs < 2 ^ 32"
  shows "unat (addChecksum bs c) = ones_sum (unat c + word_sum bs)"
  by (simp add: addChecksum_def fold_carries_nat sum_words_nat [OF assms])

lemma ones_sum_le: "ones_sum x \<le> 65535"
  using mod_less_divisor [of 65535 x] by (simp add: ones_sum_def)

lemma ones_sum_add: "ones_sum (ones_sum x + y) = ones_sum (x + y)"
proof -
  have "(ones_sum x + y) mod 65535 = (x + y) mod 65535"
    by (auto simp: ones_sum_def mod_simps)
  moreover have "ones_sum x + y = 0 \<longleftrightarrow> x + y = 0" by (auto simp: ones_sum_def)
  ultimately show ?thesis unfolding ones_sum_def [of "ones_sum x + y"] ones_sum_def [of "x + y"] by simp
qed

lemma finish_nat:
  assumes "unat c = s" and "s \<le> 65535"
  shows "unat (ucast (finishChecksum c) :: u16) = 65535 - s"
proof -
  have m: "(0xFFFF :: u32) = mask 16" by (simp add: mask_eq_exp_minus_1)
  have "(ucast (finishChecksum c) :: u16) = NOT (ucast c)"
    unfolding finishChecksum_def m by (rule bit_word_eqI) (auto simp: bit_simps)
  then have "ucast (finishChecksum c) = (- 1 :: u16) - ucast c" by (simp add: not_eq_complement)
  then have "unat (ucast (finishChecksum c) :: u16) = unat (- 1 :: u16) - unat (ucast c :: u16)"
    by (simp only: unat_sub_le word_order.extremum)
  moreover have "unat (ucast c :: u16) = s" using assms by (simp add: unsigned_ucast_eq take_bit_nat_eq_self)
  moreover have "unat (- 1 :: u16) = 65535" by (simp add: unsigned_minus_1_eq_mask mask_eq_exp_minus_1)
  ultimately show ?thesis by simp
qed

lemma pos_mod_bound_nat: "s mod 65535 < (65535 :: nat)"
  by (rule mod_less_divisor) simp

text \<open>A sum and the complement of its folding fold to all ones.\<close>

lemma complement_sum: "0 < s \<Longrightarrow> ones_sum (s + (65535 - ones_sum s)) = 65535"
proof -
  assume s: "0 < s"
  have "(s + (65535 - ones_sum s)) mod 65535 = 0"
  proof (cases "s mod 65535 = 0")
    case True
    then show ?thesis using s by (simp add: ones_sum_def)
  next
    case False
    have "65535 * q + m + (65535 - m) = 65535 * (q + 1)" if "m < 65535" for q m :: nat using that by simp
    from this [OF pos_mod_bound_nat, of "s div 65535" s]
    have "s + (65535 - s mod 65535) = 65535 * (s div 65535 + 1)" by simp
    then show ?thesis using False s by (simp add: ones_sum_def)
  qed
  moreover have "s + (65535 - ones_sum s) \<noteq> 0" using s by linarith
  ultimately show ?thesis by (simp only: ones_sum_def [of "s + (65535 - ones_sum s)"] if_True if_False refl)
qed


section \<open>The headers of a sent datagram\<close>

lemma ip_word_sum: "word_sum (ip_bytes (ip\<lparr>ip_check := w\<rparr>)) = word_sum (ip_bytes (ip\<lparr>ip_check := 0\<rparr>)) + unat w"
  by (simp add: ip_bytes_def word_sum_append)

lemma udp_word_sum: "word_sum (udp_bytes (udp\<lparr>udp_check := w\<rparr>)) = word_sum (udp_bytes (udp\<lparr>udp_check := 0\<rparr>)) + unat w"
  by (simp add: udp_bytes_def word_sum_append)

lemma header_lengths [simp]: "length (ip_bytes ip) = 20" "length (udp_bytes udp) = 8"
  by (simp_all add: ip_bytes_def udp_bytes_def)

lemma raw_ip_checksum: "addChecksum (ip_bytes (raw_ip source destination nbytes)) 0 = 0xFFFF"
proof -
  let ?ip = "(raw_ip source destination nbytes)\<lparr>ip_check := 0\<rparr>"
  let ?s = "word_sum (ip_bytes ?ip)"
  have s: "0 < ?s" "?s < 2 ^ 32 - 65535"
    using word_sum_bound [of "ip_bytes ?ip"] by (simp_all add: ip_bytes_def raw_ip_def Let_def)
  let ?c = "ucast (finishChecksum (addChecksum (ip_bytes ?ip) 0)) :: u16"
  have "unat (addChecksum (ip_bytes ?ip) 0) = ones_sum ?s" using s(2) addChecksum_nat [of 0 "ip_bytes ?ip"] by simp
  then have c: "unat ?c = 65535 - ones_sum ?s" by (rule finish_nat [OF _ ones_sum_le])
  have "raw_ip source destination nbytes = ?ip\<lparr>ip_check := ?c\<rparr>"
    by (simp add: raw_ip_def Let_def)
  then have sum: "word_sum (ip_bytes (raw_ip source destination nbytes)) = ?s + (65535 - ones_sum ?s)"
    using ip_word_sum [where ip = ?ip and w = ?c] c by simp
  then have "unat (addChecksum (ip_bytes (raw_ip source destination nbytes)) 0) = 65535"
    using s addChecksum_nat [of 0 "ip_bytes (raw_ip source destination nbytes)"] complement_sum [OF s(1)] by simp
  then show ?thesis by (simp add: word_unat_eq_iff)
qed


text \<open>The pseudo header of the UDP checksum: addresses, protocol, length.\<close>

definition pseudo_header :: "u32 \<Rightarrow> u32 \<Rightarrow> u16 \<Rightarrow> bytes" where
  "pseudo_header source destination len =
     enc32 source @ enc32 destination @ enc16 (htons (ucast IPPROTO_UDP)) @ enc16 len"

lemma addChecksum_chain:
  assumes "unat c = ones_sum x" and "word_sum bs < 2 ^ 31"
  shows "unat (addChecksum bs c) = ones_sum (x + word_sum bs)"
proof -
  have "unat c + word_sum bs < 2 ^ 32" using assms ones_sum_le [of x] by simp
  then show ?thesis using addChecksum_nat assms(1) ones_sum_add by metis
qed

lemma word_sum_small: "length bs \<le> 1500 \<Longrightarrow> word_sum bs < 2 ^ 31"
proof -
  assume "length bs \<le> 1500"
  then have "(length bs + 1) div 2 \<le> 750" by simp
  then have "65535 * ((length bs + 1) div 2) \<le> 65535 * 750" by (intro mult_le_mono2)
  then show ?thesis using word_sum_bound [of bs] by simp
qed

lemma raw_udp_checksum:
  assumes "length dat \<le> 1500"
  shows "addChecksum (pseudo_header source destination (udp_len (raw_udp source sp destination dp dat n)) @
    udp_bytes (raw_udp source sp destination dp dat n) @ dat) 0 = 0xFFFF"
proof -
  let ?udp = "(raw_udp source sp destination dp dat n)\<lparr>udp_check := 0\<rparr>"
  let ?ps = "pseudo_header source destination (udp_len ?udp)"
  let ?s = "word_sum ?ps + word_sum (udp_bytes ?udp) + word_sum dat"
  define c where "c = addChecksum dat (addChecksum (udp_bytes ?udp) (addChecksum (enc16 (udp_len ?udp))
      (addChecksum (enc16 (htons (ucast IPPROTO_UDP))) (addChecksum (enc32 destination) (addChecksum (enc32 source) 0)))))"
  have small: "word_sum (enc32 x) < 2 ^ 31" "word_sum (enc16 y) < 2 ^ 31" "word_sum (udp_bytes u) < 2 ^ 31" for x y u
    by (intro word_sum_small; simp)+
  have ps: "word_sum ?ps = word_sum (enc32 source) + word_sum (enc32 destination) + word_sum (enc16 (htons (ucast IPPROTO_UDP))) +
      word_sum (enc16 (udp_len ?udp))"
    by (simp only: pseudo_header_def word_sum_append enc_length) (simp add: word_sum_append)
  have z: "unat (0 :: u32) = ones_sum 0" by (simp add: ones_sum_def)
  have chain: "unat c = ones_sum ?s"
    using addChecksum_chain [OF addChecksum_chain [OF addChecksum_chain [OF addChecksum_chain [OF addChecksum_chain
      [OF addChecksum_chain [OF z small(1)] small(1)] small(2)] small(2)] small(3)] word_sum_small [OF assms]]
    unfolding c_def ps by (simp add: add.assoc)
  have "raw_udp source sp destination dp dat n = ?udp\<lparr>udp_check := ucast (finishChecksum c)\<rparr>"
    by (simp add: raw_udp_def c_def Let_def)
  then have total: "word_sum (?ps @ udp_bytes (raw_udp source sp destination dp dat n) @ dat) = ?s + (65535 - ones_sum ?s)"
    using udp_word_sum [where udp = ?udp and w = "ucast (finishChecksum c)"] finish_nat [OF chain ones_sum_le]
    by (simp add: word_sum_append pseudo_header_def)
  have enc: "enc16 17 = [17, 0]" "enc16 0 = [0, 0]" by (simp_all add: enc16_explicit)
  have "bswap16 17 \<noteq> 0"
  proof
    assume "bswap16 17 = 0"
    then have "rev (enc16 17) = enc16 0" using enc_bswap(1) [of 17] by simp
    then show False by (simp add: enc)
  qed
  then have "0 < word_sum (enc16 (htons (ucast IPPROTO_UDP)))" by (simp add: unat_gt_0)
  then have pos: "0 < ?s" unfolding ps by linarith
  have bound: "?s + 65535 < 2 ^ 32"
  proof -
    have len: "(length ?ps + 1) div 2 = 6" "(length (udp_bytes ?udp) + 1) div 2 = 4" by (simp_all add: pseudo_header_def)
    have a: "word_sum ?ps \<le> 65535 * 6" using word_sum_bound [of ?ps] unfolding len(1) .
    have b: "word_sum (udp_bytes ?udp) \<le> 65535 * 4" using word_sum_bound [of "udp_bytes ?udp"] unfolding len(2) .
    have c: "word_sum dat < 2147483648" using word_sum_small [OF assms] by simp
    have "?s + 65535 < 4294967296" using a b c by linarith
    then show ?thesis by simp
  qed
  have "udp_len (raw_udp source sp destination dp dat n) = udp_len ?udp" by simp
  then have eq: "pseudo_header source destination (udp_len (raw_udp source sp destination dp dat n)) @
      udp_bytes (raw_udp source sp destination dp dat n) @ dat = ?ps @ udp_bytes (raw_udp source sp destination dp dat n) @ dat"
    by (simp only:)
  have lt: "unat (0 :: u32) + (?s + (65535 - ones_sum ?s)) < 2 ^ 32" 
    by (rule le_less_trans [OF _ bound]) (simp only: unat_0 add_0 add_le_mono le_refl diff_le_self)
  have "unat (addChecksum (pseudo_header source destination (udp_len (raw_udp source sp destination dp dat n)) @
      udp_bytes (raw_udp source sp destination dp dat n) @ dat) 0) = 65535"
    unfolding eq using addChecksum_nat [of 0 "?ps @ udp_bytes (raw_udp source sp destination dp dat n) @ dat", unfolded total, OF lt] complement_sum [OF pos] by (simp only: unat_0 add_0)
  then show ?thesis by (simp add: word_unat_eq_iff)
qed


section \<open>The struct and its bytes\<close>

definition dhcp_wf :: "dhcp \<Rightarrow> bool" where
  "dhcp_wf d \<longleftrightarrow> length (dh_chaddr d) = 16 \<and> length (dh_sname d) = 64 \<and> length (dh_file d) = 128 \<and>
     length (dh_options d) = OPTIONS_SIZE"

lemma dhcp_bytes_length: "dhcp_wf d \<Longrightarrow> length (dhcp_bytes d) = DHCP_SIZE"
  by (simp add: dhcp_bytes_def dhcp_wf_def)

lemma dhcp_of_bytes_length: "length m = DHCP_SIZE \<Longrightarrow> dhcp_wf (dhcp_of_bytes m)"
  by (simp add: dhcp_of_bytes_def dhcp_wf_def)

interpretation dhcp_codec: byte_codec dhcp_bytes dhcp_of_bytes dhcp_wf DHCP_SIZE
proof
  show "length (dhcp_bytes d) = DHCP_SIZE" if "dhcp_wf d" for d by (rule dhcp_bytes_length [OF that])
  show "dhcp_of_bytes (dhcp_bytes d @ rest) = d" if "dhcp_wf d" for d rest
    using that unfolding dhcp_wf_def dhcp_bytes_def dhcp_of_bytes_def load32_def load16_def by (simp add: byte_simps)
qed

lemmas dhcp_roundtrip = dhcp_codec.dec_id

lemma field_bytes:
  assumes "off + 4 \<le> length m" shows "enc32 (load32 m off) = take 4 (drop off m)"
  using assms by (simp add: load32_def enc32_le_val)

lemma field_bytes16:
  assumes "off + 2 \<le> length m" shows "enc16 (load16 m off) = take 2 (drop off m)"
  using assms by (simp add: load16_def enc16_le_val)

lemma take_drop_cat: "off' = off + n \<Longrightarrow> take n (drop off m) @ drop off' m = drop off m"
  using append_take_drop_id [of n "drop off m"] by (simp add: add.commute)

lemma bytes_roundtrip:
  assumes "length m = DHCP_SIZE"
  shows "dhcp_bytes (dhcp_of_bytes m) = m"
proof -
  have four: "[m ! 0, m ! 1, m ! 2, m ! 3] = take 4 m"
    using assms by (simp add: list_eq_iff_nth_eq nth_Cons' less_Suc_eq numeral_eq_Suc)
  have "dhcp_bytes (dhcp_of_bytes m) = take 4 m @ take 4 (drop 4 m) @ take 2 (drop 8 m) @ take 2 (drop 10 m) @
     take 4 (drop 12 m) @ take 4 (drop 16 m) @ take 4 (drop 20 m) @ take 4 (drop 24 m) @ take 16 (drop 28 m) @
     take 64 (drop 44 m) @ take 128 (drop 108 m) @ take OPTIONS_SIZE (drop OPTIONS_OFFSET m)"
    unfolding dhcp_bytes_def dhcp_of_bytes_def dhcp.simps four using assms by (simp add: field_bytes field_bytes16)
  also have "\<dots> = m"
  proof -
    have "take OPTIONS_SIZE (drop OPTIONS_OFFSET m) = drop OPTIONS_OFFSET m" using assms by simp
    then show ?thesis
      by (simp add: take_drop_cat [of 236 108 128] take_drop_cat [of 108 44 64] take_drop_cat [of 44 28 16]
          take_drop_cat [of 28 24 4] take_drop_cat [of 24 20 4] take_drop_cat [of 20 16 4] take_drop_cat [of 16 12 4]
          take_drop_cat [of 12 10 2] take_drop_cat [of 10 8 2] take_drop_cat [of 8 4 4])
  qed
  finally show ?thesis .
qed


lemma overlay_bytes:
  assumes "dhcp_wf (dhcpData m)" and "length dat \<le> DHCP_SIZE"
  shows "dhcp_bytes (dhcpData (overlay m dat)) = dat @ drop (length dat) (dhcp_bytes (dhcpData m))"
    and "dhcp_wf (dhcpData (overlay m dat))"
proof -
  have "length (dat @ drop (length dat) (dhcp_bytes (dhcpData m))) = DHCP_SIZE"
    using assms by (simp add: dhcp_bytes_length)
  then show "dhcp_bytes (dhcpData (overlay m dat)) = dat @ drop (length dat) (dhcp_bytes (dhcpData m))"
    and "dhcp_wf (dhcpData (overlay m dat))"
    using bytes_roundtrip dhcp_of_bytes_length by (simp_all add: overlay_def)
qed

text \<open>A receiver on the destination port takes what \<open>sendRawUdp\<close> builds.\<close>

lemma received_raw_sent:
  assumes "length dat = unat n"
  shows "received_raw destinationPort (ip_bytes (raw_ip source destination n) @
      udp_bytes (raw_udp source sourcePort destination destinationPort dat n) @ dat) m0 = (setSize (overlay m0 dat) n, True)"
proof -
  let ?ip = "ip_bytes (raw_ip source destination n)"
  let ?udp = "udp_bytes (raw_udp source sourcePort destination destinationPort dat n)"
  have drop: "drop 28 (?ip @ ?udp @ dat) = dat" by simp
  have size: "of_nat (length (?ip @ ?udp @ dat)) - 20 - 8 = n" by (simp add: assms)
  have head: "(?ip @ rest) ! 0 = 0x45" "(?ip @ rest) ! 9 = IPPROTO_UDP" for rest
    by (simp_all add: ip_bytes_def raw_ip_def Let_def enc16_explicit)
  have port: "load16 (?ip @ ?udp @ dat) 22 = htons destinationPort"
    using load_enc(1) [of "?ip @ enc16 (htons sourcePort)" "htons destinationPort"] by (simp add: udp_bytes_def raw_udp_def Let_def)
  show ?thesis
    unfolding received_raw_def Let_def drop size port head by (simp add: take_bit_eq_mod drop_bit_eq_div)
qed

section \<open>Properties\<close>



text \<open>
  C22. A message survives the raw socket: \<open>sendRawUdp\<close> hands the kernel one datagram for the
  interface's broadcast address and reports the kernel's result, and a receiver that waits on the
  destination port takes exactly this datagram as valid and holds a message of the same size and
  the same bytes.
\<close>

theorem raw_udp_roundtrip:
  assumes "dhcp_wf (dhcpData m)" and "unat (mSize m) \<le> DHCP_SIZE" and "dhcp_wf (dhcpData m0)"
  shows "\<exists>ip udp dat m'. message_bytes m = Some dat \<and>
    sendRawUdp K source sourcePort destination destinationPort ifindex m (k, fd) =
      Some (case k_sendmsg K k fd (sockaddr_ll ifindex 6 (replicate 6 0xFF)) [ip, udp, dat] [] of
              (k, res) \<Rightarrow> ((k, fd), if res = -1 then Error ''Failed to send message'' else Success)) \<and>
    received_raw destinationPort (ip @ udp @ dat) m0 = (m', True) \<and> mSize m' = mSize m \<and> message_bytes m' = Some dat"
proof -
  let ?dat = "take (unat (mSize m)) (dhcp_bytes (dhcpData m))"
  let ?ip = "ip_bytes (raw_ip source destination (mSize m))"
  let ?udp = "udp_bytes (raw_udp source sourcePort destination destinationPort ?dat (mSize m))"
  have len: "length ?dat = unat (mSize m)" using assms(1,2) by (simp add: dhcp_bytes_length)
  have mb: "message_bytes m = Some ?dat" using assms(1,2) by (simp add: message_bytes_def mem_read_Some dhcp_bytes_length)
  have send: "sendRawUdp K source sourcePort destination destinationPort ifindex m (k, fd) =
      Some (case k_sendmsg K k fd (sockaddr_ll ifindex 6 (replicate 6 0xFF)) [?ip, ?udp, ?dat] [] of
              (k, res) \<Rightarrow> ((k, fd), if res = -1 then Error ''Failed to send message'' else Success))"
    by (simp add: sendRawUdp_def mb Let_def split: prod.split)
  let ?m = "overlay m0 ?dat"
  have recv: "received_raw destinationPort (?ip @ ?udp @ ?dat) m0 = (setSize ?m (mSize m), True)"
    by (rule received_raw_sent) (rule len)
  have "message_bytes (setSize ?m (mSize m)) = Some ?dat"
    using overlay_bytes(1) [OF assms(3), of ?dat] len assms(2) dhcp_bytes_length [OF assms(3)]
    by (simp add: message_bytes_def setSize_def mem_read_def)
  then show ?thesis using mb send recv by (intro exI conjI) (assumption | simp add: setSize_def)+
qed


definition quiet_kernel :: "unit kernel_api" where
  "quiet_kernel = \<lparr>k_socket = \<lambda>k _ _ _. (k, 3), k_close = \<lambda>k _. k, k_bind = \<lambda>k _ _. (k, 0), k_sendto = \<lambda>k _ _ _. (k, 0),
     k_sendmsg = \<lambda>k _ _ _ _. (k, 1), k_recv = \<lambda>k _ _. (k, None), k_recvmsg = \<lambda>k _ _. (k, None),
     k_setsockopt = \<lambda>k _ _ _ _. (k, 0), k_get_index = \<lambda>k _ _. (k, Some 2), k_get_hwaddr = \<lambda>k _ _. (k, Some (replicate 6 9)),
     k_get_flags = \<lambda>k _ _. (k, Some 0x1043), k_set_flags = \<lambda>k _ _ _. (k, 0), k_set_mtu = \<lambda>k _ _ _. (k, 0),
     k_property_set = \<lambda>k _ _. (k, 0), k_clock = \<lambda>k. (k, 1, 0), k_random = \<lambda>k. (k, 0), k_ppoll = \<lambda>k _ _. (k, 0)\<rparr>"

lemma message_default_wf: "dhcp_wf (dhcpData message_default)" "dhcp_wf (dhcpData (message_default\<lparr>mSize := s\<rparr>))"
  by (simp_all add: message_default_def dhcp_zero_def dhcp_wf_def)

theorem raw_udp_roundtrip_witness:
  "\<exists>ip udp dat m'. sendRawUdp quiet_kernel 0 68 0xFFFFFFFF 67 2 (message_default\<lparr>mSize := 300\<rparr>) ((), 3) = Some (((), 3), Success) \<and>
     received_raw 67 (ip @ udp @ dat) message_default = (m', True) \<and> mSize m' = 300 \<and> message_bytes m' = Some dat"
proof -
  have "unat (mSize (message_default\<lparr>mSize := 300\<rparr>)) \<le> DHCP_SIZE" by simp
  from raw_udp_roundtrip [where K = quiet_kernel and source = 0 and sourcePort = 68 and destination = "0xFFFFFFFF" and
      destinationPort = 67 and ifindex = 2 and k = "()" and fd = 3, OF message_default_wf(2) this message_default_wf(1)]
  obtain ip udp dat m' where
    "sendRawUdp quiet_kernel 0 68 0xFFFFFFFF 67 2 (message_default\<lparr>mSize := 300\<rparr>) ((), 3) =
      Some (case k_sendmsg quiet_kernel () 3 (sockaddr_ll 2 6 (replicate 6 0xFF)) [ip, udp, dat] [] of
              (k, res) \<Rightarrow> ((k, 3), if res = -1 then Error ''Failed to send message'' else Success))"
    "received_raw 67 (ip @ udp @ dat) message_default = (m', True)" "mSize m' = mSize (message_default\<lparr>mSize := 300\<rparr>)"
    "message_bytes m' = Some dat" by blast
  then show ?thesis by (intro exI conjI) (assumption | simp add: quiet_kernel_def)+
qed

end
