(* ===== verification/Dhcp_Interface.thy ===== *)
theory Dhcp_Interface
  imports Dhcp_System
begin

text \<open>
  Network configuration over netlink and ioctl: \<open>dhcp/client/netlink.h\<close>, \<open>interface.cpp\<close> and
  \<open>router.cpp\<close>. A netlink request is a record of its header's length, type and flags, its
  fixed payload and the attribute buffer; \<open>nl_bytes\<close> is the memory the kernel is given.
\<close>

section \<open>Netlink requests\<close>

record nl_request =
  nl_len :: u32
  nl_type :: u16
  nl_flags :: u16
  nl_msg :: bytes
  nl_buf :: bytes

text \<open>The header has 16 bytes, the last eight (sequence number and port) zero.\<close>

definition nl_bytes :: "nl_request \<Rightarrow> bytes" where
  "nl_bytes r = enc32 (nl_len r) @ enc16 (nl_type r) @ enc16 (nl_flags r) @ enc32 0 @ enc32 0 @ nl_msg r @ nl_buf r"

definition nl_align :: "u32 \<Rightarrow> u32" where "nl_align n = ((n + 3) div 4) * 4"

text \<open>\<open>None\<close> when the attribute does not fit the buffer.\<close>

definition addRouterAttribute :: "nl_request \<Rightarrow> u16 \<Rightarrow> bytes \<Rightarrow> nl_request option" where
  "addRouterAttribute r type dat =
     (let offset = unat (nl_align (nl_len r)) - (16 + length (nl_msg r));
          rta_len = 4 + of_nat (length dat) :: u16
      in if unat (nl_align (nl_len r)) < 16 + length (nl_msg r) then None
         else map_option (\<lambda>buf. r\<lparr>nl_buf := buf, nl_len := nl_align (nl_len r) + nl_align (ucast rta_len)\<rparr>)
                (mem_write (nl_buf r) offset (enc16 rta_len @ enc16 type @ dat)))"

text \<open>The bytes handed to \<open>sendto\<close>: \<open>nlmsg_len\<close> of them; \<open>None\<close> behind the struct.\<close>

definition nl_sent :: "nl_request \<Rightarrow> bytes option" where
  "nl_sent r = mem_read (nl_bytes r) 0 (unat (nl_len r))"

abbreviation (input) RTM_NEWADDR :: u16 where "RTM_NEWADDR \<equiv> 20"
abbreviation (input) RTM_NEWROUTE :: u16 where "RTM_NEWROUTE \<equiv> 24"
abbreviation (input) NLM_F_REQUEST :: u16 where "NLM_F_REQUEST \<equiv> 1"
abbreviation (input) NLM_F_ACK :: u16 where "NLM_F_ACK \<equiv> 4"
abbreviation (input) NLM_F_REPLACE :: u16 where "NLM_F_REPLACE \<equiv> 0x100"
abbreviation (input) NLM_F_CREATE :: u16 where "NLM_F_CREATE \<equiv> 0x400"
abbreviation (input) IFA_ADDRESS :: u16 where "IFA_ADDRESS \<equiv> 1"
abbreviation (input) IFA_LOCAL :: u16 where "IFA_LOCAL \<equiv> 2"
abbreviation (input) IFA_BROADCAST :: u16 where "IFA_BROADCAST \<equiv> 4"
abbreviation (input) RTA_OIF :: u16 where "RTA_OIF \<equiv> 4"
abbreviation (input) RTA_GATEWAY :: u16 where "RTA_GATEWAY \<equiv> 5"

text \<open>\<open>struct sockaddr_nl\<close>: the family and ten zero bytes.\<close>

definition sockaddr_nl :: bytes where "sockaddr_nl = enc16 16 @ replicate 10 0"

section \<open>Interface\<close>

record interface =
  mInterfaceName :: string
  mIfaceFd :: int
  mIndex :: u32
  mMacAddress :: bytes

definition broadcastFromNetmask :: "u32 \<Rightarrow> u32 \<Rightarrow> u32" where
  "broadcastFromNetmask address netmask = address OR (NOT netmask)"

text \<open>The constructor leaves index and address as the memory had them (\<open>old\<close>).\<close>

definition interface_new :: "interface \<Rightarrow> interface" where
  "interface_new old = old\<lparr>mInterfaceName := [], mIfaceFd := -1\<rparr>"

text \<open>
  \<open>ifr_name\<close>: sixteen characters; \<open>createRequest\<close> ends them with a zero byte, \<open>setMtu\<close> copies
  the name again without.
\<close>

definition request_name :: "interface \<Rightarrow> string" where
  "request_name i = take 15 (strncpy_buf (mInterfaceName i) 16) @ [NUL]"

definition mtu_request_name :: "interface \<Rightarrow> string" where
  "mtu_request_name i = strncpy_buf (mInterfaceName i) 16"

abbreviation (input) IFF_UP :: u16 where "IFF_UP \<equiv> 1"

definition setInterfaceUp :: "'k kernel_api \<Rightarrow> bool \<Rightarrow> 'k \<times> interface \<Rightarrow> ('k \<times> interface) \<times> result" where
  "setInterfaceUp K shouldBeUp s =
     (case s of (k, i) \<Rightarrow>
        case k_get_flags K k (mIfaceFd i) (request_name i) of
          (k, None) \<Rightarrow> ((k, i), Error ''Failed to get interface flags'')
        | (k, Some ifr_flags) \<Rightarrow>
            let isUp = (ifr_flags AND IFF_UP \<noteq> 0) in
            if isUp \<noteq> shouldBeUp then
              (case k_set_flags K k (mIfaceFd i) (request_name i) (ifr_flags XOR IFF_UP) of (k, status) \<Rightarrow>
                 if status \<noteq> 0 then ((k, i), Error ''Failed to set interface flags'') else ((k, i), Success))
            else ((k, i), Success))"

definition bringUp :: "'k kernel_api \<Rightarrow> 'k \<times> interface \<Rightarrow> ('k \<times> interface) \<times> result" where
  "bringUp K = setInterfaceUp K True"

definition bringDown :: "'k kernel_api \<Rightarrow> 'k \<times> interface \<Rightarrow> ('k \<times> interface) \<times> result" where
  "bringDown K = setInterfaceUp K False"

definition setMtu :: "'k kernel_api \<Rightarrow> u16 \<Rightarrow> 'k \<times> interface \<Rightarrow> ('k \<times> interface) \<times> result" where
  "setMtu K mtu s =
     (case s of (k, i) \<Rightarrow>
        case k_set_mtu K k (mIfaceFd i) (mtu_request_name i) (int (unat mtu)) of (k, status) \<Rightarrow>
          if status \<noteq> 0 then ((k, i), Error ''Failed to set interface MTU'') else ((k, i), Success))"

text \<open>\<open>struct ifaddrmsg\<close>: family, prefix length, flags, scope, index.\<close>

definition address_request :: "u32 \<Rightarrow> u32 \<Rightarrow> u32 \<Rightarrow> nl_request option" where
  "address_request index address subnetMask =
     (let r = \<lparr>nl_len = 16 + 8, nl_type = RTM_NEWADDR,
               nl_flags = NLM_F_REQUEST OR NLM_F_ACK OR NLM_F_CREATE OR NLM_F_REPLACE,
               nl_msg = [2, of_nat (popcount subnetMask), 0, 0] @ enc32 index, nl_buf = replicate 256 0\<rparr>
      in Option.bind (addRouterAttribute r IFA_ADDRESS (enc32 address)) (\<lambda>r.
         Option.bind (addRouterAttribute r IFA_LOCAL (enc32 address)) (\<lambda>r.
         addRouterAttribute r IFA_BROADCAST (enc32 (broadcastFromNetmask address subnetMask)))))"

text \<open>The reply to the request: an error message with a non-zero code is a failure.\<close>

definition address_response :: "bytes \<Rightarrow> result" where
  "address_response response =
     (if length response < 16 then Error ''Received incomplete response from netlink''
      else if load16 response 4 = 2 then
        (if length response < 16 + 20 then Error ''Recieved an error from netlink but the response was incomplete''
         else if load32 response 16 \<noteq> 0 then Error ''Could not set interface address'' else Success)
      else Success)"

definition setAddress :: "'k kernel_api \<Rightarrow> u32 \<Rightarrow> u32 \<Rightarrow> 'k \<times> interface \<Rightarrow> (('k \<times> interface) \<times> result) option" where
  "setAddress K address subnetMask s =
     (case s of (k, i) \<Rightarrow>
        map_option
          (\<lambda>dat. case k_sendto K k (mIfaceFd i) dat sockaddr_nl of (k, status) \<Rightarrow>
             if status = -1 then ((k, i), Error ''Unable to set interface address'')
             else case k_recv K k (mIfaceFd i) 8192 of
                    (k, None) \<Rightarrow> ((k, i), Error ''Unable to read netlink response'')
                  | (k, Some response) \<Rightarrow> ((k, i), address_response response))
          (Option.bind (address_request (mIndex i) address subnetMask) nl_sent))"

definition populateIndex :: "'k kernel_api \<Rightarrow> 'k \<times> interface \<Rightarrow> ('k \<times> interface) \<times> result" where
  "populateIndex K s =
     (case s of (k, i) \<Rightarrow>
        case k_get_index K k (mIfaceFd i) (request_name i) of
          (k, None) \<Rightarrow> ((k, i), Error ''Failed to get interface index'')
        | (k, Some ifindex) \<Rightarrow> ((k, i\<lparr>mIndex := ifindex\<rparr>), Success))"

definition populateMacAddress :: "'k kernel_api \<Rightarrow> 'k \<times> interface \<Rightarrow> ('k \<times> interface) \<times> result" where
  "populateMacAddress K s =
     (case s of (k, i) \<Rightarrow>
        case k_get_hwaddr K k (mIfaceFd i) (request_name i) of
          (k, None) \<Rightarrow> ((k, i), Error ''Failed to get MAC address'')
        | (k, Some sa_data) \<Rightarrow> ((k, i\<lparr>mMacAddress := take 6 sa_data\<rparr>), Success))"

text \<open>\<open>or_return\<close> for steps that may fault.\<close>

definition or_return_opt :: "('s \<times> result) option \<Rightarrow> ('s \<Rightarrow> ('s \<times> result) option) \<Rightarrow> ('s \<times> result) option" where
  "or_return_opt r f = Option.bind r (\<lambda>(s, res). if isSuccess res then f s else Some (s, res))"

definition interface_init :: "'k kernel_api \<Rightarrow> string \<Rightarrow> 'k \<times> interface \<Rightarrow> (('k \<times> interface) \<times> result) option" where
  "interface_init K interfaceName s =
     (case s of (k, i) \<Rightarrow>
        let i = i\<lparr>mInterfaceName := c_str interfaceName\<rparr> in
        if mIfaceFd i \<noteq> -1 then Some ((k, i), Error ''Interface initialized more than once'')
        else case k_socket K k 16 (3 + 0x80000) 0 of (k, fd) \<Rightarrow>
          let i = i\<lparr>mIfaceFd := fd\<rparr> in
          if fd = -1 then Some ((k, i), Error ''Failed to create interface socket'')
          else or_return_opt (Some (populateIndex K (k, i))) (\<lambda>s.
               or_return_opt (Some (populateMacAddress K s)) (\<lambda>s.
               or_return_opt (Some (bringUp K s)) (setAddress K 0 0))))"

definition interface_destroy :: "'k kernel_api \<Rightarrow> 'k \<times> interface \<Rightarrow> 'k" where
  "interface_destroy K s = (case s of (k, i) \<Rightarrow> if mIfaceFd i \<noteq> -1 then k_close K k (mIfaceFd i) else k)"

section \<open>Router\<close>

text \<open>A router is its netlink socket.\<close>

type_synonym router = int

definition router_new :: router where "router_new = -1"

definition router_init :: "'k kernel_api \<Rightarrow> 'k \<times> router \<Rightarrow> ('k \<times> router) \<times> result" where
  "router_init K s =
     (case s of (k, _) \<Rightarrow> case k_socket K k 16 3 0 of (k, fd) \<Rightarrow>
        if fd = -1 then ((k, fd), Error '''') else ((k, fd), Success))"

definition router_destroy :: "'k kernel_api \<Rightarrow> 'k \<times> router \<Rightarrow> 'k" where
  "router_destroy K s = (case s of (k, fd) \<Rightarrow> if fd \<noteq> -1 then k_close K k fd else k)"

definition sendNetlinkMessage :: "'k kernel_api \<Rightarrow> bytes \<Rightarrow> 'k \<times> router \<Rightarrow> ('k \<times> router) \<times> result" where
  "sendNetlinkMessage K dat s =
     (case s of (k, fd) \<Rightarrow> case k_sendto K k fd dat sockaddr_nl of (k, res) \<Rightarrow>
        if res = -1 then ((k, fd), Error ''Unable to send on netlink socket'') else ((k, fd), Success))"

text \<open>\<open>struct rtmsg\<close>: family, lengths, tos, table (main), protocol (boot), scope (universe), type (unicast), flags.\<close>

definition gateway_request :: "u32 \<Rightarrow> u32 \<Rightarrow> nl_request option" where
  "gateway_request gateway ifaceIndex =
     (let r = \<lparr>nl_len = 16 + 12, nl_type = RTM_NEWROUTE, nl_flags = NLM_F_REQUEST OR NLM_F_CREATE,
               nl_msg = [2, 0, 0, 0, 254, 3, 0, 1] @ enc32 0, nl_buf = replicate 256 0\<rparr>
      in Option.bind (addRouterAttribute r RTA_GATEWAY (enc32 gateway)) (\<lambda>r.
         addRouterAttribute r RTA_OIF (enc32 ifaceIndex)))"

definition setDefaultGateway :: "'k kernel_api \<Rightarrow> u32 \<Rightarrow> u32 \<Rightarrow> 'k \<times> router \<Rightarrow> (('k \<times> router) \<times> result) option" where
  "setDefaultGateway K gateway ifaceIndex s =
     map_option (\<lambda>dat. sendNetlinkMessage K dat s) (Option.bind (gateway_request gateway ifaceIndex) nl_sent)"


section \<open>Requests under construction\<close>

text \<open>A request whose buffer holds the attributes \<open>used\<close>, all in multiples of four bytes.\<close>

definition nl_built :: "u16 \<Rightarrow> u16 \<Rightarrow> bytes \<Rightarrow> bytes \<Rightarrow> nl_request" where
  "nl_built type flags msg used = \<lparr>nl_len = of_nat (16 + length msg + length used), nl_type = type, nl_flags = flags,
     nl_msg = msg, nl_buf = used @ replicate (256 - length used) 0\<rparr>"

definition rtattr :: "u16 \<Rightarrow> bytes \<Rightarrow> bytes" where
  "rtattr type dat = enc16 (of_nat (4 + length dat)) @ enc16 type @ dat"

lemma nl_align_multiple:
  assumes "n \<le> 2000" and "n mod 4 = 0"
  shows "nl_align (of_nat n) = of_nat n"
proof -
  have u: "unat (of_nat n + 3 :: u32) = n + 3" using assms(1) unat_u32_of_nat [of "n + 3"] by (simp add: add.commute)
  have "(n + 3) div 4 * 4 = n" using assms(2) by presburger
  then have "unat (nl_align (of_nat n)) = n"
    unfolding nl_align_def unat_word_ariths(2) unat_div u using assms(1) by simp
  then show ?thesis using assms(1) unat_u32_of_nat [of n] by (simp add: word_unat_eq_iff)
qed

lemma built_addRouterAttribute:
  assumes "length msg mod 4 = 0" and "length used mod 4 = 0" and "length msg \<le> 1000" and "length used + 8 \<le> 256"
    and "length dat = 4"
  shows "addRouterAttribute (nl_built type flags msg used) t dat = Some (nl_built type flags msg (used @ rtattr t dat))"
proof -
  let ?n = "16 + length msg + length used"
  have "?n mod 4 = 0" using assms(1,2) by presburger
  then have a: "nl_align (of_nat ?n) = of_nat ?n" using assms(3,4) by (intro nl_align_multiple) simp_all
  have u: "unat (of_nat ?n :: u32) = ?n" using assms(3,4) by (intro unat_u32_of_nat) simp
  have e: "nl_align 8 = 8" by (simp add: nl_align_def)
  have "addRouterAttribute (nl_built type flags msg used) t dat =
      map_option (\<lambda>buf. (nl_built type flags msg used)\<lparr>nl_buf := buf, nl_len := of_nat ?n + 8\<rparr>)
        (mem_write (used @ replicate (256 - length used) 0) (length used) (rtattr t dat))"
    unfolding addRouterAttribute_def Let_def nl_built_def nl_request.simps a u
    by (simp add: assms(5) e rtattr_def)
  also have "\<dots> = Some (nl_built type flags msg (used @ rtattr t dat))"
    using assms(4,5) by (simp add: mem_write_Some nl_built_def rtattr_def)
  finally show ?thesis .
qed

lemma nl_sent_built:
  assumes "length msg \<le> 1000" and "length used \<le> 256"
  shows "nl_sent (nl_built type flags msg used) =
    Some (enc32 (of_nat (16 + length msg + length used)) @ enc16 type @ enc16 flags @ enc32 0 @ enc32 0 @ msg @ used)"
proof -
  have u: "unat (of_nat (16 + length msg + length used) :: u32) = 16 + length msg + length used"
    using assms by (intro unat_u32_of_nat) simp
  have b: "nl_bytes (nl_built type flags msg used) =
      (enc32 (of_nat (16 + length msg + length used)) @ enc16 type @ enc16 flags @ enc32 0 @ enc32 0 @ msg @ used) @
      replicate (256 - length used) 0"
    by (simp add: nl_bytes_def nl_built_def)
  show ?thesis
    unfolding nl_sent_def b using u by (simp add: mem_read_def nl_built_def del: of_nat_add)
qed

lemmas nl_built_steps = built_addRouterAttribute nl_sent_built

text \<open>
  The kernel's walk over the attributes (\<open>RTA_OK\<close>, \<open>RTA_NEXT\<close>) as the specification.
\<close>

function parse_attrs :: "bytes \<Rightarrow> (u16 \<times> bytes) list" where
  "parse_attrs bs =
     (let n = unat (load16 bs 0)
      in if length bs < 4 \<or> n < 4 \<or> length bs < n then []
         else (load16 bs 2, take (n - 4) (drop 4 bs)) # parse_attrs (drop (4 * ((n + 3) div 4)) bs))"
  by pat_completeness auto
termination by (relation "measure length") auto

declare parse_attrs.simps [simp del]

lemma parse_attrs_rtattr [simp]: "length dat = 4 \<Longrightarrow> parse_attrs (rtattr t dat @ rest) = (t, dat) # parse_attrs rest"
proof -
  assume l: "length dat = 4"
  have h: "load16 (rtattr t dat @ rest) 0 = 8" "load16 (rtattr t dat @ rest) 2 = t"
    using load_enc(1) [of "[]" 8] load_enc(1) [of "enc16 8" t] by (simp_all add: rtattr_def l)
  show ?thesis by (subst parse_attrs.simps) (simp only: h Let_def, simp add: rtattr_def l)
qed

lemma parse_attrs_Nil [simp]: "parse_attrs [] = []"
  by (subst parse_attrs.simps) simp

definition address_bytes :: "u32 \<Rightarrow> u32 \<Rightarrow> u32 \<Rightarrow> bytes" where
  "address_bytes index address subnetMask =
     enc32 48 @ enc16 RTM_NEWADDR @ enc16 0x505 @ enc32 0 @ enc32 0 @ ([2, of_nat (popcount subnetMask), 0, 0] @ enc32 index) @
     rtattr IFA_ADDRESS (enc32 address) @ rtattr IFA_LOCAL (enc32 address) @
     rtattr IFA_BROADCAST (enc32 (broadcastFromNetmask address subnetMask))"

definition gateway_bytes :: "u32 \<Rightarrow> u32 \<Rightarrow> bytes" where
  "gateway_bytes gateway ifaceIndex =
     enc32 44 @ enc16 RTM_NEWROUTE @ enc16 0x401 @ enc32 0 @ enc32 0 @ ([2, 0, 0, 0, 254, 3, 0, 1] @ enc32 0) @
     rtattr RTA_GATEWAY (enc32 gateway) @ rtattr RTA_OIF (enc32 ifaceIndex)"

lemma rtattr_length [simp]: "length (rtattr t dat) = 4 + length dat"
  by (simp add: rtattr_def)

lemma address_request_sent: "Option.bind (address_request index address subnetMask) nl_sent = Some (address_bytes index address subnetMask)"
proof -
  let ?msg = "[2, of_nat (popcount subnetMask), 0, 0] @ enc32 index"
  have "address_request index address subnetMask =
     Option.bind (addRouterAttribute (nl_built RTM_NEWADDR 0x505 ?msg []) IFA_ADDRESS (enc32 address)) (\<lambda>r.
     Option.bind (addRouterAttribute r IFA_LOCAL (enc32 address)) (\<lambda>r.
     addRouterAttribute r IFA_BROADCAST (enc32 (broadcastFromNetmask address subnetMask))))"
    by (simp add: address_request_def nl_built_def)
  then show ?thesis by (simp add: nl_built_steps address_bytes_def)
qed

lemma gateway_request_sent: "Option.bind (gateway_request gateway ifaceIndex) nl_sent = Some (gateway_bytes gateway ifaceIndex)"
proof -
  let ?msg = "[2, 0, 0, 0, 254, 3, 0, 1] @ enc32 0"
  have "gateway_request gateway ifaceIndex =
     Option.bind (addRouterAttribute (nl_built RTM_NEWROUTE 0x401 ?msg []) RTA_GATEWAY (enc32 gateway)) (\<lambda>r.
     addRouterAttribute r RTA_OIF (enc32 ifaceIndex))"
    by (simp add: gateway_request_def nl_built_def)
  then show ?thesis by (simp add: nl_built_steps gateway_bytes_def)
qed


section \<open>Properties\<close>

text \<open>
  C34. The two netlink requests say what was asked for: configuring an address always sends one
  RTM_NEWADDR message, whose length field is its size, for the interface's index with the prefix
  length of the mask, and whose attributes parse to the address, the local address and the broadcast
  address; the outcome is that of the send and of the kernel's answer. A default gateway is one
  RTM_NEWROUTE message whose attributes parse to the gateway and the interface.
\<close>

theorem netlink_requests_parse:
  "\<exists>ab gb.
     setAddress K address netmask (k, i) = Some
       (case k_sendto K k (mIfaceFd i) ab sockaddr_nl of (k, status) \<Rightarrow>
          if status = -1 then ((k, i), Error ''Unable to set interface address'')
          else case k_recv K k (mIfaceFd i) 8192 of
                 (k, None) \<Rightarrow> ((k, i), Error ''Unable to read netlink response'')
               | (k, Some response) \<Rightarrow> ((k, i), address_response response)) \<and>
     load32 ab 0 = of_nat (length ab) \<and> load16 ab 4 = RTM_NEWADDR \<and> ab ! 17 = of_nat (popcount netmask) \<and>
     load32 ab 20 = mIndex i \<and>
     parse_attrs (drop 24 ab) = [(IFA_ADDRESS, enc32 address), (IFA_LOCAL, enc32 address),
       (IFA_BROADCAST, enc32 (address OR NOT netmask))] \<and>
     setDefaultGateway K gateway (mIndex i) (k, fd) = Some
       (case k_sendto K k fd gb sockaddr_nl of (k, res) \<Rightarrow>
          ((k, fd), if res = -1 then Error ''Unable to send on netlink socket'' else Success)) \<and>
     load32 gb 0 = of_nat (length gb) \<and> load16 gb 4 = RTM_NEWROUTE \<and>
     parse_attrs (drop 28 gb) = [(RTA_GATEWAY, enc32 gateway), (RTA_OIF, enc32 (mIndex i))]"
proof -
  let ?ab = "address_bytes (mIndex i) address netmask" and ?gb = "gateway_bytes gateway (mIndex i)"
  have a: "load32 ?ab 0 = 48" "load16 ?ab 4 = RTM_NEWADDR" "load32 ?ab 20 = mIndex i" "?ab ! 17 = of_nat (popcount netmask)"
    using load_enc(2) [of "[]" 48] load_enc(1) [of "enc32 48" RTM_NEWADDR]
      load_enc(2) [of "enc32 48 @ enc16 RTM_NEWADDR @ enc16 0x505 @ enc32 0 @ enc32 0 @ [2, of_nat (popcount netmask), 0, 0]" "mIndex i"]
    by (simp_all add: address_bytes_def nth_append)
  have g: "load32 ?gb 0 = 44" "load16 ?gb 4 = RTM_NEWROUTE"
    using load_enc(2) [of "[]" 44] load_enc(1) [of "enc32 44" RTM_NEWROUTE] by (simp_all add: gateway_bytes_def)
  have pa: "parse_attrs (drop 24 ?ab) = [(IFA_ADDRESS, enc32 address), (IFA_LOCAL, enc32 address),
      (IFA_BROADCAST, enc32 (address OR NOT netmask))]"
    using parse_attrs_rtattr [of "enc32 (address OR NOT netmask)" IFA_BROADCAST "[]"]
    by (simp add: address_bytes_def broadcastFromNetmask_def)
  have pg: "parse_attrs (drop 28 ?gb) = [(RTA_GATEWAY, enc32 gateway), (RTA_OIF, enc32 (mIndex i))]"
    using parse_attrs_rtattr [of "enc32 (mIndex i)" RTA_OIF "[]"] by (simp add: gateway_bytes_def)
  have len: "length ?ab = 48" "length ?gb = 44" by (simp_all add: address_bytes_def gateway_bytes_def)
  have "setAddress K address netmask (k, i) = Some
       (case k_sendto K k (mIfaceFd i) ?ab sockaddr_nl of (k, status) \<Rightarrow>
          if status = -1 then ((k, i), Error ''Unable to set interface address'')
          else case k_recv K k (mIfaceFd i) 8192 of
                 (k, None) \<Rightarrow> ((k, i), Error ''Unable to read netlink response'')
               | (k, Some response) \<Rightarrow> ((k, i), address_response response))"
    by (simp add: setAddress_def address_request_sent)
  moreover have "setDefaultGateway K gateway (mIndex i) (k, fd) = Some
       (case k_sendto K k fd ?gb sockaddr_nl of (k, res) \<Rightarrow>
          ((k, fd), if res = -1 then Error ''Unable to send on netlink socket'' else Success))"
    by (simp add: setDefaultGateway_def gateway_request_sent sendNetlinkMessage_def split: prod.split)
  ultimately show ?thesis using a g pa pg len by (intro exI [of _ ?ab] exI [of _ ?gb] conjI) simp_all
qed

text \<open>
  Bringing the interface up or down touches that flag only: unless the kernel's flags cannot be
  read, there is one set of flags with the wanted state and every other flag as the kernel had it;
  it is written, with the kernel's result, except when it is what the kernel had.
\<close>

theorem interface_flags_toggled:
  "case k_get_flags K k (mIfaceFd i) (request_name i) of
     (k', None) \<Rightarrow> setInterfaceUp K up (k, i) = ((k', i), Error ''Failed to get interface flags'')
   | (k', Some flags) \<Rightarrow>
       (\<exists>flags'. (flags' AND IFF_UP \<noteq> 0) = up \<and> flags' AND NOT IFF_UP = flags AND NOT IFF_UP \<and>
          setInterfaceUp K up (k, i) =
            (if flags' = flags then ((k', i), Success)
             else case k_set_flags K k' (mIfaceFd i) (request_name i) flags' of (k'', status) \<Rightarrow>
               ((k'', i), if status \<noteq> 0 then Error ''Failed to set interface flags'' else Success)))"
proof -
  have x: "((f XOR IFF_UP) AND IFF_UP \<noteq> 0) = (f AND IFF_UP = 0)" "(f XOR IFF_UP) AND NOT IFF_UP = f AND NOT IFF_UP"
    "f XOR IFF_UP \<noteq> f" for f :: u16
  proof -
    have b: "(g AND IFF_UP \<noteq> 0) = bit g 0" for g :: u16
      by (simp add: and_one_eq odd_iff_mod_2_eq_one bit_0)
    show "((f XOR IFF_UP) AND IFF_UP \<noteq> 0) = (f AND IFF_UP = 0)" using b [of f] b [of "f XOR IFF_UP"] by (auto simp: bit_xor_iff)
    show "(f XOR IFF_UP) AND NOT IFF_UP = f AND NOT IFF_UP"
      by (rule bit_eqI) (auto simp: bit_and_iff bit_xor_iff bit_not_iff bit_1_iff)
    show "f XOR IFF_UP \<noteq> f"
    proof
      assume "f XOR IFF_UP = f"
      then have "bit (f XOR IFF_UP) 0 = bit f 0" by simp
      then show False by (simp add: bit_xor_iff)
    qed
  qed
  show ?thesis
  proof (cases "k_get_flags K k (mIfaceFd i) (request_name i)")
    case (Pair k' r)
    show ?thesis
    proof (cases r)
      case None
      then show ?thesis using Pair by (simp add: setInterfaceUp_def)
    next
      case (Some f)
      let ?f = "if (f AND IFF_UP \<noteq> 0) = up then f else f XOR IFF_UP"
      have "setInterfaceUp K up (k, i) =
            (if ?f = f then ((k', i), Success)
             else case k_set_flags K k' (mIfaceFd i) (request_name i) ?f of (k'', status) \<Rightarrow>
               ((k'', i), if status \<noteq> 0 then Error ''Failed to set interface flags'' else Success))"
        using Pair Some x(3) [of f] by (auto simp: setInterfaceUp_def Let_def split: prod.split)
      moreover have "(?f AND IFF_UP \<noteq> 0) = up" "?f AND NOT IFF_UP = f AND NOT IFF_UP" using x(1,2) [of f] by auto
      ultimately show ?thesis unfolding Pair Some prod.case option.case by (intro exI [of _ ?f] conjI)
    qed
  qed
qed

end
