(* ===== verification/Dhcp_Client.thy ===== *)
theory Dhcp_Client
  imports Dhcp_Socket Dhcp_Interface
begin

text \<open>
  The DHCP client, \<open>dhcp/client/dhcpclient.cpp\<close>: its state, the reading of the options of an
  acknowledgement, the configuration of the network, waiting and receiving, and one evaluation of
  the state machine of \<open>run\<close>. The state is the client's record next to the kernel state. \<open>None\<close> is
  undefined behaviour (a read outside the message struct); the endless loops are at the end.
\<close>

section \<open>State\<close>

datatype client_state = Init | Selecting | Requesting | Bound | Renewing | Rebinding

record dhcp_info =
  di_t1 :: u32
  di_t2 :: u32
  di_leaseTime :: u32
  di_mtu :: u16
  di_dns :: "u32 list"
  di_gateway :: u32
  di_subnetMask :: u32
  di_serverId :: u32
  di_offeredAddress :: u32

text \<open>\<open>sNextTransactionId\<close> is a static variable of \<open>message.cpp\<close>; the client is its only user.\<close>

record client =
  mOptions :: u32
  mDhcpInfo :: dhcp_info
  mRouter :: router
  mInterface :: interface
  mLastMsg :: message
  mT1 :: timer
  mT2 :: timer
  mSocket :: sock
  mState :: client_state
  mNextTimeout :: u32
  mFuzzNextTimeout :: bool
  mRequestAddress :: u32
  mServerAddress :: u32
  sNextTransactionId :: u32

definition kInitialTimeout :: u32 where "kInitialTimeout = 4000"
definition kMaxTimeout :: u32 where "kMaxTimeout = 64000"
definition kNoTimeout :: u32 where "kNoTimeout = 0"
definition kTimeoutSpan :: int where "kTimeoutSpan = 1000"

abbreviation (input) NoGateway :: u32 where "NoGateway \<equiv> 1"

definition info_zero :: dhcp_info where
  "info_zero = \<lparr>di_t1 = 0, di_t2 = 0, di_leaseTime = 0, di_mtu = 0, di_dns = replicate 4 0, di_gateway = 0,
     di_subnetMask = 0, di_serverId = 0, di_offeredAddress = 0\<rparr>"

text \<open>The constructor leaves \<open>mDhcpInfo\<close> and the two addresses as the memory had them (\<open>old\<close>).\<close>

definition client_new :: "client \<Rightarrow> u32 \<Rightarrow> client" where
  "client_new old options =
     old\<lparr>mOptions := options, mRouter := router_new, mInterface := interface_new (mInterface old), mLastMsg := message_default,
         mT1 := timer_new, mT2 := timer_new, mSocket := sock_new, mState := Init, mNextTimeout := kInitialTimeout,
         mFuzzNextTimeout := True, sNextTransactionId := 1\<rparr>"

definition stateToStr :: "client_state \<Rightarrow> string" where
  "stateToStr state = (case state of
     Init \<Rightarrow> ''Init'' | Selecting \<Rightarrow> ''Selecting'' | Requesting \<Rightarrow> ''Requesting'' | Bound \<Rightarrow> ''Bound''
   | Renewing \<Rightarrow> ''Renewing'' | Rebinding \<Rightarrow> ''Rebinding'')"

definition setNextState :: "client_state \<Rightarrow> client \<Rightarrow> client" where
  "setNextState state c = c\<lparr>mState := state, mNextTimeout := kNoTimeout, mFuzzNextTimeout := True\<rparr>"

definition increaseTimeout :: "client \<Rightarrow> client" where
  "increaseTimeout c =
     (if mNextTimeout c = kNoTimeout then c\<lparr>mNextTimeout := kInitialTimeout\<rparr>
      else let c = (if mNextTimeout c < kMaxTimeout then c\<lparr>mNextTimeout := mNextTimeout c * 2\<rparr> else c)
           in if kMaxTimeout < mNextTimeout c then c\<lparr>mNextTimeout := kMaxTimeout\<rparr> else c)"

text \<open>The random adjustment is between plus and minus \<open>kTimeoutSpan\<close>.\<close>

definition calculateTimeoutMillis :: "'k kernel_api \<Rightarrow> 'k \<times> client \<Rightarrow> ('k \<times> client) \<times> u32" where
  "calculateTimeoutMillis K s =
     (case s of (k, c) \<Rightarrow>
        if \<not> mFuzzNextTimeout c then (s, mNextTimeout c)
        else case k_random K k of (k, adjustment) \<Rightarrow>
          if adjustment < 0 \<and> mNextTimeout c < word_of_int (- adjustment) then ((k, c), 0)
          else ((k, c), mNextTimeout c + word_of_int adjustment))"

text \<open>Calls of the parts on their component of the client.\<close>

definition on_interface :: "('k \<times> interface \<Rightarrow> ('k \<times> interface) \<times> 'r) \<Rightarrow> 'k \<times> client \<Rightarrow> ('k \<times> client) \<times> 'r" where
  "on_interface f s = (case s of (k, c) \<Rightarrow> case f (k, mInterface c) of ((k, i), r) \<Rightarrow> ((k, c\<lparr>mInterface := i\<rparr>), r))"

definition on_router :: "('k \<times> router \<Rightarrow> ('k \<times> router) \<times> 'r) \<Rightarrow> 'k \<times> client \<Rightarrow> ('k \<times> client) \<times> 'r" where
  "on_router f s = (case s of (k, c) \<Rightarrow> case f (k, mRouter c) of ((k, i), r) \<Rightarrow> ((k, c\<lparr>mRouter := i\<rparr>), r))"

definition on_socket :: "('k \<times> sock \<Rightarrow> ('k \<times> sock) \<times> 'r) \<Rightarrow> 'k \<times> client \<Rightarrow> ('k \<times> client) \<times> 'r" where
  "on_socket f s = (case s of (k, c) \<Rightarrow> case f (k, mSocket c) of ((k, i), r) \<Rightarrow> ((k, c\<lparr>mSocket := i\<rparr>), r))"

definition on_interface_opt ::
    "('k \<times> interface \<Rightarrow> (('k \<times> interface) \<times> result) option) \<Rightarrow> 'k \<times> client \<Rightarrow> (('k \<times> client) \<times> result) option" where
  "on_interface_opt f s =
     (case s of (k, c) \<Rightarrow> map_option (\<lambda>((k, i), r). ((k, c\<lparr>mInterface := i\<rparr>), r)) (f (k, mInterface c)))"

definition on_router_opt ::
    "('k \<times> router \<Rightarrow> (('k \<times> router) \<times> result) option) \<Rightarrow> 'k \<times> client \<Rightarrow> (('k \<times> client) \<times> result) option" where
  "on_router_opt f s =
     (case s of (k, c) \<Rightarrow> map_option (\<lambda>((k, i), r). ((k, c\<lparr>mRouter := i\<rparr>), r)) (f (k, mRouter c)))"

definition on_socket_opt ::
    "('k \<times> sock \<Rightarrow> (('k \<times> sock) \<times> result) option) \<Rightarrow> 'k \<times> client \<Rightarrow> (('k \<times> client) \<times> result) option" where
  "on_socket_opt f s =
     (case s of (k, c) \<Rightarrow> map_option (\<lambda>((k, i), r). ((k, c\<lparr>mSocket := i\<rparr>), r)) (f (k, mSocket c)))"

section \<open>Start\<close>

definition client_init :: "'k kernel_api \<Rightarrow> string \<Rightarrow> 'k \<times> client \<Rightarrow> (('k \<times> client) \<times> result) option" where
  "client_init K interfaceName s =
     or_return_opt (on_interface_opt (interface_init K interfaceName) s) (\<lambda>s.
       Some (or_return (on_router (router_init K) s) (\<lambda>s.
             or_return (on_socket (sock_open K 17 2 (int (unat (htons ETH_P_IP)))) s) (\<lambda>s.
             on_socket (bindRaw K (mIndex (mInterface (snd s)))) s))))"

section \<open>Sending\<close>

text \<open>A failed send is only logged.\<close>

definition client_sendMessage :: "'k kernel_api \<Rightarrow> message \<Rightarrow> 'k \<times> client \<Rightarrow> ('k \<times> client) option" where
  "client_sendMessage K m s =
     map_option fst (on_socket_opt
       (sendRawUdp K 0 PORT_BOOTP_CLIENT 0xFFFFFFFF PORT_BOOTP_SERVER (mIndex (mInterface (snd s))) m) s)"

definition sendDhcpRequest :: "'k kernel_api \<Rightarrow> u32 \<Rightarrow> 'k \<times> client \<Rightarrow> ('k \<times> client) option" where
  "sendDhcpRequest K destination s =
     (case s of (k, c) \<Rightarrow>
        Option.bind (request (sNextTransactionId c) (mMacAddress (mInterface c)) (mRequestAddress c) destination)
          (\<lambda>(m, tid). client_sendMessage K m (k, c\<lparr>mLastMsg := m, sNextTransactionId := tid\<rparr>)))"

definition sendDhcpDiscover :: "'k kernel_api \<Rightarrow> 'k \<times> client \<Rightarrow> ('k \<times> client) option" where
  "sendDhcpDiscover K s =
     (case s of (k, c) \<Rightarrow>
        Option.bind (discover (sNextTransactionId c) (mMacAddress (mInterface c)))
          (\<lambda>(m, tid). client_sendMessage K m (k, c\<lparr>mLastMsg := m, sNextTransactionId := tid\<rparr>)))"


section \<open>The options of an acknowledgement\<close>

definition option32 :: "bytes \<Rightarrow> nat \<Rightarrow> u32 option" where
  "option32 options opt = map_option (\<lambda>bs. load32 bs 0) (mem_read options opt 4)"

definition option16 :: "bytes \<Rightarrow> nat \<Rightarrow> u16 option" where
  "option16 options opt = map_option (\<lambda>bs. load16 bs 0) (mem_read options opt 2)"

definition dns_entry :: "bytes \<Rightarrow> nat \<Rightarrow> u8 \<Rightarrow> nat \<Rightarrow> dhcp_info \<Rightarrow> dhcp_info option" where
  "dns_entry options opt optLength n info =
     (if of_nat (4 * (n + 1)) \<le> optLength
      then map_option (\<lambda>x. info\<lparr>di_dns := (di_dns info)[n := x]\<rparr>) (option32 options (opt + 4 * n))
      else Some info)"

text \<open>The switch of the loop: an option of a known code and a fitting length is stored.\<close>

definition read_option :: "bytes \<Rightarrow> nat \<Rightarrow> u8 \<Rightarrow> u8 \<Rightarrow> dhcp_info \<Rightarrow> dhcp_info option" where
  "read_option options opt optCode optLength info =
     (if optCode = OPT_LEASE_TIME then
        (if optLength = 4 then map_option (\<lambda>x. info\<lparr>di_leaseTime := ntohl x\<rparr>) (option32 options opt) else Some info)
      else if optCode = OPT_T1 then
        (if optLength = 4 then map_option (\<lambda>x. info\<lparr>di_t1 := ntohl x\<rparr>) (option32 options opt) else Some info)
      else if optCode = OPT_T2 then
        (if optLength = 4 then map_option (\<lambda>x. info\<lparr>di_t2 := ntohl x\<rparr>) (option32 options opt) else Some info)
      else if optCode = OPT_SUBNET_MASK then
        (if optLength = 4 then map_option (\<lambda>x. info\<lparr>di_subnetMask := x\<rparr>) (option32 options opt) else Some info)
      else if optCode = OPT_GATEWAY then
        (if 4 \<le> optLength then map_option (\<lambda>x. info\<lparr>di_gateway := x\<rparr>) (option32 options opt) else Some info)
      else if optCode = OPT_MTU then
        (if optLength = 2 then map_option (\<lambda>x. info\<lparr>di_mtu := ntohs x\<rparr>) (option16 options opt) else Some info)
      else if optCode = OPT_DNS then
        Option.bind (dns_entry options opt optLength 0 info) (\<lambda>info.
        Option.bind (dns_entry options opt optLength 1 info) (\<lambda>info.
        Option.bind (dns_entry options opt optLength 2 info) (dns_entry options opt optLength 3)))
      else if optCode = OPT_SERVER_ID then
        (if optLength = 4 then map_option (\<lambda>x. info\<lparr>di_serverId := x\<rparr>) (option32 options opt) else Some info)
      else Some info)"

text \<open>
  The loop from index \<open>i\<close>; \<open>msize\<close> is where the message ends. The flag is false when an option's
  length drops the message; what was stored before stays stored.
\<close>

function read_options :: "bytes \<Rightarrow> nat \<Rightarrow> nat \<Rightarrow> nat \<Rightarrow> dhcp_info \<Rightarrow> (dhcp_info \<times> bool) option" where
  "read_options options msize optsSize i info =
     (if i + 1 < optsSize then
        (if length options \<le> i + 1 then None
         else
           let optCode = options ! i; optLength = options ! (i + 1)
           in if optCode = OPT_END then Some (info, True)
              else if msize \<le> OPTIONS_OFFSET + unat optLength + i then Some (info, False)
              else case read_option options (i + 2) optCode optLength info of
                     None \<Rightarrow> None
                   | Some info \<Rightarrow> read_options options msize optsSize (i + 2 + unat optLength) info)
      else Some (info, True))"
  by pat_completeness auto
termination by (relation "measure (\<lambda>(options, msize, optsSize, i, info). optsSize - i)") auto

declare read_options.simps [simp del]

section \<open>Configuring the network\<close>

text \<open>\<open>inet_ntop\<close> on the four bytes of an address, and the property names, cut at 63 characters.\<close>

definition client_addrToStr :: "u32 \<Rightarrow> string" where
  "client_addrToStr address =
     (case map (\<lambda>b. decimal (unat b)) (enc32 address) of
        [a, b, c, d] \<Rightarrow> a @ ''.'' @ b @ ''.'' @ c @ ''.'' @ d | _ \<Rightarrow> [])"

definition gw_prop :: "string \<Rightarrow> string" where
  "gw_prop name = take 63 (''vendor.net.'' @ name @ ''.gw'')"

definition dns_prop :: "string \<Rightarrow> nat \<Rightarrow> string" where
  "dns_prop name n = take 63 (''vendor.net.'' @ name @ ''.dns'' @ decimal n)"

text \<open>Failures to set a property are only logged.\<close>

definition set_properties :: "'k kernel_api \<Rightarrow> 'k \<times> client \<Rightarrow> 'k \<times> client" where
  "set_properties K s =
     (case s of (k, c) \<Rightarrow>
        let name = mInterfaceName (mInterface c);
            k = fst (k_property_set K k (gw_prop name) (client_addrToStr (di_gateway (mDhcpInfo c))))
        in (fold (\<lambda>n k. let dns = di_dns (mDhcpInfo c) ! n
               in fst (k_property_set K k (dns_prop name (n + 1)) (if dns \<noteq> 0 then client_addrToStr dns else [])))
              [0..<4] k, c))"

definition t1_seconds :: "dhcp_info \<Rightarrow> u32" where
  "t1_seconds info = (if 0 < di_t1 info then di_t1 info else di_leaseTime info div 2)"

definition t2_seconds :: "dhcp_info \<Rightarrow> u32" where
  "t2_seconds info = (if 0 < di_t2 info then di_t2 info else (di_leaseTime info * 7) div 8)"

definition start_timers :: "'k kernel_api \<Rightarrow> 'k \<times> client \<Rightarrow> 'k \<times> client" where
  "start_timers K s =
     (case s of (k, c) \<Rightarrow>
        case expireSeconds K k (ucast (t1_seconds (mDhcpInfo c))) of (k, e1) \<Rightarrow>
        case expireSeconds K k (ucast (t2_seconds (mDhcpInfo c))) of (k, e2) \<Rightarrow>
          (k, c\<lparr>mT1 := e1, mT2 := e2\<rparr>))"

text \<open>\<open>or_return_opt\<close> turned into the Boolean result: a step that fails ends with false.\<close>

definition succeeded :: "(('s \<times> result) option) \<Rightarrow> ('s \<Rightarrow> ('s \<times> bool) option) \<Rightarrow> ('s \<times> bool) option" where
  "succeeded r f = Option.bind r (\<lambda>(s, res). if isSuccess res then f s else Some (s, False))"

definition apply_info :: "'k kernel_api \<Rightarrow> 'k \<times> client \<Rightarrow> (('k \<times> client) \<times> bool) option" where
  "apply_info K s =
     (let info = mDhcpInfo (snd s); s = start_timers K s
      in succeeded (Some (on_interface (bringUp K) s)) (\<lambda>s.
           let s = (if di_mtu info \<noteq> 0 then fst (on_interface (setMtu K (di_mtu info)) s) else s);
               s = set_properties K s
           in succeeded (on_interface_opt (setAddress K (di_offeredAddress info) (di_subnetMask info)) s) (\<lambda>s.
                if mOptions (snd s) AND NoGateway = 0 then
                  succeeded (on_router_opt (setDefaultGateway K (di_gateway info) (mIndex (mInterface (snd s)))) s)
                    (\<lambda>s. Some (s, True))
                else Some (s, True))))"

definition configureDhcp :: "'k kernel_api \<Rightarrow> message \<Rightarrow> 'k \<times> client \<Rightarrow> (('k \<times> client) \<times> bool) option" where
  "configureDhcp K m s =
     (case s of (k, c) \<Rightarrow>
        if optionsSize m < 4 then Some (s, False)
        else Option.bind (read_options (dh_options (dhcpData m)) (unat (mSize m)) (optionsSize m) 4 info_zero)
          (\<lambda>(info, ok).
             if \<not> ok then Some ((k, c\<lparr>mDhcpInfo := info\<rparr>), False)
             else let info = info\<lparr>di_offeredAddress := dh_yiaddr (dhcpData m)\<rparr>; c = c\<lparr>mDhcpInfo := info\<rparr>
                  in if di_leaseTime info = 0 then Some ((k, c), False) else apply_info K (k, c)))"

definition haltNetwork :: "'k kernel_api \<Rightarrow> 'k \<times> client \<Rightarrow> ('k \<times> client) option" where
  "haltNetwork K s =
     map_option (\<lambda>(s, _). fst (on_interface (bringDown K) s)) (on_interface_opt (setAddress K 0 0) s)"

section \<open>Waiting and receiving\<close>

definition receiveDhcpMessage :: "'k kernel_api \<Rightarrow> message \<Rightarrow> 'k \<times> client \<Rightarrow> ('k \<times> client) \<times> message \<times> bool" where
  "receiveDhcpMessage K m s =
     (case s of (k, c) \<Rightarrow>
        case receiveRawUdp K PORT_BOOTP_CLIENT m False (k, mSocket c) of
          (((k, fd), m, isValid), res) \<Rightarrow>
            let c = c\<lparr>mSocket := fd\<rparr>
            in ((k, c), m, isSuccess res \<and> isValid \<and> isValidDhcpMessage_xid m OP_BOOTREPLY (dh_xid (dhcpData (mLastMsg c)))))"

text \<open>The reaction to a valid message; the flag says that \<open>waitAndReceive\<close> returns.\<close>

definition handle_message :: "'k kernel_api \<Rightarrow> message \<Rightarrow> 'k \<times> client \<Rightarrow> (('k \<times> client) \<times> bool) option" where
  "handle_message K msg s =
     (case s of (k, c) \<Rightarrow>
        Option.bind (message_type msg) (\<lambda>msgType.
          if mState c = Selecting then
            (if msgType = DHCPOFFER then
               map_option (\<lambda>server. ((k, setNextState Requesting
                   (c\<lparr>mServerAddress := server, mRequestAddress := dh_yiaddr (dhcpData msg)\<rparr>)), True)) (serverId msg)
             else Some (s, False))
          else if mState c = Requesting \<or> mState c = Renewing \<or> mState c = Rebinding then
            (if msgType = DHCPACK then
               map_option (\<lambda>((k, c), ok). if ok then ((k, setNextState Bound c), True) else ((k, c), False)) (configureDhcp K msg s)
             else if msgType = DHCPNAK then
               map_option (\<lambda>(k, c). ((k, setNextState Init c), True)) (haltNetwork K s)
             else Some (s, False))
          else Some (s, False)))"

text \<open>
  One round of the endless loop of \<open>waitAndReceive\<close>: the timeout of the next round, or none when
  the function returns.
\<close>

definition wait_round :: "'k kernel_api \<Rightarrow> u32 \<Rightarrow> 'k \<times> client \<Rightarrow> (('k \<times> client) \<times> u32 option) option" where
  "wait_round K timeout s =
     (case s of (k, c) \<Rightarrow>
        case now K k of (k, startedAt) \<Rightarrow>
        let sec = ucast (timeout div 1000) :: u64; nsec = (ucast timeout - sec * 1000) * 1000000
        in case k_ppoll K k (mSocket c) (sec, nsec) of (k, res) \<Rightarrow>
             if res = 0 then Some ((k, c), None)
             else
               Option.bind
                 (if 0 < res then
                    (case receiveDhcpMessage K message_default (k, c) of (s, msg, valid) \<Rightarrow>
                       if valid then handle_message K msg s else Some (s, False))
                  else Some ((k, c), False))
                 (\<lambda>((k, c), returned).
                    if returned then Some ((k, c), None)
                    else case now K k of (k, currentTime) \<Rightarrow>
                      let end_time = startedAt + ucast timeout
                      in if end_time \<le> currentTime then Some ((k, c), None)
                         else Some ((k, c), Some (ucast (end_time - currentTime)))))"

text \<open>The loop may run forever: it is a partial function.\<close>

partial_function (option) wait_loop :: "'k kernel_api \<Rightarrow> u32 \<Rightarrow> 'k \<times> client \<Rightarrow> ('k \<times> client) option" where
  "wait_loop K timeout s =
     Option.bind (wait_round K timeout s) (\<lambda>(s, next).
       case next of None \<Rightarrow> Some s | Some timeout \<Rightarrow> wait_loop K timeout s)"

definition waitAndReceive :: "'k kernel_api \<Rightarrow> 'k \<times> client \<Rightarrow> ('k \<times> client) option" where
  "waitAndReceive K s =
     (if mNextTimeout (snd s) = kNoTimeout then Some s
      else case calculateTimeoutMillis K s of (s, timeout) \<Rightarrow> wait_loop K timeout s)"

section \<open>The state machine\<close>

text \<open>The switch of \<open>run\<close>.\<close>

definition run_state :: "'k kernel_api \<Rightarrow> 'k \<times> client \<Rightarrow> ('k \<times> client) option" where
  "run_state K s =
     (case s of (k, c) \<Rightarrow>
        case mState c of
          Init \<Rightarrow> Some (k, setNextState Selecting c)
        | Selecting \<Rightarrow> map_option (\<lambda>(k, c). (k, increaseTimeout c)) (sendDhcpDiscover K s)
        | Requesting \<Rightarrow>
            if kMaxTimeout \<le> mNextTimeout c then Some (k, setNextState Init c)
            else map_option (\<lambda>(k, c). (k, increaseTimeout c)) (sendDhcpRequest K (mServerAddress c) s)
        | Bound \<Rightarrow>
            (case expired K k (mT1 c) of (k, done_waiting) \<Rightarrow>
               if done_waiting then Some (k, setNextState Renewing c)
               else case remainingMillis K k (mT1 c) of (k, remaining) \<Rightarrow>
                 Some (k, c\<lparr>mNextTimeout := ucast remaining, mFuzzNextTimeout := False\<rparr>))
        | Renewing \<Rightarrow>
            (case expired K k (mT2 c) of (k, done_waiting) \<Rightarrow>
               if done_waiting then Some (k, setNextState Rebinding c)
               else map_option (\<lambda>(k, c). (k, increaseTimeout c)) (sendDhcpRequest K (mServerAddress c) (k, c)))
        | Rebinding \<Rightarrow>
            if kMaxTimeout \<le> mNextTimeout c then Some (k, setNextState Init c)
            else map_option (\<lambda>(k, c). (k, increaseTimeout c)) (sendDhcpRequest K 0xFFFFFFFF s))"

text \<open>One turn of the loop of \<open>run\<close>, and \<open>n\<close> of them.\<close>

definition client_turn :: "'k kernel_api \<Rightarrow> 'k \<times> client \<Rightarrow> ('k \<times> client) option" where
  "client_turn K s = Option.bind (run_state K s) (waitAndReceive K)"

primrec client_turns :: "nat \<Rightarrow> 'k kernel_api \<Rightarrow> 'k \<times> client \<Rightarrow> ('k \<times> client) option" where
  "client_turns 0 K s = Some s"
| "client_turns (Suc n) K s = Option.bind (client_turn K s) (client_turns n K)"

text \<open>
  \<open>run\<close>: the results of \<open>sigfillset\<close> and \<open>sigprocmask\<close> are given; then the loop, which has no exit. It
  is a partial function; what \<open>run\<close> would return behind the loop is kept.
\<close>

partial_function (option) run_loop :: "'k kernel_api \<Rightarrow> 'k \<times> client \<Rightarrow> ('k \<times> client) option" where
  "run_loop K s = Option.bind (client_turn K s) (run_loop K)"

definition client_run :: "int \<times> int \<Rightarrow> 'k kernel_api \<Rightarrow> 'k \<times> client \<Rightarrow> (('k \<times> client) \<times> result) option" where
  "client_run signals K s =
     (if fst signals \<noteq> 0 then Some (s, Error ''Unable to fill signal set'')
      else if snd signals \<noteq> 0 then Some (s, Error ''Unable to set signal mask'')
      else map_option (\<lambda>s. (s, Error ''Client terminated unexpectedly'')) (run_loop K s))"

lemma run_loop_endless: "run_loop K s = None"
proof -
  have "False" if "run_loop K s = Some s'" for s'
    by (rule run_loop.raw_induct [where P = "\<lambda>K s s'. False", OF _ that]) (auto simp: bind_eq_Some_conv)
  then show ?thesis by (cases "run_loop K s") auto
qed

end
