(* ===== verification/Dhcp_Machine.thy ===== *)
theory Dhcp_Machine
  imports Dhcp_Client
begin

text \<open>
  The client's state machine against its specification: the moves a client may make and the
  messages that may cause them (\<open>client_moves\<close>), the values its retry timeout takes, and what a
  silent server leads to. The endless loop of \<open>waitAndReceive\<close> is treated by the induction
  rule of its partial function.
\<close>

section \<open>Specification\<close>

datatype event = Start | GiveUp | T1_Expired | T2_Expired | Offer message | Ack message | Nak message

text \<open>A message of the given type that answers the client's last one.\<close>

definition accepted :: "client \<Rightarrow> u8 \<Rightarrow> message \<Rightarrow> bool" where
  "accepted c type m \<longleftrightarrow>
     isValidDhcpMessage_xid m OP_BOOTREPLY (dh_xid (dhcpData (mLastMsg c))) \<and> message_type m = Some type"

definition awaits_ack :: "client_state \<Rightarrow> bool" where
  "awaits_ack state \<longleftrightarrow> state = Requesting \<or> state = Renewing \<or> state = Rebinding"

inductive client_moves :: "'k kernel_api \<Rightarrow> 'k \<Rightarrow> client \<Rightarrow> event \<Rightarrow> client \<Rightarrow> bool" for K k c where
  start: "mState c = Init \<Longrightarrow> mState c' = Selecting \<Longrightarrow> client_moves K k c Start c'"
| give_up: "mState c = Requesting \<or> mState c = Rebinding \<Longrightarrow> kMaxTimeout \<le> mNextTimeout c \<Longrightarrow> mState c' = Init \<Longrightarrow>
    client_moves K k c GiveUp c'"
| t1: "mState c = Bound \<Longrightarrow> snd (expired K k (mT1 c)) \<Longrightarrow> mState c' = Renewing \<Longrightarrow> client_moves K k c T1_Expired c'"
| t2: "mState c = Renewing \<Longrightarrow> snd (expired K k (mT2 c)) \<Longrightarrow> mState c' = Rebinding \<Longrightarrow> client_moves K k c T2_Expired c'"
| offer: "mState c = Selecting \<Longrightarrow> accepted c DHCPOFFER m \<Longrightarrow> mState c' = Requesting \<Longrightarrow>
    serverId m = Some (mServerAddress c') \<Longrightarrow> mRequestAddress c' = dh_yiaddr (dhcpData m) \<Longrightarrow> client_moves K k c (Offer m) c'"
| ack: "awaits_ack (mState c) \<Longrightarrow> accepted c DHCPACK m \<Longrightarrow> mState c' = Bound \<Longrightarrow>
    di_offeredAddress (mDhcpInfo c') = dh_yiaddr (dhcpData m) \<Longrightarrow> di_leaseTime (mDhcpInfo c') \<noteq> 0 \<Longrightarrow> client_moves K k c (Ack m) c'"
| nak: "awaits_ack (mState c) \<Longrightarrow> accepted c DHCPNAK m \<Longrightarrow> mState c' = Init \<Longrightarrow> client_moves K k c (Nak m) c'"

text \<open>A move takes the machine to a state that is evaluated at once.\<close>

definition stays_or_moves :: "'k kernel_api \<Rightarrow> 'k \<Rightarrow> client \<Rightarrow> client \<Rightarrow> bool" where
  "stays_or_moves K k c c' \<longleftrightarrow>
     mState c' = mState c \<or> (\<exists>e. client_moves K k c e c' \<and> mNextTimeout c' = kNoTimeout \<and> mFuzzNextTimeout c')"

section \<open>What the parts leave alone\<close>

text \<open>The fields of the client that the sending and configuring operations keep.\<close>

definition same_machine :: "client \<Rightarrow> client \<Rightarrow> bool" where
  "same_machine c c' \<longleftrightarrow> mState c' = mState c \<and> mNextTimeout c' = mNextTimeout c \<and> mFuzzNextTimeout c' = mFuzzNextTimeout c \<and>
     mLastMsg c' = mLastMsg c \<and> mOptions c' = mOptions c \<and> sNextTransactionId c' = sNextTransactionId c \<and>
     mServerAddress c' = mServerAddress c \<and> mRequestAddress c' = mRequestAddress c"

lemma same_machine_refl [intro, simp]: "same_machine c c"
  by (simp add: same_machine_def)

lemma same_machine_trans [trans]: "same_machine a b \<Longrightarrow> same_machine b c \<Longrightarrow> same_machine a c"
  by (simp add: same_machine_def)

lemma same_machine_update [simp]:
  "same_machine c (c'\<lparr>mInterface := i\<rparr>) = same_machine c c'" "same_machine c (c'\<lparr>mRouter := r\<rparr>) = same_machine c c'"
  "same_machine c (c'\<lparr>mSocket := fd\<rparr>) = same_machine c c'" "same_machine c (c'\<lparr>mDhcpInfo := n\<rparr>) = same_machine c c'"
  "same_machine c (c'\<lparr>mT1 := t1\<rparr>) = same_machine c c'" "same_machine c (c'\<lparr>mT2 := t2\<rparr>) = same_machine c c'"
  by (simp_all add: same_machine_def)

definition untouched :: "client \<Rightarrow> 'k \<times> client \<Rightarrow> bool" where
  "untouched c s \<longleftrightarrow> same_machine c (snd s) \<and> mDhcpInfo (snd s) = mDhcpInfo c"

lemma untouched_self [simp]: "untouched c (k, c)"
  by (simp add: untouched_def)

lemma untouched_on [intro]:
  "untouched c s \<Longrightarrow> untouched c (fst (on_interface f s))"
  "untouched c s \<Longrightarrow> on_interface_opt g s = Some (s', r) \<Longrightarrow> untouched c s'"
  "untouched c s \<Longrightarrow> on_router_opt h s = Some (s', r) \<Longrightarrow> untouched c s'"
  "untouched c s \<Longrightarrow> on_socket_opt h' s = Some (s', r) \<Longrightarrow> untouched c s'"
  "untouched c s \<Longrightarrow> untouched c (set_properties K s)"
  "untouched c s \<Longrightarrow> untouched c (start_timers K s)"
  by (auto simp: untouched_def on_interface_def on_interface_opt_def on_router_opt_def on_socket_opt_def set_properties_def
      start_timers_def Let_def split: prod.splits)

lemma succeeded_untouched:
  assumes "succeeded r f = Some (s', ok)" and "\<And>s res. r = Some (s, res) \<Longrightarrow> untouched c s"
    and "\<And>s b. untouched c s \<Longrightarrow> f s = Some (s', b) \<Longrightarrow> untouched c s'"
  shows "untouched c s'"
  using assms by (auto simp: succeeded_def bind_eq_Some_conv split: if_splits)

lemma apply_info_untouched:
  assumes "apply_info K s = Some (s', ok)" and s: "untouched c s"
  shows "untouched c s'"
  using assms(1) unfolding apply_info_def Let_def
proof (rule succeeded_untouched)
  show "untouched c s1" if "Some (on_interface (bringUp K) (start_timers K s)) = Some (s1, res)" for s1 res
    using that untouched_on(1) [OF untouched_on(6) [OF s], of "bringUp K" K] by simp
next
  fix s1 b
  let ?s = "set_properties K (if di_mtu (mDhcpInfo (snd s)) \<noteq> 0 then fst (on_interface (setMtu K (di_mtu (mDhcpInfo (snd s)))) s1) else s1)"
  assume s1: "untouched c s1"
    and r: "succeeded (on_interface_opt (setAddress K (di_offeredAddress (mDhcpInfo (snd s))) (di_subnetMask (mDhcpInfo (snd s)))) ?s)
      (\<lambda>s1. if mOptions (snd s1) AND NoGateway = 0
            then succeeded (on_router_opt (setDefaultGateway K (di_gateway (mDhcpInfo (snd s))) (mIndex (mInterface (snd s1)))) s1)
                   (\<lambda>s. Some (s, True))
            else Some (s1, True)) = Some (s', b)"
  have u: "untouched c ?s" using s1 by (auto intro: untouched_on(1,5))
  show "untouched c s'"
    using r
  proof (rule succeeded_untouched)
    show "untouched c s2" if "on_interface_opt (setAddress K (di_offeredAddress (mDhcpInfo (snd s))) (di_subnetMask (mDhcpInfo (snd s)))) ?s =
        Some (s2, res)" for s2 res
      using u that by (rule untouched_on(2))
    show "untouched c s'" if "untouched c s2" and "(if mOptions (snd s2) AND NoGateway = 0
        then succeeded (on_router_opt (setDefaultGateway K (di_gateway (mDhcpInfo (snd s))) (mIndex (mInterface (snd s2)))) s2)
               (\<lambda>s. Some (s, True))
        else Some (s2, True)) = Some (s', b')" for s2 b'
      using that by (auto simp: succeeded_def bind_eq_Some_conv split: if_splits intro: untouched_on(3))
  qed
qed

lemma configureDhcp_keeps:
  assumes "configureDhcp K m (k, c) = Some ((k', c'), ok)"
  shows "same_machine c c'"
    and "ok \<Longrightarrow> di_offeredAddress (mDhcpInfo c') = dh_yiaddr (dhcpData m) \<and> di_leaseTime (mDhcpInfo c') \<noteq> 0"
proof -
  have a: "same_machine c x \<and> mDhcpInfo x = n" if "apply_info K (k, c\<lparr>mDhcpInfo := n\<rparr>) = Some ((k', x), b)" for n x b
    using apply_info_untouched [OF that untouched_self] by (simp add: untouched_def same_machine_def)
  show "same_machine c c'"
    using assms by (auto simp: configureDhcp_def Let_def bind_eq_Some_conv split: if_splits dest: a)
  show "di_offeredAddress (mDhcpInfo c') = dh_yiaddr (dhcpData m) \<and> di_leaseTime (mDhcpInfo c') \<noteq> 0" if ok
    using assms that by (auto simp: configureDhcp_def Let_def bind_eq_Some_conv split: if_splits dest: a)
qed

lemma haltNetwork_keeps: "haltNetwork K (k, c) = Some (k', c') \<Longrightarrow> same_machine c c'"
proof -
  assume "haltNetwork K (k, c) = Some (k', c')"
  then obtain s r where s: "on_interface_opt (setAddress K 0 0) (k, c) = Some (s, r)"
    and e: "(k', c') = fst (on_interface (bringDown K) s)"
    by (auto simp: haltNetwork_def)
  have "untouched c (k', c')"
    unfolding e using untouched_on(2) [OF untouched_self s] by (rule untouched_on(1))
  then show "same_machine c c'" by (simp add: untouched_def)
qed

lemma receive_keeps:
  "receiveDhcpMessage K m0 (k, c) = ((k', c'), m, valid) \<Longrightarrow> untouched c (k', c') \<and>
     (valid \<longrightarrow> isValidDhcpMessage_xid m OP_BOOTREPLY (dh_xid (dhcpData (mLastMsg c))))"
  by (auto simp: receiveDhcpMessage_def Let_def untouched_def split: prod.splits)


section \<open>Receiving\<close>

lemma setNextState_fields [simp]:
  "mState (setNextState st c) = st" "mNextTimeout (setNextState st c) = kNoTimeout" "mFuzzNextTimeout (setNextState st c)"
  "mDhcpInfo (setNextState st c) = mDhcpInfo c" "mServerAddress (setNextState st c) = mServerAddress c"
  "mRequestAddress (setNextState st c) = mRequestAddress c" "sNextTransactionId (setNextState st c) = sNextTransactionId c"
  "mLastMsg (setNextState st c) = mLastMsg c"
  by (simp_all add: setNextState_def)

text \<open>What a round of waiting may do to the client; a bound client keeps its lease.\<close>

definition idle :: "client \<Rightarrow> client \<Rightarrow> bool" where
  "idle c c' \<longleftrightarrow> same_machine c c' \<and> (mState c = Bound \<longrightarrow> mDhcpInfo c' = mDhcpInfo c)"

lemma idle_self [simp]: "idle c c"
  by (simp add: idle_def)

lemma idle_untouched: "idle c c0 \<Longrightarrow> untouched c0 (k, c') \<Longrightarrow> idle c c'"
  using same_machine_trans by (auto simp: idle_def untouched_def)

definition waited :: "'k kernel_api \<Rightarrow> client \<Rightarrow> client \<Rightarrow> bool \<Rightarrow> bool" where
  "waited K c c' moved \<longleftrightarrow>
     (if moved then \<exists>e. (\<forall>k. client_moves K k c e c') \<and> mNextTimeout c' = kNoTimeout \<and> mFuzzNextTimeout c' \<and>
        mLastMsg c' = mLastMsg c \<and> sNextTransactionId c' = sNextTransactionId c
      else idle c c')"

lemma waited_move:
  assumes "\<And>k. client_moves K k c e c'" and "same_machine c0 c1" and "c' = setNextState st c1"
    and "mLastMsg c0 = mLastMsg c" and "sNextTransactionId c0 = sNextTransactionId c"
  shows "waited K c c' True"
proof -
  have "mLastMsg c' = mLastMsg c" "sNextTransactionId c' = sNextTransactionId c" using assms(2-5) by (simp_all add: same_machine_def)
  then show ?thesis using assms(1,3) unfolding waited_def by auto
qed

lemma handle_message_moves:
  assumes h: "handle_message K m (k, c0) = Some ((k', c'), returned)" and c: "idle c c0"
    and valid: "isValidDhcpMessage_xid m OP_BOOTREPLY (dh_xid (dhcpData (mLastMsg c)))"
  shows "waited K c c' returned"
proof -
  obtain t where t: "message_type m = Some t" using h by (auto simp: handle_message_def bind_eq_Some_conv)
  have st: "mState c0 = mState c" "mLastMsg c0 = mLastMsg c" "sNextTransactionId c0 = sNextTransactionId c"
    using c by (simp_all add: idle_def same_machine_def)
  consider (sel) "mState c = Selecting" | (await) "awaits_ack (mState c)" | (other) "mState c = Init \<or> mState c = Bound"
    by (cases "mState c") (simp_all add: awaits_ack_def)
  then show ?thesis
  proof cases
    case sel
    show ?thesis
    proof (cases "t = DHCPOFFER")
      case True
      then obtain server where sv: "serverId m = Some server"
        and c': "c' = setNextState Requesting (c0\<lparr>mServerAddress := server, mRequestAddress := dh_yiaddr (dhcpData m)\<rparr>)" "returned"
        using h t sel st by (auto simp: handle_message_def)
      have "accepted c DHCPOFFER m" using valid t True by (simp add: accepted_def)
      then have "client_moves K k c (Offer m) c'" for k using sel sv c' by (intro client_moves.offer) simp_all
      then show ?thesis using c' st by (auto simp: waited_def)
    next
      case False
      then show ?thesis using h t sel st c by (simp add: handle_message_def waited_def)
    qed
  next
    case await
    then have a0: "mState c0 \<noteq> Selecting" "mState c0 = Requesting \<or> mState c0 = Renewing \<or> mState c0 = Rebinding"
      by (auto simp: awaits_ack_def st)
    show ?thesis
    proof (cases "t = DHCPACK")
      case True
      then have e: "map_option (\<lambda>((k, c), ok). if ok then ((k, setNextState Bound c), True) else ((k, c), False))
          (configureDhcp K m (k, c0)) = Some ((k', c'), returned)"
        using h t a0 by (auto simp: handle_message_def)
      obtain k1 c1 ok where "configureDhcp K m (k, c0) = Some ((k1, c1), ok)"
        using e by (cases "configureDhcp K m (k, c0)") auto
      moreover from this have "k1 = k'" and c': "c' = (if ok then setNextState Bound c1 else c1)" "returned = ok"
        using e by (auto split: if_splits)
      ultimately have cfg: "configureDhcp K m (k, c0) = Some ((k', c1), ok)" by simp
      have acc: "accepted c DHCPACK m" using valid t True by (simp add: accepted_def)
      have mv: "client_moves K k c (Ack m) c'" if ok for k
        using await acc configureDhcp_keeps(2) [OF cfg] that c' by (intro client_moves.ack) simp_all
      have "waited K c c' True" if ok
        by (rule waited_move [where st = Bound, OF mv [OF that] configureDhcp_keeps(1) [OF cfg] _ st(2,3)]) (use that c' in simp)
      moreover have "idle c c1"
        using configureDhcp_keeps(1) [OF cfg] c await same_machine_trans by (auto simp: idle_def awaits_ack_def)
      ultimately show ?thesis using c' by (cases ok) (simp_all add: waited_def)
    next
      case no_ack: False
      show ?thesis
      proof (cases "t = DHCPNAK")
        case True
        then have c': "\<exists>c1. haltNetwork K (k, c0) = Some (k', c1) \<and> c' = setNextState Init c1" "returned"
          using h t a0 no_ack by (auto simp: handle_message_def)
        have "accepted c DHCPNAK m" using valid t True by (simp add: accepted_def)
        then have mv: "client_moves K k c (Nak m) c'" for k using await c'(1) by (intro client_moves.nak) auto
        obtain c1 where c1: "same_machine c0 c1" "c' = setNextState Init c1" using c'(1) haltNetwork_keeps [of K k c0 k'] by blast
        show ?thesis using waited_move [OF mv c1 st(2,3)] c'(2) by simp
      next
        case False
        then show ?thesis using h t a0 no_ack c by (auto simp: handle_message_def waited_def)
      qed
    qed
  next
    case other
    then show ?thesis using h t st c by (auto simp: handle_message_def waited_def)
  qed
qed

lemma wait_round_moves:
  assumes r: "wait_round K timeout (k, c0) = Some ((k', c'), next_timeout)" and c: "idle c c0"
  shows "waited K c c' False \<or> (next_timeout = None \<and> waited K c c' True)"
proof -
  obtain k1 t1 where n1: "now K k = (k1, t1)" by (cases "now K k")
  let ?ts = "(ucast (timeout div 1000) :: u64, (ucast timeout - ucast (timeout div 1000) * 1000) * 1000000 :: u64)"
  obtain k2 res where p: "k_ppoll K k1 (mSocket c0) ?ts = (k2, res)" by (cases "k_ppoll K k1 (mSocket c0) ?ts")
  show ?thesis
  proof (cases "res = 0")
    case True
    then show ?thesis using r n1 p c by (simp add: wait_round_def Let_def waited_def)
  next
    case False
    let ?react = "if 0 < res then (case receiveDhcpMessage K message_default (k2, c0) of (s, msg, valid) \<Rightarrow>
        if valid then handle_message K msg s else Some (s, False)) else Some ((k2, c0), False)"
    from r n1 p False obtain k3 c3 returned where react: "?react = Some ((k3, c3), returned)"
      and rest: "c' = c3" "returned \<longrightarrow> next_timeout = None"
      by (auto simp: wait_round_def Let_def bind_eq_Some_conv split: if_splits prod.splits)
    have "waited K c c3 returned"
    proof (cases "0 < res")
      case True
      obtain k4 c4 m valid where rcv: "receiveDhcpMessage K message_default (k2, c0) = ((k4, c4), m, valid)"
        by (metis prod.exhaust)
      have s4: "idle c c4" and v: "valid \<Longrightarrow> isValidDhcpMessage_xid m OP_BOOTREPLY (dh_xid (dhcpData (mLastMsg c)))"
      proof -
        have u: "untouched c0 (k4, c4)" using receive_keeps [OF rcv] by blast
        show "idle c c4" by (rule idle_untouched [OF c u])
        have "mLastMsg c0 = mLastMsg c" using c by (simp add: idle_def same_machine_def)
        then show "isValidDhcpMessage_xid m OP_BOOTREPLY (dh_xid (dhcpData (mLastMsg c)))" if valid
          using receive_keeps [OF rcv] that by simp
      qed
      show ?thesis
        using react rcv True handle_message_moves [OF _ s4 v, of K k4 k3 c3 returned] s4
        by (cases valid) (auto simp: waited_def)
    next
      case False
      then show ?thesis using react c by (simp add: waited_def)
    qed
    then show ?thesis using rest by (cases returned) auto
  qed
qed

lemma wait_loop_moves:
  assumes "wait_loop K timeout s = Some s'"
  shows "idle c (snd s) \<longrightarrow> (\<exists>moved. waited K c (snd s') moved)"
proof (rule wait_loop.raw_induct [where P = "\<lambda>K timeout s s'. \<forall>c. idle c (snd s) \<longrightarrow> (\<exists>moved. waited K c (snd s') moved)",
      OF _ assms, THEN spec])
  fix f :: "'a kernel_api \<Rightarrow> u32 \<Rightarrow> 'a \<times> client \<Rightarrow> ('a \<times> client) option" and K timeout s s'
  assume IH: "\<And>K timeout s s'. f K timeout s = Some s' \<Longrightarrow> \<forall>c. idle c (snd s) \<longrightarrow> (\<exists>moved. waited K c (snd s') moved)"
    and eq: "Option.bind (wait_round K timeout s) (\<lambda>(s, next). case next of None \<Rightarrow> Some s | Some timeout \<Rightarrow> f K timeout s) = Some s'"
  obtain s1 nxt where r: "wait_round K timeout s = Some (s1, nxt)" using eq by (auto simp: bind_eq_Some_conv)
  show "\<forall>c. idle c (snd s) \<longrightarrow> (\<exists>moved. waited K c (snd s') moved)"
  proof (intro allI impI)
    fix c assume c: "idle c (snd s)"
    have w: "waited K c (snd s1) False \<or> (nxt = None \<and> waited K c (snd s1) True)"
      using wait_round_moves [of K timeout "fst s" "snd s" "fst s1" "snd s1" nxt c] r c by simp
    show "\<exists>moved. waited K c (snd s') moved"
    proof (cases nxt)
      case None
      then show ?thesis using eq r w by auto
    next
      case (Some t)
      then show ?thesis using eq r w IH [of K t s1 s'] by (auto simp: waited_def)
    qed
  qed
qed


section \<open>Sending\<close>

lemma built_message_bytes:
  assumes "length bs \<le> 700"
  shows "message_bytes (built d bs) \<noteq> None"
proof -
  have "unat (mSize (built d bs)) = OPTIONS_OFFSET + length bs" using assms by simp
  moreover have "OPTIONS_SIZE \<le> length (dhcp_bytes (dhcpData (built d bs)))" using assms by (simp add: dhcp_bytes_def)
  ultimately show ?thesis using assms by (simp add: message_bytes_def mem_read_def)
qed

lemma client_sendMessage_total:
  assumes "message_bytes m \<noteq> None"
  shows "\<exists>k'. client_sendMessage K m (k, c) = Some (k', c)"
proof -
  obtain dat where d: "message_bytes m = Some dat" using assms by blast
  have "\<exists>k' r. sendRawUdp K 0 PORT_BOOTP_CLIENT 0xFFFFFFFF PORT_BOOTP_SERVER (mIndex (mInterface c)) m (k, mSocket c) =
      Some ((k', mSocket c), r)"
    by (simp add: sendRawUdp_def d Let_def split: prod.split)
  then show ?thesis by (auto simp: client_sendMessage_def on_socket_opt_def)
qed

lemma exI2_same: "(\<And>s. \<exists>k'. f s = Some (k', s)) \<Longrightarrow> \<exists>k' m. f (g a) = Some (k', g m)"
  by blast

lemma send_total:
  "\<exists>k' m. sendDhcpRequest K d (k, c) = Some (k', c\<lparr>mLastMsg := m, sNextTransactionId := sNextTransactionId c + 1\<rparr>)"
  "\<exists>k' m. sendDhcpDiscover K (k, c) = Some (k', c\<lparr>mLastMsg := m, sNextTransactionId := sNextTransactionId c + 1\<rparr>)"
proof -
  have l: "length (options_area (request_options a s)) \<le> 700" "length (options_area discover_options) \<le> 700" for a s
    by (simp_all add: options_area_def request_options_def discover_options_def)
  note t = client_sendMessage_total [OF built_message_bytes [OF l(1)]] client_sendMessage_total [OF built_message_bytes [OF l(2)]]
  show "\<exists>k' m. sendDhcpRequest K d (k, c) = Some (k', c\<lparr>mLastMsg := m, sNextTransactionId := sNextTransactionId c + 1\<rparr>)"
    unfolding sendDhcpRequest_def request_built prod.case bind.bind_lunit using t(1) [of K] by (intro exI2_same)
  show "\<exists>k' m. sendDhcpDiscover K (k, c) = Some (k', c\<lparr>mLastMsg := m, sNextTransactionId := sNextTransactionId c + 1\<rparr>)"
    unfolding sendDhcpDiscover_def discover_built prod.case bind.bind_lunit using t(2) [of K] by (intro exI2_same)
qed

lemma increaseTimeout_fields [simp]:
  "mState (increaseTimeout c) = mState c" "sNextTransactionId (increaseTimeout c) = sNextTransactionId c"
  by (simp_all add: increaseTimeout_def Let_def)

section \<open>One turn\<close>

lemma timer_moves:
  "mState c = Init \<Longrightarrow> mState c' = Selecting \<Longrightarrow> \<exists>e. client_moves K k c e c'"
  "mState c = Requesting \<or> mState c = Rebinding \<Longrightarrow> kMaxTimeout \<le> mNextTimeout c \<Longrightarrow> mState c' = Init \<Longrightarrow>
    \<exists>e. client_moves K k c e c'"
  "mState c = Bound \<Longrightarrow> snd (expired K k (mT1 c)) \<Longrightarrow> mState c' = Renewing \<Longrightarrow> \<exists>e. client_moves K k c e c'"
  "mState c = Renewing \<Longrightarrow> snd (expired K k (mT2 c)) \<Longrightarrow> mState c' = Rebinding \<Longrightarrow> \<exists>e. client_moves K k c e c'"
  by (blast intro: client_moves.intros)+

lemma run_state_moves: "\<exists>k1 c1. run_state K (k, c) = Some (k1, c1) \<and> stays_or_moves K k c c1"
proof (cases "mState c")
  case Init
  then show ?thesis by (auto simp: run_state_def stays_or_moves_def intro!: timer_moves(1))
next
  case Selecting
  obtain k' m where "sendDhcpDiscover K (k, c) = Some (k', c\<lparr>mLastMsg := m, sNextTransactionId := sNextTransactionId c + 1\<rparr>)"
    using send_total(2) [of K k c] by blast
  then show ?thesis using Selecting by (auto simp: run_state_def stays_or_moves_def)
next
  case Requesting
  obtain k' m where "sendDhcpRequest K (mServerAddress c) (k, c) = Some (k', c\<lparr>mLastMsg := m, sNextTransactionId := sNextTransactionId c + 1\<rparr>)"
    using send_total(1) [of K "(mServerAddress c)" k c] by blast
  then show ?thesis using Requesting by (auto simp: run_state_def stays_or_moves_def intro!: timer_moves(2))
next
  case Bound
  then show ?thesis by (auto simp: run_state_def stays_or_moves_def split: prod.splits intro!: timer_moves(3))
next
  case Renewing
  obtain k1 e where e: "expired K k (mT2 c) = (k1, e)" by (cases "expired K k (mT2 c)")
  obtain k' m where "sendDhcpRequest K (mServerAddress c) (k1, c) = Some (k', c\<lparr>mLastMsg := m, sNextTransactionId := sNextTransactionId c + 1\<rparr>)"
    using send_total(1) [of K "(mServerAddress c)" k1 c] by blast
  then show ?thesis using Renewing e by (cases e) (auto simp: run_state_def stays_or_moves_def intro!: timer_moves(4))
next
  case Rebinding
  obtain k' m where "sendDhcpRequest K 0xFFFFFFFF (k, c) = Some (k', c\<lparr>mLastMsg := m, sNextTransactionId := sNextTransactionId c + 1\<rparr>)"
    using send_total(1) [of K "0xFFFFFFFF" k c] by blast
  then show ?thesis using Rebinding by (auto simp: run_state_def stays_or_moves_def intro!: timer_moves(2))
qed

lemma waitAndReceive_moves:
  assumes "waitAndReceive K (k, c) = Some (k', c')"
  shows "\<exists>moved. waited K c c' moved"
proof (cases "mNextTimeout c = kNoTimeout")
  case True
  then show ?thesis using assms by (auto simp: waitAndReceive_def waited_def intro!: exI [of _ False])
next
  case False
  obtain s1 t where t: "calculateTimeoutMillis K (k, c) = (s1, t)" by (cases "calculateTimeoutMillis K (k, c)")
  then have "snd s1 = c" by (auto simp: calculateTimeoutMillis_def split: if_splits prod.splits)
  then show ?thesis using wait_loop_moves [of K t s1 "(k', c')" c] assms False t by (simp add: waitAndReceive_def)
qed

text \<open>
  C7. Every turn of the client's loop follows the state machine: the evaluation of the state always
  succeeds and either stays or makes one of the moves the specification allows (start; giving up at
  the largest timeout; T1 or T2 only when that timer has expired), and the wait after it, if it
  returns, either stays or makes a move caused by a valid reply of the transaction last sent: an offer,
  whose server and address are stored, moves selecting to requesting; an acknowledgement with a lease
  moves to bound; a refusal moves back to the start. A move is always evaluated at once.
\<close>

theorem turn_follows_machine:
  "\<exists>k1 c1. run_state K (k, c) = Some (k1, c1) \<and> stays_or_moves K k c c1 \<and>
     (case client_turn K (k, c) of None \<Rightarrow> True | Some (k2, c2) \<Rightarrow> \<forall>k'. stays_or_moves K k' c1 c2)"
proof -
  obtain k1 c1 where r: "run_state K (k, c) = Some (k1, c1)" "stays_or_moves K k c c1" using run_state_moves [of K k c] by blast
  have "stays_or_moves K k' c1 c2" if "waitAndReceive K (k1, c1) = Some (k2, c2)" for k2 c2 k'
    using waitAndReceive_moves [OF that] by (auto simp: waited_def idle_def stays_or_moves_def same_machine_def split: if_splits)
  then show ?thesis
    using r by (auto simp: client_turn_def split: option.split)
qed


section \<open>Retries\<close>

text \<open>The timeout after \<open>n\<close> unanswered messages.\<close>

primrec retry_timeout :: "nat \<Rightarrow> nat" where
  "retry_timeout 0 = 0"
| "retry_timeout (Suc n) = min 64000 (4000 * 2 ^ n)"

lemma retry_timeout_Suc: "retry_timeout (Suc (Suc n)) = min 64000 (2 * retry_timeout (Suc n))"
  by (simp add: min_def)

lemma retry_timeout_bounds: "retry_timeout n \<le> 64000" "0 < n \<Longrightarrow> 4000 \<le> retry_timeout n"
proof -
  show "retry_timeout n \<le> 64000" by (cases n) simp_all
  have "4000 * 1 \<le> 4000 * (2 :: nat) ^ m" for m by (intro mult_le_mono2) simp
  then show "4000 \<le> retry_timeout n" if "0 < n" using that by (cases n) simp_all
qed

lemma retry_timeout_early: "n \<le> 4 \<Longrightarrow> retry_timeout n < 64000"
proof (cases n)
  case (Suc m)
  assume "n \<le> 4"
  then have "2 ^ m \<le> (2 :: nat) ^ 3" using Suc by (intro power_increasing) simp_all
  then show ?thesis using Suc by simp
qed simp

lemma retry_values: "retry_timeout n \<in> {0, 4000, 8000, 16000, 32000, 64000}"
proof (cases "n \<le> 5")
  case True
  then consider "n = 0" | "n = Suc 0" | "n = Suc (Suc 0)" | "n = Suc (Suc (Suc 0))" | "n = Suc (Suc (Suc (Suc 0)))" | "n = Suc (Suc (Suc (Suc (Suc 0))))"
    by linarith
  then show ?thesis by cases simp_all
next
  case False
  then obtain m where m: "n = Suc m" "4 \<le> m" by (cases n) auto
  then have "(2 :: nat) ^ 4 \<le> 2 ^ m" by (intro power_increasing) simp_all
  then show ?thesis using m by (simp add: min_def)
qed

lemma increase_retry:
  assumes "unat (mNextTimeout c) = retry_timeout n"
  shows "unat (mNextTimeout (increaseTimeout c)) = retry_timeout (Suc n)"
proof (cases n)
  case 0
  then have "mNextTimeout c = 0" using assms by (simp add: unsigned_eq_0_iff)
  then show ?thesis using 0 by (simp add: increaseTimeout_def kNoTimeout_def kInitialTimeout_def)
next
  case (Suc k)
  let ?x = "mNextTimeout c"
  have b: "4000 \<le> unat ?x" "unat ?x \<le> 64000" using retry_timeout_bounds [of n] Suc assms by simp_all
  then have nz: "?x \<noteq> kNoTimeout" by (auto simp: kNoTimeout_def)
  have dbl: "unat (?x * 2) = 2 * unat ?x" using b unat_mult_lem [of ?x 2] by simp
  have r: "retry_timeout (Suc n) = min 64000 (2 * unat ?x)" using retry_timeout_Suc [of k] assms Suc by simp
  show ?thesis
  proof (cases "?x < kMaxTimeout")
    case True
    then show ?thesis using nz dbl r b
      by (auto simp: increaseTimeout_def Let_def kMaxTimeout_def word_less_nat_alt)
  next
    case False
    then have "?x = kMaxTimeout" using b by (simp add: kMaxTimeout_def word_less_nat_alt word_unat_eq_iff)
    then show ?thesis using nz r by (simp add: increaseTimeout_def Let_def kMaxTimeout_def)
  qed
qed

section \<open>A silent server\<close>

definition silent :: "'k kernel_api \<Rightarrow> bool" where
  "silent K \<longleftrightarrow> (\<forall>k fd ts. snd (k_ppoll K k fd ts) = 0)"

lemma silent_wait:
  assumes "silent K"
  shows "\<exists>k'. waitAndReceive K (k, c) = Some (k', c)"
proof (cases "mNextTimeout c = kNoTimeout")
  case True
  then show ?thesis by (simp add: waitAndReceive_def)
next
  case False
  obtain s1 t where t: "calculateTimeoutMillis K (k, c) = (s1, t)" by (cases "calculateTimeoutMillis K (k, c)")
  then have "snd s1 = c" by (auto simp: calculateTimeoutMillis_def split: if_splits prod.splits)
  then obtain k1 where s1: "s1 = (k1, c)" by (cases s1) auto
  have p: "snd (k_ppoll K k2 fd ts) = 0" for k2 fd ts using assms unfolding silent_def by blast
  have "\<exists>k'. wait_round K t (k1, c) = Some ((k', c), None)"
  proof -
    obtain k2 t2 where n: "now K k1 = (k2, t2)" by (cases "now K k1")
    have "k_ppoll K k2 fd ts = (fst (k_ppoll K k2 fd ts), 0)" for fd ts using p [of k2 fd ts] by (simp add: prod_eq_iff)
    then show ?thesis by (simp add: wait_round_def Let_def n case_prod_beta p)
  qed
  then show ?thesis using False t s1 by (auto simp: waitAndReceive_def wait_loop.simps [of K t])
qed

lemma silent_turn:
  "silent K \<Longrightarrow> run_state K (k, c) = Some (k1, c1) \<Longrightarrow> \<exists>k'. client_turn K (k, c) = Some (k', c1)"
  by (simp add: client_turn_def silent_wait)

lemma client_turns_Suc: "client_turns (Suc n) K s = Option.bind (client_turns n K s) (client_turn K)"
proof (induction n arbitrary: s)
  case 0
  show ?case by (cases "client_turn K s") simp_all
next
  case (Suc n)
  then show ?case by (cases "client_turn K s") (simp_all del: client_turns.simps(1))
qed

definition retrying :: "client \<Rightarrow> bool" where
  "retrying c \<longleftrightarrow> mState c = Selecting \<or> (mState c = Requesting \<or> mState c = Rebinding) \<and> mNextTimeout c < kMaxTimeout"

lemma silent_retry:
  assumes "silent K" and "retrying c"
  shows "\<exists>k' c'. client_turn K (k, c) = Some (k', c') \<and> mState c' = mState c \<and>
    mNextTimeout c' = mNextTimeout (increaseTimeout c) \<and> sNextTransactionId c' = sNextTransactionId c + 1"
proof -
  have i: "mNextTimeout (increaseTimeout (c\<lparr>mLastMsg := m, sNextTransactionId := t\<rparr>)) = mNextTimeout (increaseTimeout c)" for m t
    by (simp add: increaseTimeout_def Let_def)
  obtain kd md where d: "sendDhcpDiscover K (k, c) = Some (kd, c\<lparr>mLastMsg := md, sNextTransactionId := sNextTransactionId c + 1\<rparr>)"
    using send_total(2) [of K k c] by blast
  obtain kr mr where r: "sendDhcpRequest K (mServerAddress c) (k, c) = Some (kr, c\<lparr>mLastMsg := mr, sNextTransactionId := sNextTransactionId c + 1\<rparr>)"
    using send_total(1) [of K "mServerAddress c" k c] by blast
  obtain kb mb where b: "sendDhcpRequest K 0xFFFFFFFF (k, c) = Some (kb, c\<lparr>mLastMsg := mb, sNextTransactionId := sNextTransactionId c + 1\<rparr>)"
    using send_total(1) [of K "0xFFFFFFFF" k c] by blast
  have "\<exists>k1 m. run_state K (k, c) = Some (k1, increaseTimeout (c\<lparr>mLastMsg := m, sNextTransactionId := sNextTransactionId c + 1\<rparr>))"
    using assms(2) d r b by (auto simp: run_state_def retrying_def not_le [symmetric])
  then obtain k1 m where "run_state K (k, c) = Some (k1, increaseTimeout (c\<lparr>mLastMsg := m, sNextTransactionId := sNextTransactionId c + 1\<rparr>))"
    by blast
  from silent_turn [OF assms(1) this] show ?thesis by (auto simp: i)
qed

text \<open>\<open>n\<close> turns of a client that keeps retrying.\<close>

lemma silent_turns:
  assumes "silent K" and "mNextTimeout c = kNoTimeout" and "mState c = Selecting \<or> (mState c = Requesting \<or> mState c = Rebinding) \<and> n \<le> 5"
  shows "\<exists>k' c'. client_turns n K (k, c) = Some (k', c') \<and> mState c' = mState c \<and>
    unat (mNextTimeout c') = retry_timeout n \<and> sNextTransactionId c' = sNextTransactionId c + of_nat n"
  using assms(3)
proof (induction n)
  case 0
  then show ?case using assms(2) by (simp add: kNoTimeout_def)
next
  case (Suc n)
  then obtain k1 c1 where c1: "client_turns n K (k, c) = Some (k1, c1)" "mState c1 = mState c"
    "unat (mNextTimeout c1) = retry_timeout n" "sNextTransactionId c1 = sNextTransactionId c + of_nat n" by auto
  have "retry_timeout n < 64000" if "n \<le> 4" using that by (rule retry_timeout_early)
  then have "retrying c1"
    using Suc.prems c1(2,3) by (auto simp: retrying_def word_less_nat_alt kMaxTimeout_def)
  from silent_retry [OF assms(1) this, of k1] increase_retry [OF c1(3)]
  show ?case unfolding client_turns_Suc using c1 by auto
qed



definition memory_example :: client where
  "memory_example = \<lparr>mOptions = 0, mDhcpInfo = info_zero, mRouter = 0,
     mInterface = \<lparr>mInterfaceName = [], mIfaceFd = 0, mIndex = 2, mMacAddress = replicate 6 9\<rparr>, mLastMsg = message_default,
     mT1 = 0, mT2 = 0, mSocket = 0, mState = Init, mNextTimeout = 0, mFuzzNextTimeout = False,
     mRequestAddress = 0x0F02000A, mServerAddress = 0x0202000A, sNextTransactionId = 1\<rparr>"

definition requesting_example :: client where
  "requesting_example = setNextState Requesting (client_new memory_example 0)"

lemma quiet_kernel_silent: "silent quiet_kernel"
  by (simp add: silent_def quiet_kernel_def)


text \<open>
  While no server answers, the client keeps discovering for ever: after any number of turns it
  is still selecting, has sent one discover per turn, each with its own transaction id, and waits
  4 seconds doubled with every turn, but never more than 64.
\<close>

theorem discover_backs_off:
  assumes "silent K" and "mState c = Selecting" and "mNextTimeout c = kNoTimeout"
  shows "\<exists>k' c'. client_turns (Suc n) K (k, c) = Some (k', c') \<and> mState c' = Selecting \<and>
    unat (mNextTimeout c') = min 64000 (4000 * 2 ^ n) \<and> sNextTransactionId c' = sNextTransactionId c + of_nat (Suc n)"
  using silent_turns [OF assms(1,3), of "Suc n" k] assms(2) by simp

theorem discover_backs_off_witness:
  "\<exists>k' c'. client_turns 9 quiet_kernel ((), setNextState Selecting requesting_example) = Some (k', c') \<and>
     unat (mNextTimeout c') = 64000"
  using discover_backs_off [OF quiet_kernel_silent, of "setNextState Selecting requesting_example" 8 "()"] by auto


section \<open>Invariant of the client\<close>

text \<open>
  A bound client has a lease; outside the bound state the timeout is one of the retry timeouts and is
  varied; the transaction the client waits for is the last one it took.
\<close>

definition client_inv :: "client \<Rightarrow> bool" where
  "client_inv c \<longleftrightarrow>
     (mState c = Bound \<longrightarrow> di_leaseTime (mDhcpInfo c) \<noteq> 0) \<and>
     (mState c \<noteq> Bound \<longrightarrow> (\<exists>n. unat (mNextTimeout c) = retry_timeout n) \<and> mFuzzNextTimeout c) \<and>
     (mLastMsg c = message_default \<or> dh_xid (dhcpData (mLastMsg c)) = htonl (sNextTransactionId c - 1))"

inductive_cases client_movesE: "client_moves K k c e c'"

lemma built_xid: "dh_xid (dhcpData (built (new_header tid op mac) bs)) = htonl tid"
  by (simp add: built_def new_header_def)

lemma sendRawUdp_same: "sendRawUdp K a sp b dp i m (k, fd) = Some ((k', fd'), r) \<Longrightarrow> fd' = fd"
  by (auto simp: sendRawUdp_def Let_def case_prod_beta split: if_splits)

lemma send_result:
  "sendDhcpRequest K d (k, c) = Some s \<Longrightarrow>
    \<exists>m. snd s = c\<lparr>mLastMsg := m, sNextTransactionId := sNextTransactionId c + 1\<rparr> \<and> dh_xid (dhcpData m) = htonl (sNextTransactionId c)"
  "sendDhcpDiscover K (k, c) = Some s \<Longrightarrow>
    \<exists>m. snd s = c\<lparr>mLastMsg := m, sNextTransactionId := sNextTransactionId c + 1\<rparr> \<and> dh_xid (dhcpData m) = htonl (sNextTransactionId c)"
proof -
  have keep: "snd s = c'" if "client_sendMessage K m (k, c') = Some s" for m c'
    using that by (auto simp: client_sendMessage_def on_socket_opt_def dest: sendRawUdp_same)
  show "\<exists>m. snd s = c\<lparr>mLastMsg := m, sNextTransactionId := sNextTransactionId c + 1\<rparr> \<and> dh_xid (dhcpData m) = htonl (sNextTransactionId c)"
    if "sendDhcpRequest K d (k, c) = Some s"
    using that keep unfolding sendDhcpRequest_def request_built prod.case bind.bind_lunit by (metis built_xid)
  show "\<exists>m. snd s = c\<lparr>mLastMsg := m, sNextTransactionId := sNextTransactionId c + 1\<rparr> \<and> dh_xid (dhcpData m) = htonl (sNextTransactionId c)"
    if "sendDhcpDiscover K (k, c) = Some s"
    using that keep unfolding sendDhcpDiscover_def discover_built prod.case bind.bind_lunit by (metis built_xid)
qed

lemma inv_setNextState: "client_inv c \<Longrightarrow> st \<noteq> Bound \<Longrightarrow> client_inv (setNextState st c)"
  by (auto simp: client_inv_def kNoTimeout_def intro!: exI [of _ 0])

lemma inv_sent:
  assumes "client_inv c" and "mState c \<noteq> Bound" and "dh_xid (dhcpData m) = htonl (sNextTransactionId c)"
  shows "client_inv (increaseTimeout (c\<lparr>mLastMsg := m, sNextTransactionId := sNextTransactionId c + 1\<rparr>))"
proof -
  let ?c = "c\<lparr>mLastMsg := m, sNextTransactionId := sNextTransactionId c + 1\<rparr>"
  obtain n where n: "unat (mNextTimeout ?c) = retry_timeout n" using assms(1,2) by (auto simp: client_inv_def)
  have "mFuzzNextTimeout (increaseTimeout ?c)" "mLastMsg (increaseTimeout ?c) = m"
    using assms(1,2) by (simp_all add: client_inv_def increaseTimeout_def Let_def)
  then show ?thesis using increase_retry [OF n] assms(2,3) unfolding client_inv_def by (auto simp del: retry_timeout.simps)
qed

lemma inv_after_send:
  assumes "client_inv c" and "mState c \<noteq> Bound" and "sendDhcpRequest K d (k, c) = Some s \<or> sendDhcpDiscover K (k, c) = Some s"
  shows "client_inv (increaseTimeout (snd s))"
proof -
  obtain m where "snd s = c\<lparr>mLastMsg := m, sNextTransactionId := sNextTransactionId c + 1\<rparr>"
    "dh_xid (dhcpData m) = htonl (sNextTransactionId c)"
    using assms(3) send_result [of K] by blast
  then show ?thesis using inv_sent [OF assms(1,2)] by simp
qed

lemmas inv_after_request = inv_after_send [OF _ _ disjI1]
lemmas inv_after_discover = inv_after_send [OF _ _ disjI2]

lemma run_state_inv:
  assumes inv: "client_inv c" and r: "run_state K (k, c) = Some s"
  shows "client_inv (snd s)"
proof (cases "mState c")
  case Init
  then show ?thesis using r inv_setNextState [OF inv] by (auto simp: run_state_def)
next
  case Selecting
  then obtain s1 where "sendDhcpDiscover K (k, c) = Some s1" "snd s = increaseTimeout (snd s1)"
    using r by (auto simp: run_state_def)
  then show ?thesis using inv_after_discover [OF inv, of K k s1] Selecting by simp
next
  case Requesting
  show ?thesis
  proof (cases "kMaxTimeout \<le> mNextTimeout c")
    case True
    then show ?thesis using r Requesting inv_setNextState [OF inv] by (auto simp: run_state_def)
  next
    case False
    then obtain s1 where "sendDhcpRequest K (mServerAddress c) (k, c) = Some s1" "snd s = increaseTimeout (snd s1)"
      using r Requesting by (auto simp: run_state_def)
    then show ?thesis using inv_after_request [OF inv, of K _ k s1] Requesting by auto
  qed
next
  case Bound
  obtain k1 e where e: "expired K k (mT1 c) = (k1, e)" by (cases "expired K k (mT1 c)")
  show ?thesis
  proof (cases e)
    case True
    then show ?thesis using r Bound e inv_setNextState [OF inv] by (auto simp: run_state_def)
  next
    case False
    then show ?thesis using r Bound e inv by (auto simp: run_state_def client_inv_def split: prod.splits)
  qed
next
  case Renewing
  obtain k1 e where e: "expired K k (mT2 c) = (k1, e)" by (cases "expired K k (mT2 c)")
  show ?thesis
  proof (cases e)
    case True
    then show ?thesis using r Renewing e inv_setNextState [OF inv] by (auto simp: run_state_def)
  next
    case False
    then obtain s1 where "sendDhcpRequest K (mServerAddress c) (k1, c) = Some s1" "snd s = increaseTimeout (snd s1)"
      using r Renewing e by (auto simp: run_state_def)
    then show ?thesis using inv_after_request [OF inv, of K _ k1 s1] Renewing by auto
  qed
next
  case Rebinding
  show ?thesis
  proof (cases "kMaxTimeout \<le> mNextTimeout c")
    case True
    then show ?thesis using r Rebinding inv_setNextState [OF inv] by (auto simp: run_state_def)
  next
    case False
    then obtain s1 where "sendDhcpRequest K 0xFFFFFFFF (k, c) = Some s1" "snd s = increaseTimeout (snd s1)"
      using r Rebinding by (auto simp: run_state_def)
    then show ?thesis using inv_after_request [OF inv, of K _ k s1] Rebinding by auto
  qed
qed

lemma waited_inv:
  assumes "client_inv c" and "waited K c c' moved"
  shows "client_inv c'"
proof (cases moved)
  case True
  then obtain e where m: "\<And>k. client_moves K k c e c'" and f: "mNextTimeout c' = kNoTimeout" "mFuzzNextTimeout c'"
    "mLastMsg c' = mLastMsg c" "sNextTransactionId c' = sNextTransactionId c"
    using assms(2) by (auto simp: waited_def)
  have "mState c' = Bound \<longrightarrow> di_leaseTime (mDhcpInfo c') \<noteq> 0"
    using m [of undefined] by (rule client_movesE) auto
  then show ?thesis using assms(1) f by (auto simp: client_inv_def kNoTimeout_def intro!: exI [of _ 0])
next
  case False
  then show ?thesis using assms by (auto simp: waited_def idle_def same_machine_def client_inv_def)
qed


lemma client_turn_inv:
  assumes "client_inv c" and "client_turn K (k, c) = Some s"
  shows "client_inv (snd s)"
proof -
  obtain s1 where s1: "run_state K (k, c) = Some s1" "waitAndReceive K s1 = Some s"
    using assms(2) by (auto simp: client_turn_def bind_eq_Some_conv)
  then obtain moved where "waited K (snd s1) (snd s) moved"
    using waitAndReceive_moves [of K "fst s1" "snd s1" "fst s" "snd s"] by auto
  with run_state_inv [OF assms(1) s1(1)] show ?thesis by (rule waited_inv)
qed

lemma client_turns_inv: "client_inv c \<Longrightarrow> client_turns n K (k, c) = Some s \<Longrightarrow> client_inv (snd s)"
proof (induction n arbitrary: k c)
  case (Suc n)
  then obtain s1 where "client_turn K (k, c) = Some s1" "client_turns n K s1 = Some s"
    by (auto simp: bind_eq_Some_conv)
  moreover from this have "client_inv (snd s1)" using client_turn_inv [OF Suc.prems(1), of K k s1] by simp
  ultimately show ?case using Suc.IH [of "snd s1" "fst s1"] by simp
qed auto

lemma client_new_inv: "client_inv (client_new old options)"
  by (auto simp: client_inv_def client_new_def kInitialTimeout_def intro!: exI [of _ "Suc 0"])



end
