(* ===== verification/Dhcp_Lease.thy ===== *)
theory Dhcp_Lease
  imports Dhcp_Machine
begin

text \<open>
  What an acknowledgement does to the client: the options of a message as a list and what the
  option loop of \<open>configureDhcp\<close> stores for each, the bounds of that loop, the timers of a lease, and
  the whole way of an acknowledgement from the server's message to the bound client.
\<close>

section \<open>Bounds\<close>

lemma option_reads:
  "opt + 4 \<le> length options \<Longrightarrow> option32 options opt \<noteq> None" "opt + 2 \<le> length options \<Longrightarrow> option16 options opt \<noteq> None"
  by (simp_all add: option32_def option16_def mem_read_def)

lemma dns_entry_some:
  assumes "n < 4" and "opt + unat l \<le> length options"
  shows "dns_entry options opt l n info \<noteq> None"
proof -
  have "unat (of_nat (4 * (n + 1)) :: u8) = 4 * (n + 1)" using assms(1) by (intro unat_len8) simp
  then show ?thesis
    using assms(2) option_reads(1) [of "opt + 4 * n" options] by (auto simp: dns_entry_def word_le_nat_alt simp del: of_nat_mult of_nat_add)
qed

lemma read_option_some:
  assumes "opt + unat l \<le> length options"
  shows "read_option options opt code l info \<noteq> None"
proof -
  have "option32 options opt \<noteq> None" if "4 \<le> l" using that assms by (intro option_reads) (simp add: word_le_nat_alt)
  moreover have "option16 options opt \<noteq> None" if "l = 2" using that assms by (intro option_reads) simp
  moreover have "Option.bind (dns_entry options opt l 0 info) (\<lambda>info.
        Option.bind (dns_entry options opt l 1 info) (\<lambda>info.
        Option.bind (dns_entry options opt l 2 info) (dns_entry options opt l 3))) \<noteq> None"
    using dns_entry_some [OF _ assms] by (auto simp: bind_eq_None_conv)
  ultimately show ?thesis by (auto simp: read_option_def)
qed

lemma read_options_some:
  assumes "optsSize < length options" and "msize = OPTIONS_OFFSET + optsSize"
  shows "read_options options msize optsSize i info \<noteq> None"
  using assms
proof (induction options msize optsSize i info rule: read_options.induct)
  case (1 options msize optsSize i info)
  show ?case
  proof (cases "i + 1 < optsSize \<and> options ! i \<noteq> OPT_END \<and> \<not> msize \<le> OPTIONS_OFFSET + unat (options ! (i + 1)) + i")
    case True
    then have "i + 2 + unat (options ! (i + 1)) \<le> length options" using "1.prems" by simp
    then obtain info' where r: "read_option options (i + 2) (options ! i) (options ! (i + 1)) info = Some info'"
      using read_option_some by blast
    have "read_options options msize optsSize (i + 2 + unat (options ! (i + 1))) info' \<noteq> None"
      using True r "1.prems" by (intro "1.IH" [OF _ _ refl refl]) auto
    then show ?thesis using True r "1.prems" by (subst read_options.simps) (auto simp: Let_def)
  next
    case False
    then show ?thesis using "1.prems" by (subst read_options.simps) (auto simp: Let_def)
  qed
qed

lemma succeeded_some: "r \<noteq> None \<Longrightarrow> (\<And>s. f s \<noteq> None) \<Longrightarrow> succeeded r f \<noteq> None"
  by (cases r) (simp_all add: succeeded_def case_prod_beta del: not_None_eq)

lemma apply_info_some: "apply_info K s \<noteq> None"
proof -
  have a: "on_interface_opt (setAddress K a m) s \<noteq> None" for a m s
    by (cases s) (simp add: on_interface_opt_def setAddress_def address_request_sent)
  have g: "on_router_opt (setDefaultGateway K gw i) s \<noteq> None" for gw i s
    by (cases s) (simp add: on_router_opt_def setDefaultGateway_def gateway_request_sent)
  show ?thesis
    unfolding apply_info_def Let_def by (intro succeeded_some a) (simp_all add: g succeeded_some del: not_None_eq)
qed

lemma haltNetwork_some: "haltNetwork K s \<noteq> None"
  by (cases s) (simp add: haltNetwork_def on_interface_opt_def setAddress_def address_request_sent)

lemma configureDhcp_some:
  assumes "length (dh_options (dhcpData m)) = OPTIONS_SIZE" and "unat (mSize m) < DHCP_SIZE"
  shows "configureDhcp K m s \<noteq> None"
proof (cases "optionsSize m < 4")
  case True
  then show ?thesis by (cases s) (simp add: configureDhcp_def)
next
  case False
  then have "unat (mSize m) = OPTIONS_OFFSET + optionsSize m" "optionsSize m < OPTIONS_SIZE"
    using assms(2) by (auto simp: optionsSize_def split: if_splits)
  then have "read_options (dh_options (dhcpData m)) (unat (mSize m)) (optionsSize m) 4 info_zero \<noteq> None"
    using assms(1) by (intro read_options_some) simp_all
  then obtain info ok where "read_options (dh_options (dhcpData m)) (unat (mSize m)) (optionsSize m) 4 info_zero = Some (info, ok)"
    by auto
  then show ?thesis
    using False by (cases s; cases ok) (simp_all add: configureDhcp_def Let_def apply_info_some del: not_None_eq)
qed


text \<open>The message a datagram of \<open>n + 28\<close> bytes leaves in a fresh message.\<close>

lemma received_message:
  assumes "received_raw port dat message_default = (m, True)" and "length dat \<le> 20 + 8 + DHCP_SIZE"
  shows "dhcp_wf (dhcpData m)" and "unat (mSize m) + 28 = length dat"
proof -
  have l: "28 \<le> length dat" using assms(1) by (auto simp: received_raw_def Let_def split: if_splits)
  have m: "m = setSize (overlay message_default (drop 28 dat)) (of_nat (length dat) - 20 - 8)"
    using assms(1) by (auto simp: received_raw_def Let_def split: if_splits)
  show "dhcp_wf (dhcpData m)"
    unfolding m using overlay_bytes(2) [OF message_default_wf(1), of "drop 28 dat"] assms(2) by (simp add: setSize_def)
  have "(of_nat (length dat) - 20 - 8 :: size_t) = of_nat (length dat - 28)" using l by (simp add: of_nat_diff)
  moreover have "unat (of_nat (length dat - 28) :: size_t) = length dat - 28" using assms(2) by (intro unat_msize) simp
  ultimately show "unat (mSize m) + 28 = length dat" using l by (simp add: m setSize_def)
qed

definition short_datagrams :: "'k kernel_api \<Rightarrow> bool" where
  "short_datagrams K \<longleftrightarrow>
     (\<forall>k fd. case snd (k_recv K k fd (20 + 8 + DHCP_SIZE)) of None \<Rightarrow> True | Some dat \<Rightarrow> length dat + 3 \<le> 20 + 8 + DHCP_SIZE)"

lemma received_short:
  assumes "short_datagrams K" and "receiveDhcpMessage K message_default s = (s', m, True)"
  shows "dhcp_wf (dhcpData m)" and "unat (mSize m) + 3 \<le> DHCP_SIZE"
proof -
  obtain k c where s: "s = (k, c)" by (cases s)
  obtain k1 r where r: "k_recv K k (mSocket c) (20 + 8 + DHCP_SIZE) = (k1, r)"
    by (cases "k_recv K k (mSocket c) (20 + 8 + DHCP_SIZE)")
  have "case snd (k_recv K k (mSocket c) (20 + 8 + DHCP_SIZE)) of None \<Rightarrow> True | Some dat \<Rightarrow> length dat + 3 \<le> 20 + 8 + DHCP_SIZE"
    using assms(1) unfolding short_datagrams_def by blast
  moreover obtain dat where dat: "r = Some dat"
    using assms(2) r by (cases r) (auto simp: receiveDhcpMessage_def receiveRawUdp_def s isSuccess_def)
  ultimately have len: "length dat + 3 \<le> 20 + 8 + DHCP_SIZE" using r by simp
  have "received_raw PORT_BOOTP_CLIENT dat message_default = (m, True)"
    using assms(2) r dat by (auto simp: receiveDhcpMessage_def receiveRawUdp_def s Let_def split: prod.splits)
  from received_message [OF this] len show "dhcp_wf (dhcpData m)" "unat (mSize m) + 3 \<le> DHCP_SIZE" by simp_all
qed

lemma handle_message_some:
  assumes "dhcp_wf (dhcpData m)" and "unat (mSize m) + 3 \<le> DHCP_SIZE"
  shows "handle_message K m s \<noteq> None"
proof -
  have o: "length (dh_options (dhcpData m)) = OPTIONS_SIZE" using assms(1) by (simp add: dhcp_wf_def)
  have sz: "optionsSize m + 3 \<le> length (dh_options (dhcpData m))" using assms(2) o by (auto simp: optionsSize_def)
  have "message_type m \<noteq> None" using sz by (intro message_type_some) simp
  moreover have "serverId m \<noteq> None" using sz by (simp add: serverId_def address_option_some del: not_None_eq)
  moreover have "configureDhcp K m s \<noteq> None" using o assms(2) by (intro configureDhcp_some) simp_all
  ultimately show ?thesis
    using haltNetwork_some [of K s] by (cases s) (auto simp: handle_message_def simp del: not_None_eq split: if_splits)
qed


lemma wait_round_defined:
  assumes "short_datagrams K"
  shows "wait_round K timeout s \<noteq> None"
proof -
  obtain k c where s: "s = (k, c)" by (cases s)
  have h: "(case receiveDhcpMessage K message_default s1 of (s, msg, valid) \<Rightarrow>
      if valid then handle_message K msg s else Some (s, False)) \<noteq> None" for s1
  proof -
    obtain s2 m valid where r: "receiveDhcpMessage K message_default s1 = (s2, m, valid)"
      by (cases "receiveDhcpMessage K message_default s1") auto
    show ?thesis
    proof (cases valid)
      case True
      then have "handle_message K m s2 \<noteq> None" using received_short [OF assms] r by (intro handle_message_some) auto
      then show ?thesis using r True by simp
    qed (simp add: r)
  qed
  show ?thesis
    using h by (simp add: wait_round_def s Let_def bind_eq_None_conv case_prod_beta del: not_None_eq)
qed

section \<open>Properties of the option loop\<close>

text \<open>
  No message makes the client leave the message struct: as long as datagrams are at least three
  bytes shorter than the largest the receive buffers hold, a round of waiting is defined whatever
  arrives, in every state of the client and for every behaviour of the system calls.
\<close>

theorem received_messages_stay_in_bounds:
  assumes "short_datagrams K"
  shows "wait_round K timeout s \<noteq> None"
  by (rule wait_round_defined [OF assms])

theorem received_messages_stay_in_bounds_witness:
  "wait_round (quiet_kernel\<lparr>k_ppoll := \<lambda>k _ _. (k, 1), k_recv := \<lambda>k _ n. (k, Some (replicate (n - 3) 7))\<rparr>) 500 ((), requesting_example) \<noteq> None"
  by (rule received_messages_stay_in_bounds) (simp add: short_datagrams_def)

section \<open>Options as a list\<close>

text \<open>What the loop stores for an option of given code and data.\<close>

definition store_option :: "u8 \<times> bytes \<Rightarrow> dhcp_info \<Rightarrow> dhcp_info" where
  "store_option x info = (case x of (code, dat) \<Rightarrow>
     if code = OPT_LEASE_TIME \<and> length dat = 4 then info\<lparr>di_leaseTime := ntohl (load32 dat 0)\<rparr>
     else if code = OPT_T1 \<and> length dat = 4 then info\<lparr>di_t1 := ntohl (load32 dat 0)\<rparr>
     else if code = OPT_T2 \<and> length dat = 4 then info\<lparr>di_t2 := ntohl (load32 dat 0)\<rparr>
     else if code = OPT_SUBNET_MASK \<and> length dat = 4 then info\<lparr>di_subnetMask := load32 dat 0\<rparr>
     else if code = OPT_GATEWAY \<and> 4 \<le> length dat then info\<lparr>di_gateway := load32 dat 0\<rparr>
     else if code = OPT_MTU \<and> length dat = 2 then info\<lparr>di_mtu := ntohs (load16 dat 0)\<rparr>
     else if code = OPT_DNS then
       fold (\<lambda>n info. if 4 * (n + 1) \<le> length dat then info\<lparr>di_dns := (di_dns info)[n := load32 dat (4 * n)]\<rparr> else info) [0, 1, 2, 3] info
     else if code = OPT_SERVER_ID \<and> length dat = 4 then info\<lparr>di_serverId := load32 dat 0\<rparr>
     else info)"

lemma option_at:
  assumes "take (length dat) (drop opt options) = dat" and "opt + length dat \<le> length options"
  shows "off + 4 \<le> length dat \<Longrightarrow> option32 options (opt + off) = Some (load32 dat off)"
    and "2 \<le> length dat \<Longrightarrow> option16 options opt = Some (load16 dat 0)"
proof -
  have t: "take n (drop (opt + off) options) = take n (drop off dat)" if "off + n \<le> length dat" for n off
  proof -
    have "take n (drop off dat) = take n (drop off (take (length dat) (drop opt options)))" using assms(1) by simp
    also have "\<dots> = take n (drop (opt + off) options)" using that by (simp add: drop_take min_def add.commute)
    finally show ?thesis by simp
  qed
  show "option32 options (opt + off) = Some (load32 dat off)" if "off + 4 \<le> length dat"
    using t [OF that] assms(2) that by (simp add: option32_def load32_def mem_read_def)
  show "option16 options opt = Some (load16 dat 0)" if "2 \<le> length dat"
    using t [of 0 2] assms(2) that by (simp add: option16_def load16_def mem_read_def)
qed

lemma dns_entry_stores:
  assumes "take (length dat) (drop opt options) = dat" and "opt + length dat \<le> length options" and "length dat < 256" and "n < 4"
  shows "dns_entry options opt (of_nat (length dat)) n info =
    Some (if 4 * (n + 1) \<le> length dat then info\<lparr>di_dns := (di_dns info)[n := load32 dat (4 * n)]\<rparr> else info)"
proof -
  have u: "unat (of_nat (4 * (n + 1)) :: u8) = 4 * (n + 1)" using assms(4) by (intro unat_len8) simp
  have "(of_nat (4 * (n + 1)) \<le> (of_nat (length dat) :: u8)) = (4 * (n + 1) \<le> length dat)"
    unfolding word_le_nat_alt u unat_len8 [OF assms(3)] ..
  then show ?thesis
    using option_at(1) [OF assms(1,2), of "4 * n"] by (simp add: dns_entry_def del: of_nat_mult of_nat_add)
qed

lemma read_option_stores:
  assumes "take (length dat) (drop opt options) = dat" and "opt + length dat \<le> length options" and "length dat < 256"
  shows "read_option options opt code (of_nat (length dat)) info = Some (store_option (code, dat) info)"
proof -
  have l: "((of_nat (length dat) :: u8) = 4) = (length dat = 4)" "((of_nat (length dat) :: u8) = 2) = (length dat = 2)"
    "(4 \<le> (of_nat (length dat) :: u8)) = (4 \<le> length dat)"
    by (simp_all add: word_unat_eq_iff word_le_nat_alt unat_len8 [OF assms(3)])
  have d: "Option.bind (dns_entry options opt (of_nat (length dat)) 0 info) (\<lambda>info.
        Option.bind (dns_entry options opt (of_nat (length dat)) 1 info) (\<lambda>info.
        Option.bind (dns_entry options opt (of_nat (length dat)) 2 info) (dns_entry options opt (of_nat (length dat)) 3))) =
      Some (fold (\<lambda>n info. if 4 * (n + 1) \<le> length dat then info\<lparr>di_dns := (di_dns info)[n := load32 dat (4 * n)]\<rparr> else info)
        [0, 1, 2, 3] info)"
    by (simp only: dns_entry_stores [OF assms] bind.bind_lunit fold_simps comp_apply id_apply)
  show ?thesis
    unfolding read_option_def store_option_def prod.case l d
    using option_at(1) [OF assms(1,2), of 0] option_at(2) [OF assms(1,2)] by simp
qed

lemma read_options_stores:
  assumes "\<forall>(c, dat) \<in> set os. c \<noteq> OPT_END \<and> length dat < 256"
  shows "read_options (pre @ enc_options os @ OPT_END # rest) (OPTIONS_OFFSET + (length pre + length (enc_options os) + 1))
      (length pre + length (enc_options os) + 1) (length pre) info = Some (fold store_option os info, True)"
  using assms
proof (induction os arbitrary: pre info)
  case Nil
  then show ?case by (subst read_options.simps) simp
next
  case (Cons x os)
  obtain c dat where x: "x = (c, dat)" by (cases x)
  have c: "c \<noteq> OPT_END" "length dat < 256" using Cons.prems by (auto simp: x)
  let ?pre = "pre @ c # of_nat (length dat) # dat"
  have eq: "pre @ enc_options (x # os) @ OPT_END # rest = ?pre @ enc_options os @ OPT_END # rest"
    and len: "length pre + length (enc_options (x # os)) + 1 = length ?pre + length (enc_options os) + 1" by (simp_all add: x)
  let ?all = "?pre @ enc_options os @ OPT_END # rest"
  have IH: "read_options ?all (OPTIONS_OFFSET + (length ?pre + length (enc_options os) + 1))
      (length ?pre + length (enc_options os) + 1) (length ?pre) (store_option x info) = Some (fold store_option os (store_option x info), True)"
    using Cons.prems by (intro Cons.IH) simp
  have "take (length dat) (drop (length pre + 2) ?all) = dat" "length pre + 2 + length dat \<le> length ?all" by simp_all
  from read_option_stores [OF this c(2), of c info]
  have r: "read_option ?all (length pre + 2) c (of_nat (length dat)) info = Some (store_option x info)" by (simp add: x)
  have i: "length pre + 2 + unat (of_nat (length dat) :: u8) = length ?pre" by (simp add: unat_len8 c(2))
  have n: "?all ! length pre = c" "?all ! (length pre + 1) = of_nat (length dat)" by (simp_all add: nth_append)
  show ?case
    unfolding eq len
    by (subst read_options.simps) (unfold n Let_def, use c(1) IH r i unat_len8 [OF c(2)] in \<open>simp\<close>)
qed


section \<open>A message on its way\<close>

lemma zero_bytes: "dhcp_bytes (dhcpData message_default) = replicate DHCP_SIZE 0"
proof -
  have z: "[0, 0, 0, 0 :: u8] = replicate 4 0" by (rule nth_equalityI) (auto simp: less_Suc_eq nth_Cons')
  have r: "replicate a (0 :: u8) @ replicate b 0 = replicate (a + b) 0" for a b by (simp only: replicate_add)
  show ?thesis
    unfolding dhcp_bytes_def message_default_def dhcp_zero_def message.simps dhcp.simps enc_zero z r by simp
qed

text \<open>A message under construction arrives as it was built: what is behind its size is zero on both sides.\<close>

lemma built_arrives:
  assumes "dhcp_wf d" and "length bs \<le> OPTIONS_SIZE"
  shows "\<exists>dat. message_bytes (built d bs) = Some dat \<and> length dat = unat (mSize (built d bs)) \<and> length dat = OPTIONS_OFFSET + length bs \<and>
    setSize (overlay message_default dat) (mSize (built d bs)) = built d bs"
proof -
  let ?d = "dhcpData (built d bs)" and ?n = "OPTIONS_OFFSET + length bs"
  have wf: "dhcp_wf ?d" using assms by (simp add: dhcp_wf_def built_def)
  let ?head = "[dh_op ?d, dh_htype ?d, dh_hlen ?d, dh_hops ?d] @ enc32 (dh_xid ?d) @ enc16 (dh_secs ?d) @ enc16 (dh_flags ?d) @
     enc32 (dh_ciaddr ?d) @ enc32 (dh_yiaddr ?d) @ enc32 (dh_siaddr ?d) @ enc32 (dh_giaddr ?d) @ dh_chaddr ?d @ dh_sname ?d @ dh_file ?d"
  have h: "length ?head = OPTIONS_OFFSET" using wf by (simp add: dhcp_wf_def)
  have b: "dhcp_bytes ?d = (?head @ bs) @ replicate (DHCP_SIZE - ?n) 0"
    by (simp add: dhcp_bytes_def)
  have l: "length (?head @ bs) = ?n" using h by simp
  have tk: "take ?n (dhcp_bytes ?d) = ?head @ bs" unfolding b using l by (metis append_eq_conv_conj)
  have sz: "unat (mSize (built d bs)) = ?n" using assms(2) by (rule built_size(1))
  have mb: "message_bytes (built d bs) = Some (?head @ bs)"
    using assms(2) dhcp_bytes_length [OF wf] by (simp only: message_bytes_def sz mem_read_def tk drop_0 add_0) simp
  have z: "dhcp_bytes (dhcpData message_default) = replicate DHCP_SIZE 0"
    by (rule zero_bytes)
  have "(?head @ bs) @ drop (length (?head @ bs)) (dhcp_bytes (dhcpData message_default)) = dhcp_bytes ?d"
    unfolding b l z by (simp only: drop_replicate)
  then have "overlay message_default (?head @ bs) = message_default\<lparr>dhcpData := ?d\<rparr>"
    by (simp only: overlay_def dhcp_roundtrip [OF wf])
  then have "setSize (overlay message_default (?head @ bs)) (mSize (built d bs)) = built d bs"
    by (simp add: setSize_def)
  then show ?thesis using mb l sz by (intro exI [of _ "?head @ bs"]) simp
qed


section \<open>A network that can be configured\<close>

text \<open>Flags can be read and set, netlink messages are sent and answered without an error.\<close>

definition network_ok :: "'k kernel_api \<Rightarrow> interface \<Rightarrow> bool" where
  "network_ok K i \<longleftrightarrow>
     (\<forall>k. snd (k_get_flags K k (mIfaceFd i) (request_name i)) \<noteq> None) \<and>
     (\<forall>k flags. snd (k_set_flags K k (mIfaceFd i) (request_name i) flags) = 0) \<and>
     (\<forall>k fd dat addr. snd (k_sendto K k fd dat addr) \<noteq> -1) \<and>
     (\<forall>k. \<exists>response. snd (k_recv K k (mIfaceFd i) 8192) = Some response \<and> address_response response = Success)"

lemma network_steps:
  assumes "network_ok K (mInterface c)"
  shows "\<exists>k1. on_interface (bringUp K) (k, c) = ((k1, c), Success)"
    and "\<exists>k1. fst (on_interface (setMtu K mtu) (k, c)) = (k1, c)"
    and "\<exists>k1. on_interface_opt (setAddress K a m) (k, c) = Some ((k1, c), Success)"
    and "\<exists>k1. on_router_opt (setDefaultGateway K gw idx) (k, c) = Some ((k1, c), Success)"
    and "\<exists>k1. set_properties K (k, c) = (k1, c)"
proof -
  let ?i = "mInterface c"
  have f: "snd (k_get_flags K k1 (mIfaceFd ?i) (request_name ?i)) \<noteq> None" "snd (k_set_flags K k1 (mIfaceFd ?i) (request_name ?i) fl) = 0"
    and s: "snd (k_sendto K k1 fd dat addr) \<noteq> -1"
    and r: "\<exists>response. snd (k_recv K k1 (mIfaceFd ?i) 8192) = Some response \<and> address_response response = Success" for k1 fl fd dat addr
    using assms unfolding network_ok_def by blast+
  obtain k1 fl where gf: "k_get_flags K k (mIfaceFd ?i) (request_name ?i) = (k1, Some fl)"
    using f(1) [of k] by (cases "k_get_flags K k (mIfaceFd ?i) (request_name ?i)") auto
  obtain k2 where "k_set_flags K k1 (mIfaceFd ?i) (request_name ?i) (fl XOR IFF_UP) = (k2, 0)"
    using f(2) [of k1 "fl XOR IFF_UP"] by (cases "k_set_flags K k1 (mIfaceFd ?i) (request_name ?i) (fl XOR IFF_UP)") auto
  then show "\<exists>k1. on_interface (bringUp K) (k, c) = ((k1, c), Success)"
    using gf by (auto simp: on_interface_def bringUp_def setInterfaceUp_def Let_def)
  show "\<exists>k1. fst (on_interface (setMtu K mtu) (k, c)) = (k1, c)"
    by (simp add: on_interface_def setMtu_def split: prod.split)
  let ?ab = "address_bytes (mIndex ?i) a m"
  obtain k3 st where st: "k_sendto K k (mIfaceFd ?i) ?ab sockaddr_nl = (k3, st)" "st \<noteq> -1"
    using s [of k "mIfaceFd ?i" ?ab sockaddr_nl] by (cases "k_sendto K k (mIfaceFd ?i) ?ab sockaddr_nl") auto
  obtain k4 rs where "k_recv K k3 (mIfaceFd ?i) 8192 = (k4, Some rs)" "address_response rs = Success"
    using r [of k3] by (cases "k_recv K k3 (mIfaceFd ?i) 8192") auto
  then show "\<exists>k1. on_interface_opt (setAddress K a m) (k, c) = Some ((k1, c), Success)"
    using st by (simp add: on_interface_opt_def setAddress_def address_request_sent)
  obtain k5 st5 where "k_sendto K k (mRouter c) (gateway_bytes gw idx) sockaddr_nl = (k5, st5)" "st5 \<noteq> -1"
    using s [of k "mRouter c" "gateway_bytes gw idx" sockaddr_nl]
    by (cases "k_sendto K k (mRouter c) (gateway_bytes gw idx) sockaddr_nl") auto
  then show "\<exists>k1. on_router_opt (setDefaultGateway K gw idx) (k, c) = Some ((k1, c), Success)"
    by (simp add: on_router_opt_def setDefaultGateway_def gateway_request_sent sendNetlinkMessage_def)
  show "\<exists>k1. set_properties K (k, c) = (k1, c)" by (simp add: set_properties_def Let_def)
qed

lemma start_timers_result: "\<exists>k1 e1 e2. start_timers K (k, c) = (k1, c\<lparr>mT1 := e1, mT2 := e2\<rparr>)"
  by (simp add: start_timers_def split: prod.split) blast

lemma apply_info_succeeds:
  assumes "network_ok K (mInterface c)"
  shows "\<exists>k' e1 e2. apply_info K (k, c) = Some ((k', c\<lparr>mT1 := e1, mT2 := e2\<rparr>), True)"
proof -
  obtain k1 e1 e2 where t: "start_timers K (k, c) = (k1, c\<lparr>mT1 := e1, mT2 := e2\<rparr>)" using start_timers_result [of K k c] by blast
  let ?c = "c\<lparr>mT1 := e1, mT2 := e2\<rparr>" and ?n = "mDhcpInfo c"
  have ok: "network_ok K (mInterface ?c)" using assms by simp
  obtain k2 where up: "on_interface (bringUp K) (k1, ?c) = ((k2, ?c), Success)" using network_steps(1) [OF ok, of k1] by blast
  obtain k3 where mtu: "(if di_mtu ?n \<noteq> 0 then fst (on_interface (setMtu K (di_mtu ?n)) (k2, ?c)) else (k2, ?c)) = (k3, ?c)"
    using network_steps(2) [OF ok, of "di_mtu ?n" k2] by (cases "di_mtu ?n = 0") auto
  obtain k4 where pr: "set_properties K (k3, ?c) = (k4, ?c)" using network_steps(5) [OF ok, of k3] by blast
  obtain k5 where ad: "on_interface_opt (setAddress K (di_offeredAddress ?n) (di_subnetMask ?n)) (k4, ?c) = Some ((k5, ?c), Success)"
    using network_steps(3) [OF ok, of _ _ k4] by blast
  obtain k6 where gw: "on_router_opt (setDefaultGateway K (di_gateway ?n) (mIndex (mInterface ?c))) (k5, ?c) = Some ((k6, ?c), Success)"
    using network_steps(4) [OF ok, of _ _ k5] by blast
  have s: "succeeded (Some (s1, Success)) f = f s1" for s1 :: "'a \<times> client" and f
    by (simp add: succeeded_def isSuccess_def)
  have "\<exists>k'. apply_info K (k, c) = Some ((k', ?c), True)"
    unfolding apply_info_def Let_def snd_conv t up s mtu pr ad using gw by (simp add: s)
  then show ?thesis by blast
qed


section \<open>The acknowledgement of a server\<close>

lemma read_options_built:
  assumes "options_ok os"
  shows "read_options (dh_options (dhcpData (built d (options_area os)))) (unat (mSize (built d (options_area os))))
    (optionsSize (built d (options_area os))) 4 info = Some (fold store_option os info, True)"
proof -
  have os: "\<forall>(c, dat) \<in> set os. c \<noteq> OPT_END \<and> length dat < 256" "length (options_area os) \<le> OPTIONS_SIZE"
    using assms by (simp_all add: options_ok_def)
  let ?rest = "replicate (OPTIONS_SIZE - length (options_area os)) 0"
  have len: "length (options_area os) = length OPT_COOKIE + length (enc_options os) + 1" by (simp add: options_area_def)
  have opts: "dh_options (dhcpData (built d (options_area os))) = OPT_COOKIE @ enc_options os @ OPT_END # ?rest"
    by (simp add: options_area_def)
  have sz: "unat (mSize (built d (options_area os))) = OPTIONS_OFFSET + (length OPT_COOKIE + length (enc_options os) + 1)"
    "optionsSize (built d (options_area os)) = length OPT_COOKIE + length (enc_options os) + 1"
    using built_size [OF os(2), of d] unfolding len by simp_all
  show ?thesis
    unfolding opts sz using read_options_stores [OF os(1), of OPT_COOKIE ?rest info] by (simp only: cookie_length)
qed

definition first_dns :: "u32 list \<Rightarrow> u32 list" where
  "first_dns dns = map (\<lambda>n. if n < length dns then dns ! n else 0) [0..<4]"

lemma reply_info:
  "fold store_option (reply_list t server netmask gateway dns) info_zero =
     info_zero\<lparr>di_serverId := server, di_leaseTime := ntohl kDefaultLeaseTime, di_subnetMask := netmask, di_gateway := gateway,
       di_dns := first_dns dns\<rparr>"
proof -
  note l = u32_codec.dec_id
  have four: "[0..<4] = [0, 1, 2, 3 :: nat]" "replicate 4 (0 :: u32) = [0, 0, 0, 0]"
    by (simp_all add: upt_rec numeral_eq_Suc)
  have d: "store_option (OPT_DNS, concat (map enc32 dns)) info = info\<lparr>di_dns := first_dns dns\<rparr>" if "di_dns info = [0, 0, 0, 0]" for info
  proof -
    have c: "(4 * (n + 1) \<le> length (concat (map enc32 dns))) = (n < length dns)" for n by auto
    have f: "(\<lambda>n info. if n < length dns then info\<lparr>di_dns := (di_dns info)[n := load32 (concat (map enc32 dns)) (4 * n)]\<rparr> else info) =
        (\<lambda>n info :: dhcp_info. if n < length dns then info\<lparr>di_dns := (di_dns info)[n := dns ! n]\<rparr> else info)"
      by (intro ext) (simp add: load32_array)
    have "store_option (OPT_DNS, concat (map enc32 dns)) info =
        fold (\<lambda>n info. if n < length dns then info\<lparr>di_dns := (di_dns info)[n := dns ! n]\<rparr> else info) [0, 1, 2, 3] info"
      unfolding store_option_def c prod.case f by simp
    also have "\<dots> = info\<lparr>di_dns := first_dns dns\<rparr>"
      using that by (cases "0 < length dns"; cases "1 < length dns"; cases "2 < length dns"; cases "3 < length dns")
        (simp_all add: first_dns_def four)
    finally show ?thesis .
  qed
  have s: "store_option (OPT_MESSAGE_TYPE, [t]) info = info"
    "store_option (OPT_SERVER_ID, enc32 x) info = info\<lparr>di_serverId := x\<rparr>"
    "store_option (OPT_LEASE_TIME, enc32 x) info = info\<lparr>di_leaseTime := ntohl x\<rparr>"
    "store_option (OPT_SUBNET_MASK, enc32 x) info = info\<lparr>di_subnetMask := x\<rparr>"
    "store_option (OPT_GATEWAY, enc32 x) info = info\<lparr>di_gateway := x\<rparr>" for info x
    by (simp_all add: store_option_def l)
  show ?thesis by (simp add: reply_list_def s d info_zero_def four)
qed

lemma reply_struct_wf:
  assumes "dhcp_wf (dhcpData source)"
  shows "dhcp_wf (reply_struct tid source y)"
  using assms by (simp add: dhcp_wf_def reply_struct_def new_header_def dhcp_zero_def)

lemma lease_nonzero: "ntohl kDefaultLeaseTime \<noteq> 0"
proof
  assume "ntohl kDefaultLeaseTime = 0"
  then have "bswap32 (bswap32 kDefaultLeaseTime) = bswap32 0" by simp
  moreover have "bswap32 0 = 0" by (rule enc32_inj) (simp add: enc_bswap enc_zero)
  ultimately show False by (simp add: kDefaultLeaseTime_def)
qed


section \<open>The way to the bound state\<close>

text \<open>The system has the datagram ready whenever the client asks.\<close>

definition delivers :: "'k kernel_api \<Rightarrow> int \<Rightarrow> bytes \<Rightarrow> bool" where
  "delivers K fd datagram \<longleftrightarrow> (\<forall>k ts. 0 < snd (k_ppoll K k fd ts)) \<and> (\<forall>k. snd (k_recv K k fd (20 + 8 + DHCP_SIZE)) = Some datagram)"

definition datagram :: "u32 \<Rightarrow> message \<Rightarrow> bytes \<Rightarrow> bytes" where
  "datagram server m dat = ip_bytes (raw_ip server 0xFFFFFFFF (mSize m)) @
     udp_bytes (raw_udp server PORT_BOOTP_SERVER 0xFFFFFFFF PORT_BOOTP_CLIENT dat (mSize m)) @ dat"

lemma received_from:
  assumes "dhcp_wf d" and "length bs \<le> OPTIONS_SIZE" and "message_bytes (built d bs) = Some dat"
    and "k_recv K k (mSocket c) (20 + 8 + DHCP_SIZE) = (k1, Some (datagram server (built d bs) dat))"
  shows "receiveDhcpMessage K message_default (k, c) =
    ((k1, c), built d bs, isValidDhcpMessage_xid (built d bs) OP_BOOTREPLY (dh_xid (dhcpData (mLastMsg c))))"
proof -
  have dat: "length dat = unat (mSize (built d bs))" "setSize (overlay message_default dat) (mSize (built d bs)) = built d bs"
    using built_arrives [OF assms(1,2)] assms(3) by auto
  have "received_raw PORT_BOOTP_CLIENT (datagram server (built d bs) dat) message_default = (built d bs, True)"
    unfolding datagram_def using received_raw_sent [OF dat(1), of PORT_BOOTP_CLIENT server "0xFFFFFFFF" PORT_BOOTP_SERVER message_default] dat(2) by simp
  then have "receiveRawUdp K PORT_BOOTP_CLIENT message_default False (k, mSocket c) = (((k1, mSocket c), built d bs, True), Success)"
    unfolding receiveRawUdp_def prod.case assms(4) option.case by simp
  then show ?thesis by (simp add: receiveDhcpMessage_def isSuccess_def)
qed

lemma receive_built:
  assumes "dhcp_wf d" and "length bs \<le> OPTIONS_SIZE" and "message_bytes (built d bs) = Some dat"
    and "delivers K (mSocket c) (datagram server (built d bs) dat)"
  shows "\<exists>k'. receiveDhcpMessage K message_default (k, c) =
    ((k', c), built d bs, isValidDhcpMessage_xid (built d bs) OP_BOOTREPLY (dh_xid (dhcpData (mLastMsg c))))"
proof -
  obtain k1 where "k_recv K k (mSocket c) (20 + 8 + DHCP_SIZE) = (k1, Some (datagram server (built d bs) dat))"
    using assms(4) by (cases "k_recv K k (mSocket c) (20 + 8 + DHCP_SIZE)") (auto simp: delivers_def dest: spec [of _ k])
  from received_from [OF assms(1-3) this] show ?thesis by blast
qed

text \<open>A round of waiting in which a valid message is received and ends the wait.\<close>

lemma wait_round_delivers:
  assumes "delivers K (mSocket c) dg" and "\<And>k2. \<exists>k3. receiveDhcpMessage K message_default (k2, c) = ((k3, c), m, True)"
    and "\<And>k3. \<exists>k4 c'. handle_message K m (k3, c) = Some ((k4, c'), True) \<and> P c'"
  shows "\<exists>k' c'. wait_round K timeout (k, c) = Some ((k', c'), None) \<and> P c'"
proof -
  obtain k1 t1 where n: "now K k = (k1, t1)" by (cases "now K k")
  let ?ts = "(ucast (timeout div 1000) :: u64, (ucast timeout - ucast (timeout div 1000) * 1000) * 1000000 :: u64)"
  obtain k2 res where p: "k_ppoll K k1 (mSocket c) ?ts = (k2, res)" by (cases "k_ppoll K k1 (mSocket c) ?ts")
  have res: "0 < res" using assms(1) p unfolding delivers_def by (metis snd_conv)
  obtain k3 where r: "receiveDhcpMessage K message_default (k2, c) = ((k3, c), m, True)" using assms(2) by blast
  obtain k4 c' where "handle_message K m (k3, c) = Some ((k4, c'), True)" "P c'" using assms(3) by blast
  then show ?thesis using n p res r by (simp add: wait_round_def Let_def)
qed

lemma configure_built:
  assumes "options_ok os" and "fold store_option os info_zero = info" and "di_leaseTime info \<noteq> 0"
    and "network_ok K (mInterface c)"
  shows "\<exists>k' e1 e2. configureDhcp K (built d (options_area os)) (k, c) =
    Some ((k', c\<lparr>mDhcpInfo := info\<lparr>di_offeredAddress := dh_yiaddr d\<rparr>, mT1 := e1, mT2 := e2\<rparr>), True)"
proof -
  have "\<not> optionsSize (built d (options_area os)) < 4"
    using assms(1) built_size(2) [of "options_area os" d] by (simp add: options_ok_def options_area_def)
  moreover have "dh_yiaddr (dhcpData (built d (options_area os))) = dh_yiaddr d" by (simp add: built_def)
  moreover obtain k' e1 e2 where "apply_info K (k, c\<lparr>mDhcpInfo := info\<lparr>di_offeredAddress := dh_yiaddr d\<rparr>\<rparr>) =
      Some ((k', c\<lparr>mDhcpInfo := info\<lparr>di_offeredAddress := dh_yiaddr d\<rparr>, mT1 := e1, mT2 := e2\<rparr>), True)"
    using apply_info_succeeds [of K "c\<lparr>mDhcpInfo := info\<lparr>di_offeredAddress := dh_yiaddr d\<rparr>\<rparr>" k] assms(4) by auto
  ultimately show ?thesis
    using assms(2,3) unfolding configureDhcp_def prod.case read_options_built [OF assms(1)] by simp blast
qed


text \<open>
  An offer is taken up: while the client is selecting, the datagram in which a server offers an
  address in answer to the client's discover ends the wait in the requesting state, and the next
  evaluation sends a request for exactly this address to this server, in a transaction of its own.
\<close>

theorem offer_is_requested:
  assumes "mState c = Selecting" and "dhcp_wf (dhcpData (mLastMsg c))" and "length dns < 64"
    and "offer tid (mLastMsg c) server offered netmask gateway dns = Some (om, tid')" and "message_bytes om = Some dat"
    and "delivers K (mSocket c) (datagram server om dat)"
  shows "\<exists>k1 c1 k2 c2. wait_round K timeout (k, c) = Some ((k1, c1), None) \<and> mState c1 = Requesting \<and>
    run_state K (k1, c1) = Some (k2, c2) \<and> mState c2 = Requesting \<and> mNextTimeout c2 = kInitialTimeout \<and>
    message_type (mLastMsg c2) = Some DHCPREQUEST \<and> requestedIp (mLastMsg c2) = Some offered \<and>
    serverId (mLastMsg c2) = Some server \<and>
    isValidDhcpMessage_xid (mLastMsg c2) OP_BOOTREQUEST (htonl (sNextTransactionId c))"
proof -
  let ?os = "reply_list DHCPOFFER server netmask gateway dns" and ?d = "reply_struct tid (mLastMsg c) offered"
  have om: "om = built ?d (options_area ?os)"
    using assms(4) reply_built [OF assms(3)] by (simp add: offer_def)
  have ok: "options_ok ?os" by (rule built_options_ok(3) [OF assms(3)])
  have facts: "isValidDhcpMessage_xid om OP_BOOTREPLY (dh_xid (dhcpData (mLastMsg c)))" "message_type om = Some DHCPOFFER"
    "serverId om = Some server" "dh_yiaddr (dhcpData om) = offered"
    unfolding om valid_built [OF ok] serverId_def
    by (simp add: reply_struct_def new_header_def, rule message_type_built [OF ok], simp add: reply_list_def,
      rule address_built [OF ok], simp add: reply_list_def, simp add: built_def reply_struct_def)
  have rcv: "\<exists>k3. receiveDhcpMessage K message_default (k2, c) = ((k3, c), om, True)" for k2
    using receive_built [OF reply_struct_wf [OF assms(2)] _ _ assms(6) [unfolded om], of k2] ok assms(5) facts(1)
    unfolding om by (simp add: options_ok_def)
  let ?c = "setNextState Requesting (c\<lparr>mServerAddress := server, mRequestAddress := offered\<rparr>)"
  have "handle_message K om (k3, c) = Some ((k3, ?c), True)" for k3
    using assms(1) facts by (simp add: handle_message_def)
  then obtain k1 where w: "wait_round K timeout (k, c) = Some ((k1, ?c), None)"
    using wait_round_delivers [OF assms(6) rcv, of "\<lambda>c'. c' = ?c"] by blast
  let ?r = "built (new_header (sNextTransactionId c) OP_BOOTREQUEST (mMacAddress (mInterface c))) (options_area (request_options offered server))"
  have len: "length (options_area (request_options offered server)) \<le> 700" by (simp add: options_area_def request_options_def)
  have "message_bytes ?r \<noteq> None" by (rule built_message_bytes [OF len])
  then obtain k2 where "client_sendMessage K ?r (k1, ?c\<lparr>mLastMsg := ?r, sNextTransactionId := sNextTransactionId c + 1\<rparr>) =
      Some (k2, ?c\<lparr>mLastMsg := ?r, sNextTransactionId := sNextTransactionId c + 1\<rparr>)"
    using client_sendMessage_total [of ?r K k1 "?c\<lparr>mLastMsg := ?r, sNextTransactionId := sNextTransactionId c + 1\<rparr>"] by blast
  then have s: "run_state K (k1, ?c) = Some (k2, increaseTimeout (?c\<lparr>mLastMsg := ?r, sNextTransactionId := sNextTransactionId c + 1\<rparr>))"
    by (simp add: run_state_def sendDhcpRequest_def request_built setNextState_def kMaxTimeout_def kNoTimeout_def)
  note q = built_options_ok(2) [of offered server]
  have "message_type ?r = Some DHCPREQUEST" "address_option ?r OPT_REQUESTED_IP = Some offered" "address_option ?r OPT_SERVER_ID = Some server"
    by (rule message_type_built [OF q] address_built [OF q], simp add: request_options_def)+
  moreover have "isValidDhcpMessage_xid ?r OP_BOOTREQUEST (htonl (sNextTransactionId c))"
    unfolding valid_built [OF q] by (simp add: new_header_def)
  ultimately show ?thesis
    using w s by (intro exI conjI) (assumption | simp add: increaseTimeout_def requestedIp_def serverId_def kInitialTimeout_def)+
qed

definition binding_kernel :: "bytes \<Rightarrow> unit kernel_api" where
  "binding_kernel dg = quiet_kernel\<lparr>k_ppoll := \<lambda>k _ _. (k, 1),
     k_recv := \<lambda>k _ n. (k, Some (if n = 8192 then replicate 20 0 else dg))\<rparr>"

lemma binding_kernel_facts:
  "network_ok (binding_kernel dg) i" "delivers (binding_kernel dg) fd dg"
proof -
  have "load16 (replicate 20 0) 4 = 0" by (simp add: load16_def numeral_2_eq_2)
  then show "network_ok (binding_kernel dg) i"
    by (simp add: network_ok_def binding_kernel_def quiet_kernel_def address_response_def)
  show "delivers (binding_kernel dg) fd dg" by (simp add: delivers_def binding_kernel_def)
qed

lemma requesting_example_facts:
  "awaits_ack (mState requesting_example)" "mLastMsg requesting_example = message_default"
  by (simp_all add: requesting_example_def awaits_ack_def setNextState_def client_new_def)


definition selecting_example :: client where
  "selecting_example = setNextState Selecting requesting_example"

lemma selecting_example_facts: "mState selecting_example = Selecting" "mLastMsg selecting_example = message_default"
    "sNextTransactionId selecting_example = 1"
  by (simp_all add: selecting_example_def requesting_example_def setNextState_def client_new_def)

theorem offer_is_requested_witness:
  "\<exists>om tid' dg k1 c1 k2 c2. offer 9 message_default 1 2 3 4 [5] = Some (om, tid') \<and>
     wait_round (binding_kernel dg) 4000 ((), selecting_example) = Some ((k1, c1), None) \<and>
     run_state (binding_kernel dg) (k1, c1) = Some (k2, c2) \<and> requestedIp (mLastMsg c2) = Some 2 \<and> serverId (mLastMsg c2) = Some 1"
proof -
  have d: "length [5 :: u32] < 64" by simp
  obtain om tid' where om: "offer 9 message_default 1 2 3 4 [5] = Some (om, tid')"
    and b: "om = built (reply_struct 9 message_default 2) (options_area (reply_list DHCPOFFER 1 3 4 [5]))"
    using reply_built [OF d] by (simp add: offer_def)
  have "length (options_area (reply_list DHCPOFFER 1 3 4 [5])) \<le> OPTIONS_SIZE"
    using built_options_ok(3) [OF d] by (simp add: options_ok_def)
  from built_arrives [OF reply_struct_wf [OF message_default_wf(1)] this] obtain dat where mb: "message_bytes om = Some dat"
    unfolding b by blast
  have "dhcp_wf (dhcpData (mLastMsg selecting_example))" "offer 9 (mLastMsg selecting_example) 1 2 3 4 [5] = Some (om, tid')"
    using om message_default_wf(1) by (simp_all add: selecting_example_facts)
  from offer_is_requested [OF selecting_example_facts(1) this(1) d this(2) mb binding_kernel_facts(2), of 4000 "()"] om
  show ?thesis by (elim exE conjE) (intro exI conjI, assumption+)
qed

section \<open>The timers of a lease\<close>

text \<open>
  C40. The two timers of an acknowledgement that names none: they are set from the clock to half and
  to seven eighths of the lease, in milliseconds, as long as seven times the lease fits 32 bits, that
  is up to 613566756 seconds; for an infinite lease (all ones) the product wraps, and the rebinding
  timer is set before the renewal timer instead of after it.
\<close>

theorem lease_timers:
  assumes "di_t1 (mDhcpInfo c) = 0" and "di_t2 (mDhcpInfo c) = 0"
  shows "\<exists>k1 k2 a b s1 s2. now K k = (k1, a) \<and> now K k1 = (k2, b) \<and>
    start_timers K (k, c) = (k2, c\<lparr>mT1 := a + of_nat s1 * 1000, mT2 := b + of_nat s2 * 1000\<rparr>) \<and>
    s1 = unat (di_leaseTime (mDhcpInfo c)) div 2 \<and>
    (unat (di_leaseTime (mDhcpInfo c)) \<le> 613566756 \<longrightarrow> s2 = 7 * unat (di_leaseTime (mDhcpInfo c)) div 8 \<and> s1 \<le> s2) \<and>
    (di_leaseTime (mDhcpInfo c) = 0xFFFFFFFF \<longrightarrow> s1 = 2147483647 \<and> s2 = 536870911)"
proof -
  let ?l = "di_leaseTime (mDhcpInfo c)"
  obtain k1 a where n1: "now K k = (k1, a)" by (cases "now K k")
  obtain k2 b where n2: "now K k1 = (k2, b)" by (cases "now K k1")
  let ?s1 = "unat (t1_seconds (mDhcpInfo c))" and ?s2 = "unat (t2_seconds (mDhcpInfo c))"
  have "start_timers K (k, c) = (k2, c\<lparr>mT1 := a + of_nat ?s1 * 1000, mT2 := b + of_nat ?s2 * 1000\<rparr>)"
    by (simp add: start_timers_def expireSeconds_def n1 n2)
  moreover have t1: "?s1 = unat ?l div 2" using assms by (simp add: t1_seconds_def unat_div)
  moreover have "?s2 = 7 * unat ?l div 8 \<and> ?s1 \<le> ?s2" if "unat ?l \<le> 613566756"
  proof -
    have "unat ?l * unat (7 :: u32) < 2 ^ LENGTH(32)" using that by simp
    then have "unat (?l * 7) = 7 * unat ?l" using unat_mult_lem [of ?l 7] by simp
    then have "?s2 = 7 * unat ?l div 8" using assms by (simp add: t2_seconds_def unat_div)
    moreover have "x div 2 \<le> 7 * x div 8" for x :: nat
      using div_mult_mult1 [of 4 x 2] div_le_mono [of "4 * x" "7 * x" 8] by simp
    ultimately show ?thesis unfolding t1 by simp
  qed
  moreover have "?s1 = 2147483647 \<and> ?s2 = 536870911" if "?l = 0xFFFFFFFF"
    using assms that by (simp add: t1_seconds_def t2_seconds_def)
  ultimately show ?thesis using n1 n2 by blast
qed

theorem lease_timers_witness:
  "\<exists>a b. start_timers quiet_kernel ((), requesting_example\<lparr>mDhcpInfo := info_zero\<lparr>di_leaseTime := 600\<rparr>\<rparr>) =
     ((), requesting_example\<lparr>mDhcpInfo := info_zero\<lparr>di_leaseTime := 600\<rparr>, mT1 := a + 300000, mT2 := b + 525000\<rparr>)"
  using lease_timers [of "requesting_example\<lparr>mDhcpInfo := info_zero\<lparr>di_leaseTime := 600\<rparr>\<rparr>" quiet_kernel "()"]
  by (auto simp: info_zero_def)

end
