(* ===== verification/Dhcp_Calls.thy ===== *)
theory Dhcp_Calls
  imports Dhcp_Lease
begin

text \<open>
  The system calls of the client, as labelled steps of the kernel state, and for every part of the
  client which calls it makes: a frame for each operation. A law of the kernel (a clock that does not run
  backwards, a queue that only some calls change) is stated once for the steps and holds for whole turns
  of the client by the lemmas of this theory.
\<close>

section \<open>Calls\<close>

text \<open>The calls by the descriptor they are made on.\<close>

datatype call = Socket_Made | Closed int | Bound_To int | Sent int | Sent_Datagram int | Received int | Received_Packet int
  | Option_Set int | Interface_Read int | Interface_Set int | Property_Set | Clock_Read | Random_Drawn | Polled int

inductive system_call :: "'k kernel_api \<Rightarrow> call \<Rightarrow> 'k \<Rightarrow> 'k \<Rightarrow> bool" for K where
  socket: "k_socket K k d t p = (k', r) \<Longrightarrow> system_call K Socket_Made k k'"
| close: "k_close K k fd = k' \<Longrightarrow> system_call K (Closed fd) k k'"
| bind: "k_bind K k fd a = (k', r) \<Longrightarrow> system_call K (Bound_To fd) k k'"
| sendto: "k_sendto K k fd dat a = (k', r) \<Longrightarrow> system_call K (Sent fd) k k'"
| sendmsg: "k_sendmsg K k fd a parts control = (k', r) \<Longrightarrow> system_call K (Sent_Datagram fd) k k'"
| recv: "k_recv K k fd n = (k', dat) \<Longrightarrow> system_call K (Received fd) k k'"
| recvmsg: "k_recvmsg K k fd n = (k', msg) \<Longrightarrow> system_call K (Received_Packet fd) k k'"
| setsockopt: "k_setsockopt K k fd level name v = (k', r) \<Longrightarrow> system_call K (Option_Set fd) k k'"
| get_index: "k_get_index K k fd ifname = (k', idx) \<Longrightarrow> system_call K (Interface_Read fd) k k'"
| get_hwaddr: "k_get_hwaddr K k fd ifname = (k', mac) \<Longrightarrow> system_call K (Interface_Read fd) k k'"
| get_flags: "k_get_flags K k fd ifname = (k', flags) \<Longrightarrow> system_call K (Interface_Read fd) k k'"
| set_flags: "k_set_flags K k fd ifname fl = (k', r) \<Longrightarrow> system_call K (Interface_Set fd) k k'"
| set_mtu: "k_set_mtu K k fd ifname mtu = (k', r) \<Longrightarrow> system_call K (Interface_Set fd) k k'"
| property_set: "k_property_set K k name v = (k', r) \<Longrightarrow> system_call K Property_Set k k'"
| clock: "k_clock K k = (k', t) \<Longrightarrow> system_call K Clock_Read k k'"
| random: "k_random K k = (k', x) \<Longrightarrow> system_call K Random_Drawn k k'"
| ppoll: "k_ppoll K k fd ts = (k', r) \<Longrightarrow> system_call K (Polled fd) k k'"

text \<open>A kernel state reached by any number of calls of a set.\<close>

definition via :: "'k kernel_api \<Rightarrow> call set \<Rightarrow> 'k \<Rightarrow> 'k \<Rightarrow> bool" where
  "via K A = (\<lambda>k k'. \<exists>c \<in> A. system_call K c k k')\<^sup>*\<^sup>*"

lemma via_refl [simp, intro!]: "via K A k k"
  by (simp add: via_def)

lemma via_trans [trans]: "via K A k k1 \<Longrightarrow> via K A k1 k' \<Longrightarrow> via K A k k'"
  by (simp add: via_def)

lemma via_step: "system_call K c k k1 \<Longrightarrow> c \<in> A \<Longrightarrow> via K A k1 k' \<Longrightarrow> via K A k k'"
  unfolding via_def by (rule converse_rtranclp_into_rtranclp) blast+

lemma via_call: "system_call K c k k' \<Longrightarrow> c \<in> A \<Longrightarrow> via K A k k'"
  by (rule via_step) auto

lemma via_mono: "via K A k k' \<Longrightarrow> A \<subseteq> B \<Longrightarrow> via K B k k'"
  unfolding via_def by (rule rtranclp_mono [THEN predicate2D]) auto

text \<open>What every call of the set keeps is kept.\<close>

lemma via_keeps:
  assumes "via K A k k'" and "P k" and "\<And>c k k'. c \<in> A \<Longrightarrow> system_call K c k k' \<Longrightarrow> P k \<Longrightarrow> P k'"
  shows "P k'"
  using assms(1) unfolding via_def by (induction rule: rtranclp_induct) (use assms(2,3) in blast)+

text \<open>Rules that follow the composition of the calls, from the last one backwards.\<close>

lemma via_snoc: "via K A k k1 \<Longrightarrow> system_call K c k1 k' \<Longrightarrow> c \<in> A \<Longrightarrow> via K A k k'"
  by (rule via_trans [OF _ via_call])

lemma via_calls:
  "via K A k k1 \<Longrightarrow> Sent fd \<in> A \<Longrightarrow> via K A k (fst (k_sendto K k1 fd dat a))"
  "via K A k k1 \<Longrightarrow> Sent_Datagram fd \<in> A \<Longrightarrow> via K A k (fst (k_sendmsg K k1 fd a parts control))"
  "via K A k k1 \<Longrightarrow> Received fd \<in> A \<Longrightarrow> via K A k (fst (k_recv K k1 fd n))"
  "via K A k k1 \<Longrightarrow> Interface_Read fd \<in> A \<Longrightarrow> via K A k (fst (k_get_flags K k1 fd name))"
  "via K A k k1 \<Longrightarrow> Interface_Set fd \<in> A \<Longrightarrow> via K A k (fst (k_set_flags K k1 fd name flags))"
  "via K A k k1 \<Longrightarrow> Interface_Set fd \<in> A \<Longrightarrow> via K A k (fst (k_set_mtu K k1 fd name mtu))"
  "via K A k k1 \<Longrightarrow> Property_Set \<in> A \<Longrightarrow> via K A k (fst (k_property_set K k1 name v))"
  "via K A k k1 \<Longrightarrow> Clock_Read \<in> A \<Longrightarrow> via K A k (fst (k_clock K k1))"
  "via K A k k1 \<Longrightarrow> Random_Drawn \<in> A \<Longrightarrow> via K A k (fst (k_random K k1))"
  "via K A k k1 \<Longrightarrow> Polled fd \<in> A \<Longrightarrow> via K A k (fst (k_ppoll K k1 fd ts))"
  by (simp_all add: via_snoc [OF _ system_call.sendto [OF prod.collapse [symmetric]]] via_snoc [OF _ system_call.sendmsg [OF prod.collapse [symmetric]]] via_snoc [OF _ system_call.recv [OF prod.collapse [symmetric]]] via_snoc [OF _ system_call.get_flags [OF prod.collapse [symmetric]]] via_snoc [OF _ system_call.set_flags [OF prod.collapse [symmetric]]] via_snoc [OF _ system_call.set_mtu [OF prod.collapse [symmetric]]] via_snoc [OF _ system_call.property_set [OF prod.collapse [symmetric]]] via_snoc [OF _ system_call.clock [OF prod.collapse [symmetric]]] via_snoc [OF _ system_call.random [OF prod.collapse [symmetric]]] via_snoc [OF _ system_call.ppoll [OF prod.collapse [symmetric]]])

section \<open>The parts of the client\<close>

definition interface_calls :: "int \<Rightarrow> call set" where
  "interface_calls fd = {Interface_Read fd, Interface_Set fd, Sent fd, Received fd}"

lemma now_via: "via K A k k1 \<Longrightarrow> Clock_Read \<in> A \<Longrightarrow> via K A k (fst (now K k1))"
  by (simp add: now_def case_prod_beta via_calls)

lemma timer_via:
  "via K A k k1 \<Longrightarrow> Clock_Read \<in> A \<Longrightarrow> via K A k (fst (expired K k1 e))"
  "via K A k k1 \<Longrightarrow> Clock_Read \<in> A \<Longrightarrow> via K A k (fst (remainingMillis K k1 e))"
  "via K A k k1 \<Longrightarrow> Clock_Read \<in> A \<Longrightarrow> via K A k (fst (expireSeconds K k1 s))"
  by (simp_all add: expired_def remainingMillis_def expireSeconds_def case_prod_beta now_via)

lemma interface_via:
  "setInterfaceUp K up (k, i) = ((k', i'), r) \<Longrightarrow> interface_calls (mIfaceFd i) \<subseteq> A \<Longrightarrow> via K A k k' \<and> i' = i"
  "setMtu K mtu (k, i) = ((k', i'), r) \<Longrightarrow> interface_calls (mIfaceFd i) \<subseteq> A \<Longrightarrow> via K A k k' \<and> i' = i"
  "setAddress K a m (k, i) = Some ((k', i'), r) \<Longrightarrow> interface_calls (mIfaceFd i) \<subseteq> A \<Longrightarrow> via K A k k' \<and> i' = i"
  by (auto simp: setInterfaceUp_def setMtu_def setAddress_def interface_calls_def Let_def case_prod_beta
      split: option.splits if_splits intro!: via_calls)

lemma router_via:
  "setDefaultGateway K gw idx (k, fd) = Some ((k', fd'), r) \<Longrightarrow> Sent fd \<in> A \<Longrightarrow> via K A k k' \<and> fd' = fd"
  by (auto simp: setDefaultGateway_def sendNetlinkMessage_def case_prod_beta split: if_splits intro!: via_calls)

lemma socket_via:
  "sendRawUdp K a sp b dp idx m (k, fd) = Some ((k', fd'), r) \<Longrightarrow> Sent_Datagram fd \<in> A \<Longrightarrow> via K A k k' \<and> fd' = fd"
  "receiveRawUdp K port m v (k, fd) = (((k', fd'), m', v'), r) \<Longrightarrow> Received fd \<in> A \<Longrightarrow> via K A k k' \<and> fd' = fd"
  by (auto simp: sendRawUdp_def receiveRawUdp_def Let_def case_prod_beta split: if_splits option.splits intro!: via_calls)

section \<open>Frames of the client's operations\<close>

definition network_calls :: "client \<Rightarrow> call set" where
  "network_calls c = interface_calls (mIfaceFd (mInterface c)) \<union> {Sent (mRouter c), Property_Set, Clock_Read}"

definition quiet_calls :: "client \<Rightarrow> call set" where
  "quiet_calls c = {Clock_Read, Random_Drawn, Sent_Datagram (mSocket c), Polled (mSocket c), Received (mSocket c)}"

definition same_devices :: "client \<Rightarrow> client \<Rightarrow> bool" where
  "same_devices c c' \<longleftrightarrow> mInterface c' = mInterface c \<and> mRouter c' = mRouter c \<and> mSocket c' = mSocket c"

lemma same_devices_refl [simp, intro!]: "same_devices c c"
  by (simp add: same_devices_def)

lemma same_devices_trans [trans]: "same_devices a b \<Longrightarrow> same_devices b c \<Longrightarrow> same_devices a c"
  by (simp add: same_devices_def)

lemma same_devices_calls: "same_devices c c' \<Longrightarrow> network_calls c' = network_calls c \<and> quiet_calls c' = quiet_calls c"
  by (simp add: same_devices_def network_calls_def quiet_calls_def)

text \<open>Calls of a set, and the descriptors stay: what an operation of the client owes the system.\<close>

definition framed :: "'k kernel_api \<Rightarrow> call set \<Rightarrow> 'k \<times> client \<Rightarrow> 'k \<times> client \<Rightarrow> bool" where
  "framed K A s s' \<longleftrightarrow> via K A (fst s) (fst s') \<and> same_devices (snd s) (snd s')"

lemma framed_refl [simp, intro!]: "framed K A s s"
  by (simp add: framed_def)

lemma framed_trans [trans]: "framed K A s s1 \<Longrightarrow> framed K A s1 s' \<Longrightarrow> framed K A s s'"
  using same_devices_trans by (auto simp: framed_def intro: via_trans)

lemma framed_mono: "framed K A s s' \<Longrightarrow> A \<subseteq> B \<Longrightarrow> framed K B s s'"
  by (auto simp: framed_def intro: via_mono)

lemma framed_network: "framed K A s s1 \<Longrightarrow> network_calls (snd s1) = network_calls (snd s) \<and> quiet_calls (snd s1) = quiet_calls (snd s)"
  by (simp add: framed_def same_devices_calls)

lemma on_interface_framed:
  assumes "\<And>k i k' i' r. f (k, i) = ((k', i'), r) \<Longrightarrow> interface_calls (mIfaceFd i) \<subseteq> A \<Longrightarrow> via K A k k' \<and> i' = i"
    and "network_calls (snd s) \<subseteq> A"
  shows "framed K A s (fst (on_interface f s))"
proof -
  obtain k c k' i' r where s: "s = (k, c)" and f: "f (k, mInterface c) = ((k', i'), r)"
    by (metis prod.collapse)
  have "interface_calls (mIfaceFd (mInterface c)) \<subseteq> A" using assms(2) by (auto simp: s network_calls_def)
  from assms(1) [OF f this] show ?thesis by (simp add: s f on_interface_def framed_def same_devices_def)
qed

lemma on_opt_framed:
  "on_interface_opt (setAddress K a m) s = Some (s', r) \<Longrightarrow> network_calls (snd s) \<subseteq> A \<Longrightarrow> framed K A s s'"
  "on_router_opt (setDefaultGateway K gw idx) s = Some (s', r) \<Longrightarrow> network_calls (snd s) \<subseteq> A \<Longrightarrow> framed K A s s'"
  by (auto simp: on_interface_opt_def on_router_opt_def framed_def same_devices_def network_calls_def split: prod.splits
      dest!: interface_via(3) [where A = A] router_via [where A = A])

lemma interface_framed:
  assumes "network_calls (snd s) \<subseteq> A"
  shows "framed K A s (fst (on_interface (bringUp K) s))" and "framed K A s (fst (on_interface (bringDown K) s))"
    and "framed K A s (fst (on_interface (setMtu K mtu) s))"
  using assms by (auto simp: bringUp_def bringDown_def dest: interface_via intro!: on_interface_framed)

lemma set_properties_framed: "network_calls (snd s) \<subseteq> A \<Longrightarrow> framed K A s (set_properties K s)"
proof -
  assume "network_calls (snd s) \<subseteq> A"
  then have p: "Property_Set \<in> A" by (auto simp: network_calls_def)
  have "via K A k k1 \<Longrightarrow> via K A k (fold (\<lambda>n k. fst (k_property_set K k (f n) (g n))) ns k1)" for f g ns k k1
    by (induction ns arbitrary: k1) (auto intro: via_calls p)
  from this [OF via_calls(7) [OF via_refl p]] show ?thesis
    by (cases s) (simp add: set_properties_def Let_def framed_def)
qed

lemma start_timers_framed: "network_calls (snd s) \<subseteq> A \<Longrightarrow> framed K A s (start_timers K s)"
  by (cases s) (auto simp: start_timers_def case_prod_beta framed_def same_devices_def network_calls_def intro!: timer_via)

text \<open>A step that must succeed before the next.\<close>

lemma succeeded_framed:
  assumes "succeeded r f = Some (s', ok)" and "\<And>s1 res. r = Some (s1, res) \<Longrightarrow> framed K A s s1"
    and "\<And>s1 b. framed K A s s1 \<Longrightarrow> f s1 = Some (s', b) \<Longrightarrow> framed K A s s'"
  shows "framed K A s s'"
  using assms by (auto simp: succeeded_def bind_eq_Some_conv split: if_splits)

lemma apply_info_framed:
  assumes "apply_info K s = Some (s', ok)" and A: "network_calls (snd s) \<subseteq> A"
  shows "framed K A s s'"
proof -
  have net: "framed K A s s1 \<Longrightarrow> network_calls (snd s1) \<subseteq> A" for s1 using framed_network A by blast
  have t: "framed K A s (start_timers K s)" using A by (rule start_timers_framed)
  show ?thesis
    using assms(1) unfolding apply_info_def Let_def
  proof (rule succeeded_framed)
    show "framed K A s s1" if "Some (on_interface (bringUp K) (start_timers K s)) = Some (s1, res)" for s1 res
      using that framed_trans [OF t interface_framed(1) [OF net [OF t]]] by simp
  next
    fix s1 b
    let ?s = "set_properties K (if di_mtu (mDhcpInfo (snd s)) \<noteq> 0 then fst (on_interface (setMtu K (di_mtu (mDhcpInfo (snd s)))) s1) else s1)"
    assume s1: "framed K A s s1"
      and r: "succeeded (on_interface_opt (setAddress K (di_offeredAddress (mDhcpInfo (snd s))) (di_subnetMask (mDhcpInfo (snd s)))) ?s)
        (\<lambda>s1. if mOptions (snd s1) AND NoGateway = 0
              then succeeded (on_router_opt (setDefaultGateway K (di_gateway (mDhcpInfo (snd s))) (mIndex (mInterface (snd s1)))) s1)
                     (\<lambda>s. Some (s, True))
              else Some (s1, True)) = Some (s', b)"
    have "framed K A s (if di_mtu (mDhcpInfo (snd s)) \<noteq> 0 then fst (on_interface (setMtu K (di_mtu (mDhcpInfo (snd s)))) s1) else s1)"
      using s1 framed_trans [OF s1 interface_framed(3) [OF net [OF s1]]] by simp
    then have u: "framed K A s ?s" using framed_trans set_properties_framed net by blast
    show "framed K A s s'"
      using r
    proof (rule succeeded_framed)
      show "framed K A s s2" if "on_interface_opt (setAddress K (di_offeredAddress (mDhcpInfo (snd s))) (di_subnetMask (mDhcpInfo (snd s)))) ?s =
          Some (s2, res)" for s2 res
        using framed_trans [OF u on_opt_framed(1) [OF that net [OF u]]] .
      show "framed K A s s'" if s2: "framed K A s s2" and "(if mOptions (snd s2) AND NoGateway = 0
          then succeeded (on_router_opt (setDefaultGateway K (di_gateway (mDhcpInfo (snd s))) (mIndex (mInterface (snd s2)))) s2)
                 (\<lambda>s. Some (s, True))
          else Some (s2, True)) = Some (s', b')" for s2 b'
        using that framed_trans [OF s2 on_opt_framed(2) [OF _ net [OF s2]]]
        by (auto simp: succeeded_def bind_eq_Some_conv split: if_splits)
    qed
  qed
qed

lemma configureDhcp_framed:
  assumes "configureDhcp K m s = Some (s', ok)" and "network_calls (snd s) \<subseteq> A"
  shows "framed K A s s'"
proof -
  obtain k c where s: "s = (k, c)" by (cases s)
  have i: "framed K A (k, c) (k, c\<lparr>mDhcpInfo := info\<rparr>)" for info by (simp add: framed_def same_devices_def)
  have "network_calls (c\<lparr>mDhcpInfo := info\<rparr>) \<subseteq> A" for info using assms(2) by (simp add: s network_calls_def)
  then have "framed K A (k, c) s1" if "apply_info K (k, c\<lparr>mDhcpInfo := info\<rparr>) = Some (s1, b)" for info s1 b
    using framed_trans [OF i apply_info_framed [OF that]] by simp
  then show ?thesis
    using assms(1) i unfolding s configureDhcp_def prod.case
    by (cases s') (auto simp: bind_eq_Some_conv Let_def split: if_splits)
qed

lemma haltNetwork_framed:
  assumes "haltNetwork K s = Some s'" and A: "network_calls (snd s) \<subseteq> A"
  shows "framed K A s s'"
proof -
  obtain s1 r where s1: "on_interface_opt (setAddress K 0 0) s = Some (s1, r)" "s' = fst (on_interface (bringDown K) s1)"
    using assms(1) by (auto simp: haltNetwork_def)
  have f: "framed K A s s1" using s1(1) A by (rule on_opt_framed(1))
  then have "network_calls (snd s1) \<subseteq> A" using framed_network A by blast
  from framed_trans [OF f interface_framed(2) [OF this]] show ?thesis unfolding s1(2) .
qed

lemma framed_state: "framed K A s (k', c') \<Longrightarrow> framed K A s (k', setNextState st c')"
  by (simp add: framed_def same_devices_def setNextState_def)

section \<open>Waiting and receiving\<close>

lemma receive_framed:
  assumes "receiveDhcpMessage K m0 s = (s', m, valid)" and "Received (mSocket (snd s)) \<in> A"
  shows "framed K A s s'"
proof -
  obtain k c where s: "s = (k, c)" by (cases s)
  show ?thesis
    using assms socket_via(2) [of K _ m0 False k "mSocket c"]
    by (auto simp: s receiveDhcpMessage_def Let_def framed_def same_devices_def split: prod.splits)
qed

text \<open>Only a client that awaits an acknowledgement changes the network.\<close>

lemma handle_message_framed:
  assumes "handle_message K m s = Some (s', returned)" and "awaits_ack (mState (snd s)) \<Longrightarrow> network_calls (snd s) \<subseteq> A"
  shows "framed K A s s'"
proof -
  obtain k c where s: "s = (k, c)" by (cases s)
  have g: "framed K A (k, c) (k, setNextState Requesting (c\<lparr>mServerAddress := x, mRequestAddress := y\<rparr>))" for x y
    by (simp add: framed_def same_devices_def setNextState_def)
  show ?thesis
  proof (cases "awaits_ack (mState c)")
    case True
    note net = assms(2) [unfolded s, simplified, OF True]
    have "framed K A (k, c) (k', setNextState Bound c')" if "configureDhcp K m (k, c) = Some ((k', c'), b)" for k' c' b
      using configureDhcp_framed [OF that] net by (auto intro: framed_state)
    moreover have "framed K A (k, c) (k', c')" if "configureDhcp K m (k, c) = Some ((k', c'), b)" for k' c' b
      using configureDhcp_framed [OF that] net by simp
    moreover have "framed K A (k, c) (k', setNextState Init c')" if "haltNetwork K (k, c) = Some (k', c')" for k' c'
      using haltNetwork_framed [OF that] net by (auto intro: framed_state)
    ultimately show ?thesis
      using assms(1) g unfolding s handle_message_def prod.case
      by (auto simp: bind_eq_Some_conv split: if_splits)
  next
    case False
    then show ?thesis
      using assms(1) g unfolding s handle_message_def prod.case
      by (auto simp: bind_eq_Some_conv awaits_ack_def split: if_splits)
  qed
qed

text \<open>A round up to its poll, and what follows a poll that woke the client.\<close>

definition round_poll :: "'k kernel_api \<Rightarrow> u32 \<Rightarrow> 'k \<times> client \<Rightarrow> 'k \<times> int" where
  "round_poll K timeout s =
     k_ppoll K (fst (now K (fst s))) (mSocket (snd s))
       (ucast (timeout div 1000), (ucast timeout - ucast (timeout div 1000) * 1000) * 1000000)"

definition reply_calls :: "client \<Rightarrow> call set" where
  "reply_calls c = {Clock_Read, Received (mSocket c)} \<union> (if awaits_ack (mState c) then network_calls c else {})"

lemma wait_round_parts:
  assumes "wait_round K timeout s = Some (s', nxt)"
  shows "(snd (round_poll K timeout s) = 0 \<and> s' = (fst (round_poll K timeout s), snd s) \<and> nxt = None) \<or>
    (snd (round_poll K timeout s) \<noteq> 0 \<and> framed K (reply_calls (snd s)) (fst (round_poll K timeout s), snd s) s')"
proof -
  obtain k c where s: "s = (k, c)" by (cases s)
  let ?p = "round_poll K timeout (k, c)" and ?A = "reply_calls c"
  have m: "Clock_Read \<in> ?A" "Received (mSocket c) \<in> ?A" "awaits_ack (mState c) \<Longrightarrow> network_calls c \<subseteq> ?A"
    by (auto simp: reply_calls_def)
  let ?react = "if 0 < snd ?p then (case receiveDhcpMessage K message_default (fst ?p, c) of (s, msg, valid) \<Rightarrow>
      if valid then handle_message K msg s else Some (s, False)) else Some ((fst ?p, c), False)"
  show ?thesis
  proof (cases "snd ?p = 0")
    case True
    then show ?thesis using assms by (auto simp: s wait_round_def Let_def case_prod_beta round_poll_def)
  next
    case False
    then obtain k3 c3 returned where r: "?react = Some ((k3, c3), returned)"
      and e: "s' = (k3, c3) \<or> s' = (fst (now K k3), c3)"
      using assms by (auto simp: s wait_round_def Let_def case_prod_beta bind_eq_Some_conv round_poll_def split: if_splits)
    have "framed K ?A (fst ?p, c) (k3, c3)"
    proof (cases "0 < snd ?p")
      case True
      obtain s2 msg valid where rc: "receiveDhcpMessage K message_default (fst ?p, c) = (s2, msg, valid)"
        by (metis prod.exhaust)
      have f1: "framed K ?A (fst ?p, c) s2" using receive_framed [OF rc, of ?A] m by simp
      have st: "mState (snd s2) = mState c"
        using receive_keeps [of K message_default "fst ?p" c "fst s2" "snd s2" msg valid] rc by (simp add: untouched_def same_machine_def)
      have "network_calls (snd s2) \<subseteq> ?A" if "awaits_ack (mState (snd s2))"
        using m(3) that framed_network [OF f1] by (simp add: st)
      then show ?thesis
        using r rc True f1 framed_trans [OF f1 handle_message_framed [of K msg s2 "(k3, c3)" returned ?A]]
        by (auto split: if_splits)
    qed (use r in auto)
    then show ?thesis using e False by (auto simp: s framed_def intro!: now_via m)
  qed
qed

definition turn_calls :: "client \<Rightarrow> call set" where
  "turn_calls c = quiet_calls c \<union> (if awaits_ack (mState c) then network_calls c else {})"

lemma wait_round_framed:
  assumes "wait_round K timeout s = Some (s', nxt)" and A: "quiet_calls (snd s) \<subseteq> A"
    and net: "awaits_ack (mState (snd s)) \<Longrightarrow> network_calls (snd s) \<subseteq> A"
  shows "framed K A s s'"
proof -
  have m: "Clock_Read \<in> A" "Polled (mSocket (snd s)) \<in> A" "reply_calls (snd s) \<subseteq> A"
    using A net by (auto simp: quiet_calls_def reply_calls_def)
  have p: "framed K A s (fst (round_poll K timeout s), snd s)"
    unfolding round_poll_def framed_def by (auto intro!: via_calls now_via m)
  show ?thesis
    using wait_round_parts [OF assms(1)] p framed_trans [OF p framed_mono [OF _ m(3)], of s'] by blast
qed

lemma wait_loop_framed:
  assumes "wait_loop K timeout s = Some s'"
  shows "quiet_calls (snd s) \<subseteq> A \<longrightarrow> (awaits_ack (mState (snd s)) \<longrightarrow> network_calls (snd s) \<subseteq> A) \<longrightarrow> framed K A s s'"
proof (rule wait_loop.raw_induct [where P = "\<lambda>K timeout s s'. quiet_calls (snd s) \<subseteq> A \<longrightarrow>
      (awaits_ack (mState (snd s)) \<longrightarrow> network_calls (snd s) \<subseteq> A) \<longrightarrow> framed K A s s'", OF _ assms])
  fix f :: "'a kernel_api \<Rightarrow> u32 \<Rightarrow> 'a \<times> client \<Rightarrow> ('a \<times> client) option" and K timeout s s'
  assume IH: "\<And>K timeout s s'. f K timeout s = Some s' \<Longrightarrow> quiet_calls (snd s) \<subseteq> A \<longrightarrow>
      (awaits_ack (mState (snd s)) \<longrightarrow> network_calls (snd s) \<subseteq> A) \<longrightarrow> framed K A s s'"
    and eq: "Option.bind (wait_round K timeout s) (\<lambda>(s, next). case next of None \<Rightarrow> Some s | Some timeout \<Rightarrow> f K timeout s) = Some s'"
  show "quiet_calls (snd s) \<subseteq> A \<longrightarrow> (awaits_ack (mState (snd s)) \<longrightarrow> network_calls (snd s) \<subseteq> A) \<longrightarrow> framed K A s s'"
  proof (intro impI)
    assume A: "quiet_calls (snd s) \<subseteq> A" and net: "awaits_ack (mState (snd s)) \<longrightarrow> network_calls (snd s) \<subseteq> A"
    obtain s1 nxt where r: "wait_round K timeout s = Some (s1, nxt)" using eq by (auto simp: bind_eq_Some_conv)
    have f1: "framed K A s s1" using r A net by (intro wait_round_framed [of K timeout s s1 nxt]) auto
    show "framed K A s s'"
    proof (cases nxt)
      case None
      then show ?thesis using eq r f1 by simp
    next
      case (Some t)
      have "mState (snd s1) = mState (snd s)"
        using wait_round_moves [of K timeout "fst s" "snd s" "fst s1" "snd s1" nxt "snd s"] r Some
        by (auto simp: waited_def idle_def same_machine_def)
      then have "framed K A s1 s'"
        using IH [of K t s1 s'] eq r Some A net framed_network [OF f1] by simp
      with f1 show ?thesis by (rule framed_trans)
    qed
  qed
qed

lemma waitAndReceive_framed:
  assumes "waitAndReceive K s = Some s'"
  shows "framed K (turn_calls (snd s)) s s'"
proof (cases "mNextTimeout (snd s) = kNoTimeout")
  case True
  then show ?thesis using assms by (simp add: waitAndReceive_def)
next
  case False
  obtain k c where s: "s = (k, c)" by (cases s)
  obtain s1 t where t: "calculateTimeoutMillis K s = (s1, t)" by (cases "calculateTimeoutMillis K s")
  then have c1: "snd s1 = c" and "fst s1 = k \<or> fst s1 = fst (k_random K k)"
    by (auto simp: s calculateTimeoutMillis_def case_prod_beta split: if_splits)
  then have f1: "framed K (turn_calls c) s s1"
    by (auto simp: s framed_def turn_calls_def quiet_calls_def intro!: via_calls)
  have "wait_loop K t s1 = Some s'" using assms False t by (simp add: waitAndReceive_def)
  from wait_loop_framed [OF this, of "turn_calls c"] have "framed K (turn_calls c) s1 s'"
    by (auto simp: c1 turn_calls_def)
  with f1 show ?thesis unfolding s snd_conv by (rule framed_trans)
qed

section \<open>Turns\<close>

lemma send_framed:
  "sendDhcpRequest K d s = Some s' \<Longrightarrow> framed K (quiet_calls (snd s)) s s'"
  "sendDhcpDiscover K s = Some s' \<Longrightarrow> framed K (quiet_calls (snd s)) s s'"
proof -
  have k: "framed K (quiet_calls c) (k, c) s1" if "client_sendMessage K m (k, c\<lparr>mLastMsg := l, sNextTransactionId := t\<rparr>) = Some s1"
    for k c m l t s1
    using that socket_via(1) [of K _ _ _ _ _ _ k "mSocket c" _ _ _ "quiet_calls c"]
    by (auto simp: client_sendMessage_def on_socket_opt_def framed_def same_devices_def quiet_calls_def)
  show "framed K (quiet_calls (snd s)) s s'" if "sendDhcpRequest K d s = Some s'"
    using that by (cases s) (auto simp: sendDhcpRequest_def bind_eq_Some_conv intro: k)
  show "framed K (quiet_calls (snd s)) s s'" if "sendDhcpDiscover K s = Some s'"
    using that by (cases s) (auto simp: sendDhcpDiscover_def bind_eq_Some_conv intro: k)
qed

lemma framed_increase: "framed K A s (k', c') \<Longrightarrow> framed K A s (k', increaseTimeout c')"
  by (simp add: framed_def same_devices_def increaseTimeout_def Let_def)

lemma framed_next: "framed K A s (k', c') \<Longrightarrow> framed K A s (k', c'\<lparr>mNextTimeout := t, mFuzzNextTimeout := b\<rparr>)"
  by (simp add: framed_def same_devices_def)

lemma run_state_framed:
  assumes "run_state K s = Some s'"
  shows "framed K (quiet_calls (snd s)) s s'"
proof -
  obtain k c where s: "s = (k, c)" by (cases s)
  let ?A = "quiet_calls c"
  have clk: "framed K ?A (k, c) (fst (expired K k e), c)" "framed K ?A (k, c) (fst (remainingMillis K (fst (expired K k e)) e), c)" for e
    by (auto simp: framed_def quiet_calls_def intro!: timer_via)
  have snd: "framed K ?A (k, c) (k2, c2)" if "sendDhcpRequest K d (k1, c) = Some (k2, c2)" "framed K ?A (k, c) (k1, c)" for d k1 k2 c2
    using framed_trans [OF that(2)] send_framed(1) [OF that(1)] by simp
  have dis: "framed K ?A (k, c) (k2, c2)" if "sendDhcpDiscover K (k, c) = Some (k2, c2)" for k2 c2
    using send_framed(2) [OF that] by simp
  show ?thesis
    using assms clk [of "mT1 c"] clk(1) [of "mT2 c"] framed_refl [of K ?A "(k, c)"]
    unfolding s run_state_def prod.case snd_conv
    by (cases "mState c") (auto simp: case_prod_beta split: if_splits intro!: framed_state framed_increase framed_next intro: snd dis)
qed

lemma client_turn_framed:
  assumes "client_turn K s = Some s'"
  shows "framed K (quiet_calls (snd s) \<union> network_calls (snd s)) s s'"
    and "\<not> awaits_ack (mState (snd s)) \<Longrightarrow> framed K (quiet_calls (snd s)) s s'"
proof -
  obtain s1 where s1: "run_state K s = Some s1" "waitAndReceive K s1 = Some s'"
    using assms by (auto simp: client_turn_def bind_eq_Some_conv)
  note f1 = run_state_framed [OF s1(1)] and f2 = waitAndReceive_framed [OF s1(2)]
  note same = framed_network [OF f1]
  show "framed K (quiet_calls (snd s) \<union> network_calls (snd s)) s s'"
    by (rule framed_trans [OF framed_mono [OF f1] framed_mono [OF f2]]) (auto simp: turn_calls_def same)
  show "framed K (quiet_calls (snd s)) s s'" if n: "\<not> awaits_ack (mState (snd s))"
  proof (cases "awaits_ack (mState (snd s1))")
    case True
    obtain k c where s: "s = (k, c)" by (cases s)
    have "mNextTimeout (snd s1) = kNoTimeout"
      using run_state_moves [of K k c] s1(1) n True by (auto simp: s stays_or_moves_def)
    then show ?thesis using s1(2) f1 by (simp add: waitAndReceive_def)
  next
    case False
    then have "framed K (quiet_calls (snd s)) s1 s'" using f2 same by (simp add: turn_calls_def)
    with f1 show ?thesis by (rule framed_trans)
  qed
qed

text \<open>
  C28. The client touches the network configuration only while it awaits an acknowledgement. A turn
  begun in the initial, selecting or bound state reads the clock, draws a random number, and sends, polls
  and receives on the client's own socket, nothing else: no interface flag, address, MTU, route or
  property is set. Every turn keeps to these calls and those of the client's interface and router, and
  leaves the descriptors and the interface as they are.
\<close>

theorem network_left_alone:
  assumes "client_turn K (k, c) = Some (k', c')"
  shows "via K (quiet_calls c \<union> network_calls c) k k' \<and> same_devices c c' \<and>
    (mState c \<in> {Init, Selecting, Bound} \<longrightarrow> via K (quiet_calls c) k k')"
  using client_turn_framed [OF assms] by (auto simp: framed_def awaits_ack_def)

theorem network_left_alone_witness:
  "\<exists>k' c'. client_turn quiet_kernel ((), selecting_example) = Some (k', c') \<and> via quiet_kernel (quiet_calls selecting_example) () k'"
proof -
  obtain k' c' where t: "client_turn quiet_kernel ((), selecting_example) = Some (k', c')"
    using silent_retry [OF quiet_kernel_silent, of selecting_example "()"] by (auto simp: retrying_def selecting_example_facts)
  from network_left_alone [OF t] show ?thesis using t by (auto simp: selecting_example_facts)
qed

end
