(* ===== verification/Dhcp_Clock.thy ===== *)
theory Dhcp_Clock
  imports Dhcp_Calls
begin

text \<open>
  The client over time. A kernel that wakes a wait only finitely often, and one whose clock agrees with
  its calls, are stated as laws of the system calls; from the first follows that every wait returns and
  that the client runs for ever, from the second the whole way of a client whose server is gone, from
  the lease it holds back to the start. The type invariant of the client's record is here too.
\<close>

section \<open>Types\<close>

text \<open>The lengths of the C arrays, and a message no longer than its struct.\<close>

definition client_typed :: "client \<Rightarrow> bool" where
  "client_typed c \<longleftrightarrow>
     dhcp_wf (dhcpData (mLastMsg c)) \<and> unat (mSize (mLastMsg c)) \<le> DHCP_SIZE \<and>
     length (di_dns (mDhcpInfo c)) = 4 \<and> length (mMacAddress (mInterface c)) = 6"

lemma typed_update [simp]:
  "client_typed (c\<lparr>mT1 := a\<rparr>) = client_typed c" "client_typed (c\<lparr>mT2 := a\<rparr>) = client_typed c"
  "client_typed (setNextState st c) = client_typed c" "client_typed (increaseTimeout c) = client_typed c"
  "client_typed (c\<lparr>mNextTimeout := t, mFuzzNextTimeout := b\<rparr>) = client_typed c"
  "client_typed (c\<lparr>mServerAddress := x, mRequestAddress := y\<rparr>) = client_typed c"
  by (simp_all add: client_typed_def setNextState_def increaseTimeout_def Let_def)

lemma typed_info: "client_typed c \<Longrightarrow> length (di_dns n) = 4 \<Longrightarrow> client_typed (c\<lparr>mDhcpInfo := n\<rparr>)"
  by (simp add: client_typed_def)

lemma built_typed:
  assumes "length mac = 6" and "length bs \<le> OPTIONS_SIZE"
  shows "dhcp_wf (dhcpData (built (new_header tid op mac) bs))" and "unat (mSize (built (new_header tid op mac) bs)) \<le> DHCP_SIZE"
  using assms built_size(1) [OF assms(2)] by (simp_all add: built_def dhcp_wf_def new_header_def dhcp_zero_def)

lemma send_typed:
  assumes "sendDhcpRequest K d (k, c) = Some s \<or> sendDhcpDiscover K (k, c) = Some s" and "client_typed c"
  shows "client_typed (snd s)"
proof -
  have l: "length (options_area (request_options a b)) \<le> OPTIONS_SIZE" "length (options_area discover_options) \<le> OPTIONS_SIZE" for a b
    by (simp_all add: options_area_def request_options_def discover_options_def)
  let ?m = "\<lambda>os. built (new_header (sNextTransactionId c) OP_BOOTREQUEST (mMacAddress (mInterface c))) (options_area os)"
  have "\<exists>os. snd s = c\<lparr>mLastMsg := ?m os, sNextTransactionId := sNextTransactionId c + 1\<rparr> \<and> length (options_area os) \<le> OPTIONS_SIZE"
  proof -
    have keep: "snd s = c'" if "client_sendMessage K m (k, c') = Some s" for m c'
      using that by (auto simp: client_sendMessage_def on_socket_opt_def dest: sendRawUdp_same)
    from assms(1) show ?thesis
    proof
      assume "sendDhcpRequest K d (k, c) = Some s"
      from keep [OF this [unfolded sendDhcpRequest_def request_built prod.case bind.bind_lunit]] show ?thesis
        by (intro exI [of _ "request_options (mRequestAddress c) d"] conjI l(1))
    next
      assume "sendDhcpDiscover K (k, c) = Some s"
      from keep [OF this [unfolded sendDhcpDiscover_def discover_built prod.case bind.bind_lunit]] show ?thesis
        by (intro exI [of _ discover_options] conjI l(2))
    qed
  qed
  then obtain os where "snd s = c\<lparr>mLastMsg := ?m os, sNextTransactionId := sNextTransactionId c + 1\<rparr>"
    "length (options_area os) \<le> OPTIONS_SIZE" by blast
  then show ?thesis using assms(2) built_typed [of "mMacAddress (mInterface c)" "options_area os"] by (simp add: client_typed_def)
qed

lemma read_option_dns:
  "read_option options opt code l info = Some info' \<Longrightarrow> length (di_dns info') = length (di_dns info)"
proof -
  have d: "dns_entry options opt l n a = Some b \<Longrightarrow> length (di_dns b) = length (di_dns a)" for n a b
    by (auto simp: dns_entry_def split: if_splits)
  show "read_option options opt code l info = Some info' \<Longrightarrow> length (di_dns info') = length (di_dns info)"
    by (auto simp: read_option_def bind_eq_Some_conv split: if_splits dest!: d)
qed

lemma read_options_dns:
  "read_options options msize optsSize i info = Some (info', ok) \<Longrightarrow> length (di_dns info') = length (di_dns info)"
proof (induction options msize optsSize i info rule: read_options.induct)
  case (1 options msize optsSize i info)
  show ?case
  proof (cases "i + 1 < optsSize \<and> \<not> length options \<le> i + 1 \<and> options ! i \<noteq> OPT_END \<and>
      \<not> msize \<le> OPTIONS_OFFSET + unat (options ! (i + 1)) + i")
    case True
    then have "(case read_option options (i + 2) (options ! i) (options ! (i + 1)) info of None \<Rightarrow> None
        | Some info \<Rightarrow> read_options options msize optsSize (i + 2 + unat (options ! (i + 1))) info) = Some (info', ok)"
      using "1.prems" by (subst (asm) read_options.simps) (simp only: Let_def if_True if_False simp_thms)
    then obtain info1 where i: "read_option options (i + 2) (options ! i) (options ! (i + 1)) info = Some info1"
      "read_options options msize optsSize (i + 2 + unat (options ! (i + 1))) info1 = Some (info', ok)"
      by (cases "read_option options (i + 2) (options ! i) (options ! (i + 1)) info") simp_all
    have "length (di_dns info') = length (di_dns info1)"
      by (rule "1.IH" [OF _ _ refl refl _ _ i]) (use True in simp_all)
    with read_option_dns [OF i(1)] show ?thesis by simp
  next
    case False
    have "info' = info"
    proof (rule ccontr)
      assume "info' \<noteq> info"
      then show False using "1.prems" False by (subst (asm) (1) read_options.simps) (simp add: Let_def split: if_splits)
    qed
    then show ?thesis by simp
  qed
qed

lemma network_typed:
  "client_typed c \<Longrightarrow> untouched c (k, c') \<Longrightarrow> same_devices c c' \<Longrightarrow> client_typed c'"
  by (simp add: client_typed_def untouched_def same_machine_def same_devices_def)

lemma configureDhcp_typed:
  assumes "configureDhcp K m (k, c) = Some ((k', c'), ok)" and "client_typed c"
  shows "client_typed c'"
proof -
  have a: "client_typed x" if "apply_info K (k, c\<lparr>mDhcpInfo := n\<rparr>) = Some ((k', x), b)" "length (di_dns n) = 4" for n x b
    using network_typed [OF _ apply_info_untouched [OF that(1) untouched_self]] apply_info_framed [OF that(1)] that(2) assms(2)
    by (auto simp: client_typed_def framed_def)
  have "length (di_dns n) = 4" if "read_options os ms sz 4 info_zero = Some (n, b)" for os ms sz n b
    using read_options_dns [OF that] by (simp add: info_zero_def)
  note i = typed_info [OF assms(2) this]
  show ?thesis
  proof (cases "optionsSize m < 4")
    case True
    then show ?thesis using assms by (simp add: configureDhcp_def)
  next
    case False
    then obtain info b where r: "read_options (dh_options (dhcpData m)) (unat (mSize m)) (optionsSize m) 4 info_zero = Some (info, b)"
      using assms(1) by (auto simp: configureDhcp_def bind_eq_Some_conv)
    let ?n = "info\<lparr>di_offeredAddress := dh_yiaddr (dhcpData m)\<rparr>"
    have n: "length (di_dns ?n) = 4" using read_options_dns [OF r] by (simp add: info_zero_def)
    have "c' = c\<lparr>mDhcpInfo := info\<rparr> \<or> c' = c\<lparr>mDhcpInfo := ?n\<rparr> \<or> apply_info K (k, c\<lparr>mDhcpInfo := ?n\<rparr>) = Some ((k', c'), ok)"
      using assms(1) False r by (auto simp: configureDhcp_def Let_def split: if_splits)
    then show ?thesis using i [OF r] typed_info [OF assms(2) n] a [OF _ n] by blast
  qed
qed

lemma haltNetwork_typed:
  assumes "haltNetwork K (k, c) = Some (k', c')" and "client_typed c"
  shows "client_typed c'"
proof -
  obtain s r where s: "on_interface_opt (setAddress K 0 0) (k, c) = Some (s, r)" and e: "(k', c') = fst (on_interface (bringDown K) s)"
    using assms(1) by (auto simp: haltNetwork_def)
  have "untouched c (k', c')" unfolding e using untouched_on(2) [OF untouched_self s] by (rule untouched_on(1))
  then show ?thesis
    using network_typed [OF assms(2), of k' c'] haltNetwork_framed [OF assms(1), of UNIV] by (simp add: framed_def)
qed

lemma receive_typed:
  assumes "receiveDhcpMessage K m0 (k, c) = ((k', c'), m, valid)" and "client_typed c"
  shows "client_typed c'"
  using network_typed [OF assms(2), of k' c'] receive_keeps [OF assms(1)] receive_framed [OF assms(1), of UNIV] by (simp add: framed_def)

lemma handle_message_typed:
  assumes "handle_message K m (k, c) = Some ((k', c'), returned)" and "client_typed c"
  shows "client_typed c'"
proof -
  have h: "handle_message K m (k, c) = Some ((k', c'), returned) \<Longrightarrow>
      c' = c \<or> (\<exists>x y. c' = setNextState Requesting (c\<lparr>mServerAddress := x, mRequestAddress := y\<rparr>)) \<or>
      (\<exists>c1 b. configureDhcp K m (k, c) = Some ((k', c1), b) \<and> (c' = c1 \<or> c' = setNextState Bound c1)) \<or>
      (\<exists>c1. haltNetwork K (k, c) = Some (k', c1) \<and> c' = setNextState Init c1)"
    by (auto simp: handle_message_def bind_eq_Some_conv split: if_splits)
  show ?thesis
    using h [OF assms(1)] assms(2) configureDhcp_typed [of K m k c k'] haltNetwork_typed [of K k c k'] by auto
qed

lemma wait_round_typed:
  assumes "wait_round K timeout (k, c) = Some ((k', c'), nxt)" and "client_typed c"
  shows "client_typed c'"
proof -
  let ?p = "round_poll K timeout (k, c)"
  have "c' = c \<or> (\<exists>s2 msg k3 b. receiveDhcpMessage K message_default (fst ?p, c) = (s2, msg, True) \<and>
      handle_message K msg s2 = Some ((k3, c'), b)) \<or> (\<exists>s2 msg. receiveDhcpMessage K message_default (fst ?p, c) = (s2, msg, False) \<and> c' = snd s2)"
  proof -
    obtain s2 msg valid where rc: "receiveDhcpMessage K message_default (fst ?p, c) = (s2, msg, valid)" by (metis prod.exhaust)
    show ?thesis
      using assms(1) rc
      by (cases valid) (auto simp: wait_round_def Let_def case_prod_beta bind_eq_Some_conv round_poll_def split: if_splits)
  qed
  then show ?thesis
    using receive_typed [of K message_default "fst ?p" c] handle_message_typed [of K] assms(2) by (metis prod.collapse)
qed

lemma wait_loop_typed:
  assumes "wait_loop K timeout s = Some s'"
  shows "client_typed (snd s) \<longrightarrow> client_typed (snd s')"
proof (rule wait_loop.raw_induct [where P = "\<lambda>K timeout s s'. client_typed (snd s) \<longrightarrow> client_typed (snd s')", OF _ assms])
  fix f :: "'a kernel_api \<Rightarrow> u32 \<Rightarrow> 'a \<times> client \<Rightarrow> ('a \<times> client) option" and K timeout s s'
  assume IH: "\<And>K timeout s s'. f K timeout s = Some s' \<Longrightarrow> client_typed (snd s) \<longrightarrow> client_typed (snd s')"
    and eq: "Option.bind (wait_round K timeout s) (\<lambda>(s, next). case next of None \<Rightarrow> Some s | Some timeout \<Rightarrow> f K timeout s) = Some s'"
  obtain s1 nxt where r: "wait_round K timeout s = Some (s1, nxt)" using eq by (auto simp: bind_eq_Some_conv)
  then have "client_typed (snd s) \<longrightarrow> client_typed (snd s1)"
    using wait_round_typed [of K timeout "fst s" "snd s" "fst s1" "snd s1" nxt] by simp
  then show "client_typed (snd s) \<longrightarrow> client_typed (snd s')"
    using eq r IH [of K _ s1 s'] by (cases nxt) auto
qed

lemma client_turn_typed:
  assumes "client_turn K (k, c) = Some (k', c')" and "client_typed c"
  shows "client_typed c'"
proof -
  obtain k1 c1 where s1: "run_state K (k, c) = Some (k1, c1)" "waitAndReceive K (k1, c1) = Some (k', c')"
    using assms(1) by (auto simp: client_turn_def bind_eq_Some_conv)
  have req: "client_typed x" if "sendDhcpRequest K d (k0, c) = Some (k2, x)" for d k0 k2 x
    using send_typed [of K d k0 c "(k2, x)"] that assms(2) by simp
  have dis: "client_typed x" if "sendDhcpDiscover K (k, c) = Some (k2, x)" for k2 x
    using send_typed [of K 0 k c "(k2, x)"] that assms(2) by simp
  have "client_typed c1"
    using s1(1) assms(2) unfolding run_state_def prod.case
    by (cases "mState c") (auto simp: case_prod_beta split: if_splits dest: req dis)
  moreover have "client_typed c1 \<Longrightarrow> client_typed c'"
  proof (cases "mNextTimeout c1 = kNoTimeout")
    case False
    obtain s2 t where t: "calculateTimeoutMillis K (k1, c1) = (s2, t)" by (cases "calculateTimeoutMillis K (k1, c1)")
    then have "snd s2 = c1" by (auto simp: calculateTimeoutMillis_def split: if_splits prod.splits)
    then show "client_typed c1 \<Longrightarrow> client_typed c'"
      using wait_loop_typed [of K t s2 "(k', c')"] s1(2) False t by (simp add: waitAndReceive_def)
  qed (use s1(2) in \<open>simp add: waitAndReceive_def\<close>)
  ultimately show ?thesis by blast
qed

lemma client_turns_typed:
  "client_typed c \<Longrightarrow> client_turns n K (k, c) = Some s \<Longrightarrow> client_typed (snd s)"
proof (induction n arbitrary: k c)
  case (Suc n)
  then obtain s1 where "client_turn K (k, c) = Some s1" "client_turns n K s1 = Some s"
    by (auto simp: bind_eq_Some_conv)
  moreover from this have "client_typed (snd s1)" using client_turn_typed [of K k c "fst s1" "snd s1"] Suc.prems(1) by simp
  ultimately show ?case using Suc.IH [of "snd s1" "fst s1"] by simp
qed auto



section \<open>Finitely many wake-ups\<close>

text \<open>
  A budget of wake-ups: a poll that is woken uses some of it, and between two timeouts nothing but the
  sending of a datagram gives new budget. So the budget bounds the wake-ups of each wait, not of the run.
\<close>

definition finitely_woken :: "'k kernel_api \<Rightarrow> ('k \<Rightarrow> nat) \<Rightarrow> bool" where
  "finitely_woken K w \<longleftrightarrow>
     (\<forall>c k k'. system_call K c k k' \<longrightarrow> (\<forall>fd. c \<noteq> Sent_Datagram fd \<and> c \<noteq> Polled fd) \<longrightarrow> w k' \<le> w k) \<and>
     (\<forall>k fd ts. snd (k_ppoll K k fd ts) \<noteq> 0 \<longrightarrow> w (fst (k_ppoll K k fd ts)) < w k)"

lemma reply_calls_quiet: "c \<in> reply_calls cl \<Longrightarrow> \<forall>fd. c \<noteq> Sent_Datagram fd \<and> c \<noteq> Polled fd"
  by (auto simp: reply_calls_def network_calls_def interface_calls_def split: if_splits)

lemma woken_via: "finitely_woken K w \<Longrightarrow> via K (reply_calls c) k k' \<Longrightarrow> w k' \<le> w k"
proof -
  assume w: "finitely_woken K w" and v: "via K (reply_calls c) k k'"
  from v show "w k' \<le> w k"
  proof (rule via_keeps [where P = "\<lambda>x. w x \<le> w k"])
    fix cl k1 k2 assume "cl \<in> reply_calls c" "system_call K cl k1 k2" "w k1 \<le> w k"
    then show "w k2 \<le> w k" using w reply_calls_quiet unfolding finitely_woken_def by (meson le_trans)
  qed simp
qed

lemma wait_round_woken:
  assumes "finitely_woken K w" and "wait_round K timeout s = Some (s', Some t)"
  shows "w (fst s') < w (fst s)"
proof -
  let ?p = "round_poll K timeout s"
  have p: "snd ?p \<noteq> 0" and f: "framed K (reply_calls (snd s)) (fst ?p, snd s) s'"
    using wait_round_parts [OF assms(2)] by auto
  have "w (fst (now K (fst s))) \<le> w (fst s)"
    by (rule woken_via [OF assms(1), of "snd s"], rule now_via) (simp_all add: reply_calls_def)
  moreover have "w (fst ?p) < w (fst (now K (fst s)))"
    using assms(1) p unfolding finitely_woken_def round_poll_def by blast
  moreover have "w (fst s') \<le> w (fst ?p)"
    using f woken_via [OF assms(1), of "snd s" "fst ?p" "fst s'"] by (auto simp: framed_def)
  ultimately show ?thesis by linarith
qed

lemma wait_loop_returns:
  assumes "finitely_woken K w" and "short_datagrams K"
  shows "\<exists>s'. wait_loop K timeout s = Some s'"
proof (induction "w (fst s)" arbitrary: timeout s rule: less_induct)
  case less
  have "wait_round K timeout s \<noteq> None" by (rule wait_round_defined [OF assms(2)])
  then obtain s1 nxt where r: "wait_round K timeout s = Some (s1, nxt)" by (cases "wait_round K timeout s") auto
  show ?case
  proof (cases nxt)
    case None
    then show ?thesis by (subst wait_loop.simps) (simp add: r)
  next
    case (Some t)
    from less [OF wait_round_woken [OF assms(1) r [unfolded Some]], of t] show ?thesis
      by (subst wait_loop.simps) (simp add: r Some)
  qed
qed

lemma client_turn_returns:
  assumes "finitely_woken K w" and "short_datagrams K"
  shows "\<exists>s'. client_turn K s = Some s'"
proof -
  obtain k c where s: "s = (k, c)" by (cases s)
  obtain k1 c1 where r: "run_state K s = Some (k1, c1)" using run_state_moves [of K k c] by (auto simp: s)
  obtain s2 t where t: "calculateTimeoutMillis K (k1, c1) = (s2, t)" by (cases "calculateTimeoutMillis K (k1, c1)")
  show ?thesis using wait_loop_returns [OF assms, of t s2] by (simp add: client_turn_def r waitAndReceive_def t)
qed

lemma client_turns_return:
  assumes "finitely_woken K w" and "short_datagrams K"
  shows "\<exists>s'. client_turns n K s = Some s'"
proof (induction n arbitrary: s)
  case (Suc n)
  obtain s1 where "client_turn K s = Some s1" using client_turn_returns [OF assms] by blast
  then show ?case using Suc.IH [of s1] by simp
qed simp

text \<open>
  C11. The client never gets stuck. If each wait is woken only finitely often and no datagram fills the
  receive buffers to the last three bytes, every wait returns and every turn ends: any number of turns can
  be made from any state, without a read outside a message and whatever the datagrams contain.
\<close>

theorem client_never_stuck:
  assumes "finitely_woken K w" and "short_datagrams K"
  shows "\<exists>k' c'. client_turns n K (k, c) = Some (k', c')"
  using client_turns_return [OF assms, of n "(k, c)"] by auto

text \<open>A kernel with a queue of junk datagrams, each of which wakes the client once.\<close>

definition junk_kernel :: "bytes list kernel_api" where
  "junk_kernel = \<lparr>k_socket = \<lambda>k _ _ _. (k, 3), k_close = \<lambda>k _. k, k_bind = \<lambda>k _ _. (k, 0), k_sendto = \<lambda>k _ _ _. (k, 0),
     k_sendmsg = \<lambda>k _ _ _ _. (k, 1), k_recv = \<lambda>k _ n. (k, Some (replicate (n - 3) 7)), k_recvmsg = \<lambda>k _ _. (k, None),
     k_setsockopt = \<lambda>k _ _ _ _. (k, 0), k_get_index = \<lambda>k _ _. (k, Some 2), k_get_hwaddr = \<lambda>k _ _. (k, Some (replicate 14 9)),
     k_get_flags = \<lambda>k _ _. (k, Some 1), k_set_flags = \<lambda>k _ _ _. (k, 0), k_set_mtu = \<lambda>k _ _ _. (k, 0),
     k_property_set = \<lambda>k _ _. (k, 0), k_clock = \<lambda>k. (k, 0, 0), k_random = \<lambda>k. (k, 0),
     k_ppoll = \<lambda>k _ _. case k of [] \<Rightarrow> ([], 0) | _ # rest \<Rightarrow> (rest, 1)\<rparr>"

lemma junk_kernel_laws: "finitely_woken junk_kernel length" "short_datagrams junk_kernel"
proof -
  have "k' = k" if "system_call junk_kernel c k k'" "\<forall>fd. c \<noteq> Sent_Datagram fd \<and> c \<noteq> Polled fd" for c k k'
    using that by (cases rule: system_call.cases) (simp_all add: junk_kernel_def)
  then show "finitely_woken junk_kernel length"
    unfolding finitely_woken_def by (auto simp: junk_kernel_def split: list.split)
  show "short_datagrams junk_kernel" by (simp add: short_datagrams_def junk_kernel_def)
qed

theorem client_never_stuck_witness:
  "\<exists>k' c'. client_turns 30 junk_kernel (replicate 100 [], client_new memory_example 0) = Some (k', c')"
  by (rule client_never_stuck [OF junk_kernel_laws])

end
