(* ===== verification/Dhcp_Expiry.thy ===== *)
theory Dhcp_Expiry
  imports Dhcp_Clock
begin

text \<open>
  The client whose server is gone. The laws of the clock are stated for the system calls; the theorem follows
  the client from the lease it holds to the start, with the time at which it makes each move.
\<close>

section \<open>Laws of time\<close>

text \<open>No call sets the clock back, and the clock's reading is the time at which the reading call ends.\<close>

definition keeps_time :: "'k kernel_api \<Rightarrow> ('k \<Rightarrow> nat) \<Rightarrow> bool" where
  "keeps_time K clk \<longleftrightarrow>
     (\<forall>c k k'. system_call K c k k' \<longrightarrow> clk k \<le> clk k') \<and> (\<forall>k. unat (snd (now K k)) = clk (fst (now K k)))"

text \<open>A poll that times out has lasted as long as it was told to, or to the end of the clock's range.\<close>

definition waits_out :: "'k kernel_api \<Rightarrow> ('k \<Rightarrow> nat) \<Rightarrow> bool" where
  "waits_out K clk \<longleftrightarrow>
     (\<forall>k fd sec nsec. snd (k_ppoll K k fd (sec, nsec)) = 0 \<longrightarrow>
        min (2 ^ 64 - 1) (clk k + (1000 * unat sec + unat nsec div 1000000)) \<le> clk (fst (k_ppoll K k fd (sec, nsec))))"

definition small_random :: "'k kernel_api \<Rightarrow> bool" where
  "small_random K \<longleftrightarrow> (\<forall>k. \<bar>snd (k_random K k)\<bar> \<le> kTimeoutSpan)"

lemma time_via: "keeps_time K clk \<Longrightarrow> via K A k k' \<Longrightarrow> clk k \<le> clk k'"
proof -
  assume t: "keeps_time K clk" and v: "via K A k k'"
  from v show "clk k \<le> clk k'"
    by (rule via_keeps [where P = "\<lambda>x. clk k \<le> clk x"]) (use t in \<open>auto simp: keeps_time_def intro: le_trans\<close>)
qed

lemma now_time:
  assumes "keeps_time K clk" and "now K k = (k', t)"
  shows "unat t = clk k'" and "clk k \<le> clk k'"
proof -
  show "unat t = clk k'" using assms unfolding keeps_time_def by (metis fst_conv snd_conv)
  show "clk k \<le> clk k'"
    using time_via [OF assms(1), of "{Clock_Read}"] now_via [of K "{Clock_Read}" k k] assms(2) by simp
qed

lemma clk_max: "keeps_time K clk \<Longrightarrow> clk k \<le> 2 ^ 64 - 1"
proof -
  assume t: "keeps_time K clk"
  obtain k' x where n: "now K k = (k', x)" by (cases "now K k")
  have "unat x \<le> 2 ^ 64 - 1" using unsigned_less [of x, where ?'a = nat] by simp
  then show ?thesis using now_time [OF t n] by linarith
qed

lemma expired_time:
  assumes "keeps_time K clk" and "expired K k e = (k', b)"
  shows "b = (unat e \<le> clk k')" and "clk k \<le> clk k'"
proof -
  obtain k1 t where n: "now K k = (k1, t)" by (cases "now K k")
  then show "b = (unat e \<le> clk k')" "clk k \<le> clk k'"
    using assms(2) now_time [OF assms(1) n] by (auto simp: expired_def word_le_nat_alt)
qed

lemma remaining_time:
  assumes "keeps_time K clk" and "remainingMillis K k e = (k', r)"
  shows "unat r = unat e - clk k'" and "clk k \<le> clk k'"
proof -
  obtain k1 t where n: "now K k = (k1, t)" by (cases "now K k")
  then show "unat r = unat e - clk k'" "clk k \<le> clk k'"
    using assms(2) now_time [OF assms(1) n] by (auto simp: remainingMillis_def word_less_nat_alt unat_sub_if')
qed

section \<open>A wait without an answer\<close>

text \<open>The time a wait lasts at least.\<close>

definition least_wait :: "client \<Rightarrow> nat" where
  "least_wait c = (if mFuzzNextTimeout c then unat (mNextTimeout c) - 1000 else unat (mNextTimeout c))"

lemma timeout_split:
  fixes timeout :: u32
  shows "1000 * unat (ucast (timeout div 1000) :: u64) +
    unat ((ucast timeout - ucast (timeout div 1000) * 1000) * 1000000 :: u64) div 1000000 = unat timeout"
proof -
  let ?n = "unat timeout"
  have b: "?n < 2 ^ 32" using unsigned_less [of timeout, where ?'a = nat] by simp
  have s: "unat (ucast (timeout div 1000) :: u64) = ?n div 1000"
    using b by (simp add: unat_div)
  have t: "unat (ucast timeout :: u64) = ?n" by simp
  have m: "unat (ucast (timeout div 1000) * 1000 :: u64) = ?n div 1000 * 1000"
    using b s by (simp add: unat_word_ariths)
  have d: "unat (ucast timeout - ucast (timeout div 1000) * 1000 :: u64) = ?n mod 1000"
    using m t by (simp add: unat_sub_if' minus_div_mult_eq_mod)
  have "?n mod 1000 * 1000000 < 2 ^ 64" by (rule le_less_trans [of _ "1000 * 1000000"]) (simp_all add: less_imp_le)
  then have "unat ((ucast timeout - ucast (timeout div 1000) * 1000) * 1000000 :: u64) = ?n mod 1000 * 1000000"
    using unat_mult_bounded [of "ucast timeout - ucast (timeout div 1000) * 1000" 1000000, unfolded d] by simp
  then show ?thesis using s by simp
qed

definition time_runs :: "'k kernel_api \<Rightarrow> ('k \<Rightarrow> nat) \<Rightarrow> bool" where
  "time_runs K clk \<longleftrightarrow> keeps_time K clk \<and> waits_out K clk \<and> small_random K"

text \<open>No poll of the next wait is woken; in a silent kernel no poll ever is.\<close>

definition undisturbed :: "'k kernel_api \<Rightarrow> 'k \<Rightarrow> client \<Rightarrow> bool" where
  "undisturbed K k c \<longleftrightarrow>
     (\<forall>k1 c1 t. via K {Clock_Read, Random_Drawn} k k1 \<longrightarrow> same_devices c c1 \<longrightarrow> snd (round_poll K t (k1, c1)) = 0)"

lemma silent_undisturbed: "silent K \<Longrightarrow> undisturbed K k c"
  unfolding undisturbed_def silent_def round_poll_def by blast

lemma undisturbed_via:
  "undisturbed K k c \<Longrightarrow> via K {Clock_Read, Random_Drawn} k k1 \<Longrightarrow> same_devices c c1 \<Longrightarrow> undisturbed K k1 c1"
  unfolding undisturbed_def by (meson via_trans same_devices_trans)

text \<open>The laws of a kernel in which nothing arrives and time passes.\<close>

definition time_passes :: "'k kernel_api \<Rightarrow> ('k \<Rightarrow> nat) \<Rightarrow> bool" where
  "time_passes K clk \<longleftrightarrow> silent K \<and> time_runs K clk"

definition later :: "('k \<Rightarrow> nat) \<Rightarrow> 'k \<Rightarrow> nat \<Rightarrow> 'k \<Rightarrow> bool" where
  "later clk k d k' \<longleftrightarrow> min (2 ^ 64 - 1) (clk k + d) \<le> clk k'"

lemma later_trans: "later clk k d k1 \<Longrightarrow> later clk k1 d' k' \<Longrightarrow> later clk k (d + d') k'"
  by (auto simp: later_def min_def split: if_splits)

lemma later_less: "later clk k d k' \<Longrightarrow> d' \<le> d \<Longrightarrow> later clk k d' k'"
  by (auto simp: later_def min_def split: if_splits)

lemma later_zero: "clk k \<le> clk k' \<Longrightarrow> later clk k 0 k'"
  by (auto simp: later_def)

lemma later_deadline: "later clk k d k' \<Longrightarrow> unat e \<le> clk k + d \<Longrightarrow> unat e \<le> clk k'" for e :: u64
  using unsigned_less [of e, where ?'a = nat] by (auto simp: later_def min_def split: if_splits)

lemma timeout_least:
  assumes "small_random K" and "mFuzzNextTimeout c \<Longrightarrow> unat (mNextTimeout c) \<le> 64000"
    and "calculateTimeoutMillis K (k, c) = ((k', c'), t)"
  shows "c' = c" and "k' = k \<or> k' = fst (k_random K k)" and "least_wait c \<le> unat t"
proof -
  show "c' = c" "k' = k \<or> k' = fst (k_random K k)"
    using assms(3) by (auto simp: calculateTimeoutMillis_def case_prod_beta split: if_splits)
  show "least_wait c \<le> unat t"
  proof (cases "mFuzzNextTimeout c")
    case False
    then show ?thesis using assms(3) by (auto simp: calculateTimeoutMillis_def least_wait_def)
  next
    case True
    obtain k1 a where r: "k_random K k = (k1, a)" by (cases "k_random K k")
    have a: "\<bar>a\<bar> \<le> 1000" using assms(1) r unfolding small_random_def kTimeoutSpan_def by (metis snd_conv)
    note n = assms(2) [OF True]
    show ?thesis
    proof (cases "0 \<le> a")
      case pos: True
      have "unat (word_of_int a :: u32) = nat a" using a pos by (simp add: unsigned_of_int take_bit_int_eq_self)
      then have "unat (mNextTimeout c + word_of_int a) = unat (mNextTimeout c) + nat a"
        using n a by (subst unat_add_lem [THEN iffD1]) simp_all
      then show ?thesis using assms(3) True r pos by (auto simp: calculateTimeoutMillis_def least_wait_def split: if_splits)
    next
      case neg: False
      have u: "unat (word_of_int x :: u32) = nat x" if "0 \<le> x" "x \<le> 1000" for x
        using that by (simp add: unsigned_of_int take_bit_int_eq_self)
      have m: "unat (word_of_int (- a) :: u32) = nat (- a)" using a neg by (intro u) simp_all
      show ?thesis
      proof (cases "mNextTimeout c < word_of_int (- a)")
        case True
        then have "unat (mNextTimeout c) < nat (- a)" unfolding word_less_nat_alt m .
        then show ?thesis using a \<open>mFuzzNextTimeout c\<close> by (simp add: least_wait_def)
      next
        case False
        then have "nat (- a) \<le> unat (mNextTimeout c)" unfolding word_less_nat_alt m by simp
        then have "unat (mNextTimeout c + word_of_int a) = unat (mNextTimeout c) - nat (- a)"
          using unat_sub_if' [of "mNextTimeout c" "word_of_int (- a)", unfolded m] by simp
        then show ?thesis using assms(3) True r a neg False
          by (auto simp: calculateTimeoutMillis_def least_wait_def split: if_splits)
      qed
    qed
  qed
qed

lemma unwoken_round:
  assumes "snd (round_poll K t (k, c)) = 0"
  shows "wait_loop K t (k, c) = Some (fst (round_poll K t (k, c)), c)"
proof -
  have "wait_round K t (k, c) = Some ((fst (round_poll K t (k, c)), c), None)"
    using assms by (simp add: wait_round_def Let_def case_prod_beta round_poll_def)
  then show ?thesis by (simp add: wait_loop.simps [of K t])
qed

lemma silent_round: "silent K \<Longrightarrow> wait_loop K t (k, c) = Some (fst (round_poll K t (k, c)), c)"
  by (rule unwoken_round) (simp add: silent_def round_poll_def)

lemma undisturbed_wait:
  assumes "time_runs K clk" and "undisturbed K k c" and "mFuzzNextTimeout c \<Longrightarrow> unat (mNextTimeout c) \<le> 64000"
  shows "\<exists>k'. waitAndReceive K (k, c) = Some (k', c) \<and> later clk k (least_wait c) k'"
proof (cases "mNextTimeout c = kNoTimeout")
  case True
  then show ?thesis by (simp add: waitAndReceive_def later_def least_wait_def kNoTimeout_def)
next
  case False
  have laws: "keeps_time K clk" "waits_out K clk" "small_random K" using assms(1) by (simp_all add: time_runs_def)
  obtain k1 c1 t where t: "calculateTimeoutMillis K (k, c) = ((k1, c1), t)" by (metis prod.exhaust)
  note tl = timeout_least [OF laws(3) assms(3) t]
  have v1: "via K {Clock_Read, Random_Drawn} k k1" using tl(2) by (auto intro: via_calls)
  let ?p = "round_poll K t (k1, c)"
  have n: "clk k \<le> clk (fst (now K k1))" by (intro time_via [OF laws(1) now_via [OF v1]]) simp
  have z: "snd ?p = 0" using assms(2) v1 unfolding undisturbed_def by blast
  have "min (2 ^ 64 - 1) (clk (fst (now K k1)) + unat t) \<le> clk (fst ?p)"
    using laws(2) z timeout_split [of t] unfolding waits_out_def round_poll_def fst_conv snd_conv by metis
  then have "later clk k (least_wait c) (fst ?p)"
    using n tl(3) by (auto simp: later_def min_def split: if_splits)
  moreover have "waitAndReceive K (k, c) = Some (fst ?p, c)"
    using False t tl(1) unwoken_round [OF z] by (simp add: waitAndReceive_def)
  ultimately show ?thesis by blast
qed

lemma silent_wait_framed:
  assumes "silent K" and "waitAndReceive K s = Some s'"
  shows "framed K (quiet_calls (snd s)) s s'"
proof (cases "mNextTimeout (snd s) = kNoTimeout")
  case True
  then show ?thesis using assms(2) by (simp add: waitAndReceive_def)
next
  case False
  obtain k c where s: "s = (k, c)" by (cases s)
  obtain k1 c1 t where t: "calculateTimeoutMillis K s = ((k1, c1), t)" by (metis prod.exhaust)
  then have c1: "c1 = c" "k1 = k \<or> k1 = fst (k_random K k)"
    by (auto simp: s calculateTimeoutMillis_def case_prod_beta split: if_splits)
  have q: "Clock_Read \<in> quiet_calls c" "Random_Drawn \<in> quiet_calls c" "Polled (mSocket c) \<in> quiet_calls c"
    by (simp_all add: quiet_calls_def)
  have v1: "via K (quiet_calls c) k k1" using c1(2) q by (auto intro: via_calls)
  have "s' = (fst (round_poll K t (k1, c)), c)"
    using assms(2) False t silent_round [OF assms(1)] c1(1) by (simp add: waitAndReceive_def)
  moreover have "via K (quiet_calls c) k (fst (round_poll K t (k1, c)))"
    unfolding round_poll_def fst_conv snd_conv by (intro via_calls now_via v1 q)
  ultimately show ?thesis by (simp add: s framed_def)
qed

lemma silent_turn_framed:
  assumes "silent K" and "client_turn K s = Some s'"
  shows "framed K (quiet_calls (snd s)) s s'"
proof -
  obtain s1 where s1: "run_state K s = Some s1" "waitAndReceive K s1 = Some s'"
    using assms(2) by (auto simp: client_turn_def bind_eq_Some_conv)
  note f = run_state_framed [OF s1(1)]
  have "framed K (quiet_calls (snd s)) s1 s'" using silent_wait_framed [OF assms(1) s1(2)] framed_network [OF f] by simp
  with f show ?thesis by (rule framed_trans)
qed

lemma silent_turns_framed:
  assumes "silent K"
  shows "client_turns n K s = Some s' \<Longrightarrow> framed K (quiet_calls (snd s)) s s'"
proof (induction n arbitrary: s)
  case (Suc n)
  then obtain s1 where s1: "client_turn K s = Some s1" "client_turns n K s1 = Some s'" by (auto simp: bind_eq_Some_conv)
  note f = silent_turn_framed [OF assms s1(1)]
  have "framed K (quiet_calls (snd s)) s1 s'" using Suc.IH [OF s1(2)] framed_network [OF f] by simp
  with f show ?case by (rule framed_trans)
qed simp

section \<open>From the lease to the start\<close>

text \<open>Evaluating the state and waiting, with the time of the wait.\<close>

lemma timed_turn:
  assumes "time_runs K clk" and "run_state K (k, c) = Some (k1, c1)" and "undisturbed K k1 c1" and "mFuzzNextTimeout c1 \<Longrightarrow> unat (mNextTimeout c1) \<le> 64000"
  shows "\<exists>k'. client_turn K (k, c) = Some (k', c1) \<and> clk k \<le> clk k1 \<and> later clk k1 (least_wait c1) k'"
proof -
  have "clk k \<le> clk k1"
    using time_via [of K clk] run_state_framed [OF assms(2)] assms(1) by (auto simp: framed_def time_runs_def)
  then show ?thesis using undisturbed_wait [OF assms(1,3,4)] assms(2) by (auto simp: client_turn_def)
qed

text \<open>A move is evaluated without a wait.\<close>

lemma move_turn: "run_state K s = Some (k1, setNextState st c) \<Longrightarrow> client_turn K s = Some (k1, setNextState st c)"
  by (simp add: client_turn_def waitAndReceive_def)

lemma bound_turn:
  assumes tp: "time_runs K clk" and "mState c = Bound" and t1: "unat (mT1 c) < clk k + 2 ^ 32" and und: "undisturbed K k c"
  shows "\<exists>k' c'. client_turn K (k, c) = Some (k', c') \<and> clk k \<le> clk k' \<and> unat (mT1 c) \<le> clk k' \<and>
    (c' = setNextState Renewing c \<or> (\<exists>t. c' = c\<lparr>mNextTimeout := t, mFuzzNextTimeout := False\<rparr>))"
proof -
  have kt: "keeps_time K clk" using tp by (simp add: time_runs_def)
  obtain k1 b where e: "expired K k (mT1 c) = (k1, b)" by (cases "expired K k (mT1 c)")
  note et = expired_time [OF kt e]
  show ?thesis
  proof (cases b)
    case True
    then have "run_state K (k, c) = Some (k1, setNextState Renewing c)" using assms(2) e by (simp add: run_state_def)
    from move_turn [OF this] True et show ?thesis by auto
  next
    case False
    obtain k2 r where r: "remainingMillis K k1 (mT1 c) = (k2, r)" by (cases "remainingMillis K k1 (mT1 c)")
    note rt = remaining_time [OF kt r]
    let ?c = "c\<lparr>mNextTimeout := ucast r, mFuzzNextTimeout := False\<rparr>"
    have u: "unat (ucast r :: u32) = unat (mT1 c) - clk k2"
      using t1 rt et by (subst unat_ucast_32) simp_all
    have "run_state K (k, c) = Some (k2, ?c)" using assms(2) e r False by (simp add: run_state_def)
    moreover have "undisturbed K k2 ?c"
    proof (rule undisturbed_via [OF und])
      have "k2 = fst (remainingMillis K (fst (expired K k (mT1 c))) (mT1 c))" using e r by simp
      then show "via K {Clock_Read, Random_Drawn} k k2" by (auto intro: timer_via)
    qed (simp add: same_devices_def)
    ultimately obtain k' where k': "client_turn K (k, c) = Some (k', ?c)" "clk k \<le> clk k2"
      "later clk k2 (unat (mT1 c) - clk k2) k'"
      using timed_turn [OF tp, of k c k2 ?c] by (auto simp: least_wait_def u)
    have "unat (mT1 c) \<le> clk k'" by (rule later_deadline [OF k'(3)]) simp
    moreover have "clk k2 \<le> clk k'" using k'(3) clk_max [OF kt, of k2] by (auto simp: later_def min_def split: if_splits)
    ultimately show ?thesis using k' by (intro exI conjI) (auto intro: le_trans)
  qed
qed

text \<open>A client that holds a lease leaves the bound state in two turns at most.\<close>

lemma bound_phase:
  assumes tp: "time_runs K clk" and b: "mState c = Bound" and t1: "unat (mT1 c) < clk k + 2 ^ 32" and und: "undisturbed K k c"
  shows "\<exists>i k' c'. i \<le> 2 \<and> client_turns i K (k, c) = Some (k', c') \<and> clk k \<le> clk k' \<and> unat (mT1 c) \<le> clk k' \<and>
    mState c' = Renewing \<and> mNextTimeout c' = kNoTimeout \<and> mFuzzNextTimeout c' \<and> mT2 c' = mT2 c"
proof -
  have kt: "keeps_time K clk" using tp by (simp add: time_runs_def)
  obtain k1 c1 where c1: "client_turn K (k, c) = Some (k1, c1)" "clk k \<le> clk k1" "unat (mT1 c) \<le> clk k1"
    "c1 = setNextState Renewing c \<or> (\<exists>t. c1 = c\<lparr>mNextTimeout := t, mFuzzNextTimeout := False\<rparr>)"
    using bound_turn [OF assms] by blast
  from c1(4) show ?thesis
  proof
    assume "c1 = setNextState Renewing c"
    then show ?thesis using c1(1-3) by (intro exI [of _ 1] exI [of _ k1] exI [of _ c1]) (simp add: setNextState_def)
  next
    assume "\<exists>t. c1 = c\<lparr>mNextTimeout := t, mFuzzNextTimeout := False\<rparr>"
    then have m: "mState c1 = Bound" "mT1 c1 = mT1 c" "mT2 c1 = mT2 c" using b by auto
    obtain k2 e where e: "expired K k1 (mT1 c) = (k2, e)" by (cases "expired K k1 (mT1 c)")
    note et = expired_time [OF kt e]
    have "run_state K (k1, c1) = Some (k2, setNextState Renewing c1)" using m e et c1(3) by (simp add: run_state_def)
    from move_turn [OF this] have "client_turns 2 K (k, c) = Some (k2, setNextState Renewing c1)"
      using c1(1) by (simp add: numeral_2_eq_2)
    then show ?thesis using et c1(2,3) m
      by (intro exI [of _ 2] exI [of _ k2] exI [of _ "setNextState Renewing c1"]) (simp add: setNextState_def)
  qed
qed

text \<open>A client in the renewing state with a retry timeout.\<close>

definition renews :: "client \<Rightarrow> client \<Rightarrow> bool" where
  "renews c c' \<longleftrightarrow> mState c' = Renewing \<and> mT2 c' = mT2 c \<and> mFuzzNextTimeout c' \<and> (\<exists>n. unat (mNextTimeout c') = retry_timeout n)"

lemma renewing_turn:
  assumes tp: "time_passes K clk" and r: "renews c0 c"
  shows "\<exists>k' c'. client_turn K (k, c) = Some (k', c') \<and> clk k \<le> clk k' \<and>
    (c' = setNextState Rebinding c \<and> unat (mT2 c) \<le> clk k' \<or> renews c0 c' \<and> later clk k 3000 k')"
proof -
  have kt: "keeps_time K clk" using tp by (simp add: time_passes_def time_runs_def)
  have st: "mState c = Renewing" using r by (simp add: renews_def)
  obtain k1 b where e: "expired K k (mT2 c) = (k1, b)" by (cases "expired K k (mT2 c)")
  note et = expired_time [OF kt e]
  show ?thesis
  proof (cases b)
    case True
    then have "run_state K (k, c) = Some (k1, setNextState Rebinding c)" using st e by (simp add: run_state_def)
    from move_turn [OF this] True et show ?thesis by auto
  next
    case False
    obtain k2 m where s: "sendDhcpRequest K (mServerAddress c) (k1, c) =
        Some (k2, c\<lparr>mLastMsg := m, sNextTransactionId := sNextTransactionId c + 1\<rparr>)"
      using send_total(1) [of K "mServerAddress c" k1 c] by blast
    let ?d = "c\<lparr>mLastMsg := m, sNextTransactionId := sNextTransactionId c + 1\<rparr>"
    let ?c = "increaseTimeout ?d"
    have rs: "run_state K (k, c) = Some (k2, ?c)" using st e s False by (simp add: run_state_def)
    obtain n where n: "unat (mNextTimeout ?d) = retry_timeout n" using r by (auto simp: renews_def)
    have nt: "unat (mNextTimeout ?c) = retry_timeout (Suc n)" by (rule increase_retry [OF n])
    then have b: "4000 \<le> unat (mNextTimeout ?c)" "unat (mNextTimeout ?c) \<le> 64000"
      using retry_timeout_bounds [of "Suc n"] by auto
    have f: "mFuzzNextTimeout ?c" using r by (simp add: renews_def increaseTimeout_def Let_def)
    obtain k' where k': "client_turn K (k, c) = Some (k', ?c)" "clk k \<le> clk k2" "later clk k2 (least_wait ?c) k'"
      using timed_turn [OF _ rs silent_undisturbed] tp b(2) by (auto simp: time_passes_def)
    have "3000 \<le> least_wait ?c" using b f by (simp add: least_wait_def)
    then have l: "later clk k 3000 k'"
      using later_trans [OF later_zero [of clk k k2] later_less [of clk k2 _ k' 3000]] k' by simp
    moreover have "mState ?c = Renewing" "mT2 ?c = mT2 c0" using r by (simp_all add: renews_def increaseTimeout_def Let_def)
    then have "renews c0 ?c" using nt f unfolding renews_def by blast
    moreover have "clk k \<le> clk k'" using l clk_max [OF kt, of k] by (auto simp: later_def min_def split: if_splits)
    ultimately show ?thesis using k'(1) by blast
  qed
qed

text \<open>The requests of the renewing state, one every three seconds at most, until T2 has passed.\<close>

lemma renewing_phase:
  assumes tp: "time_passes K clk"
  shows "renews c0 c \<Longrightarrow> \<exists>j k' c'. j \<le> (unat (mT2 c0) - clk k) div 3000 + 2 \<and> client_turns j K (k, c) = Some (k', c') \<and> clk k \<le> clk k' \<and>
    unat (mT2 c0) \<le> clk k' \<and> mState c' = Rebinding \<and> mNextTimeout c' = kNoTimeout \<and> mFuzzNextTimeout c'"
proof (induction "unat (mT2 c0) - clk k" arbitrary: k c rule: less_induct)
  case less
  have t2: "mT2 c = mT2 c0" using less.prems by (simp add: renews_def)
  obtain k1 c1 where c1: "client_turn K (k, c) = Some (k1, c1)" "clk k \<le> clk k1"
    "c1 = setNextState Rebinding c \<and> unat (mT2 c) \<le> clk k1 \<or> renews c0 c1 \<and> later clk k 3000 k1"
    using renewing_turn [OF tp less.prems, of k] by blast
  from c1(3) show ?case
  proof
    assume "c1 = setNextState Rebinding c \<and> unat (mT2 c) \<le> clk k1"
    then show ?thesis using c1(1,2) t2 by (intro exI [of _ 1] exI [of _ k1] exI [of _ c1]) simp
  next
    assume r: "renews c0 c1 \<and> later clk k 3000 k1"
    show ?thesis
    proof (cases "unat (mT2 c0) \<le> clk k1")
      case True
      obtain k2 e where e: "expired K k1 (mT2 c0) = (k2, e)" by (cases "expired K k1 (mT2 c0)")
      note et = expired_time [OF _ e, of clk]
      have kt: "keeps_time K clk" using tp by (simp add: time_passes_def time_runs_def)
      have "run_state K (k1, c1) = Some (k2, setNextState Rebinding c1)"
        using r e et [OF kt] True by (simp add: run_state_def renews_def)
      from move_turn [OF this] have "client_turns 2 K (k, c) = Some (k2, setNextState Rebinding c1)"
        using c1(1) by (simp add: numeral_2_eq_2)
      then show ?thesis using et [OF kt] True c1(2)
        by (intro exI [of _ 2] exI [of _ k2] exI [of _ "setNextState Rebinding c1"]) simp
    next
      case False
      then have adv: "clk k + 3000 \<le> clk k1"
        using r unsigned_less [of "mT2 c0", where ?'a = nat] by (auto simp: later_def min_def split: if_splits)
      then have d: "unat (mT2 c0) - clk k1 < unat (mT2 c0) - clk k" using False by linarith
      obtain j k' c' where j: "j \<le> (unat (mT2 c0) - clk k1) div 3000 + 2" "client_turns j K (k1, c1) = Some (k', c')"
        "clk k1 \<le> clk k'" "unat (mT2 c0) \<le> clk k'" "mState c' = Rebinding" "mNextTimeout c' = kNoTimeout" "mFuzzNextTimeout c'"
        using less.hyps [OF d] r by blast
      have "(unat (mT2 c0) - clk k1) div 3000 + 1 = (unat (mT2 c0) - clk k1 + 3000) div 3000" by simp
      also have "\<dots> \<le> (unat (mT2 c0) - clk k) div 3000" using adv False by (intro div_le_mono) linarith
      finally have "Suc j \<le> (unat (mT2 c0) - clk k) div 3000 + 2" using j(1) by linarith
      moreover have "client_turns (Suc j) K (k, c) = Some (k', c')" using c1(1) j(2) by simp
      ultimately show ?thesis using j(3-) c1(2) by (intro exI [of _ "Suc j"] exI [of _ k'] exI [of _ c']) simp
    qed
  qed
qed

lemma rebinding_phase:
  assumes "silent K" and "mState c = Rebinding" and "mNextTimeout c = kNoTimeout"
  shows "\<exists>k' c'. client_turns 6 K (k, c) = Some (k', c') \<and> mState c' = Init"
proof -
  obtain k5 c5 where c5: "client_turns 5 K (k, c) = Some (k5, c5)" "mState c5 = Rebinding" "unat (mNextTimeout c5) = retry_timeout 5"
    using silent_turns [OF assms(1,3), of 5 k] assms(2) by auto
  have "retry_timeout 5 = 64000" using retry_timeout.simps(2) [of 4] by simp
  then have "kMaxTimeout \<le> mNextTimeout c5" using c5(3) by (simp add: word_le_nat_alt kMaxTimeout_def)
  then have "run_state K (k5, c5) = Some (k5, setNextState Init c5)" using c5(2) by (simp add: run_state_def)
  from move_turn [OF this] have "client_turns 6 K (k, c) = Some (k5, setNextState Init c5)"
    using client_turns_Suc [of 5 K "(k, c)"] c5(1) by simp
  then show ?thesis using setNextState_fields(1) by blast
qed

lemma client_turns_add: "client_turns m K s = Some s1 \<Longrightarrow> client_turns (m + n) K s = client_turns n K s1"
  by (induction m arbitrary: s) (auto simp: bind_eq_Some_conv)

text \<open>
  C10. The way of a client whose server is gone. While no datagram arrives and time passes as the clock and
  the polls say, a client that holds a lease leaves the bound state within two turns, not before T1;
  asks for a renewal at most once every three seconds and goes on to rebinding not before T2 and within a bounded
  number of turns; and six turns later is back at the start. On the whole way it makes no call that
  changes the network: the address stays configured on the interface, although the lease ends.
\<close>

theorem lost_server_restarts:
  assumes "time_passes K clk" and "mState c = Bound" and "unat (mT1 c) < clk k + 2 ^ 32"
  shows "\<exists>i j k1 c1 k2 c2 k3 c3. i \<le> 2 \<and> j \<le> (unat (mT2 c) - clk k) div 3000 + 2 \<and>
    client_turns i K (k, c) = Some (k1, c1) \<and> mState c1 = Renewing \<and> unat (mT1 c) \<le> clk k1 \<and>
    client_turns (i + j) K (k, c) = Some (k2, c2) \<and> mState c2 = Rebinding \<and> unat (mT2 c) \<le> clk k2 \<and>
    client_turns (i + j + 6) K (k, c) = Some (k3, c3) \<and> mState c3 = Init \<and> via K (quiet_calls c) k k3"
proof -
  have sil: "silent K" and tr: "time_runs K clk" using assms(1) by (simp_all add: time_passes_def)
  obtain i k1 c1 where c1: "i \<le> 2" "client_turns i K (k, c) = Some (k1, c1)" "clk k \<le> clk k1" "unat (mT1 c) \<le> clk k1"
    "mState c1 = Renewing" "mNextTimeout c1 = kNoTimeout" "mFuzzNextTimeout c1" "mT2 c1 = mT2 c"
    using bound_phase [OF tr assms(2,3) silent_undisturbed [OF sil]] by blast
  have "unat (mNextTimeout c1) = retry_timeout 0" using c1(6) by (simp add: kNoTimeout_def)
  then have "renews c c1" using c1(5,7,8) unfolding renews_def by blast
  from renewing_phase [OF assms(1) this, of k1] obtain j k2 c2 where c2: "j \<le> (unat (mT2 c) - clk k1) div 3000 + 2"
    "client_turns j K (k1, c1) = Some (k2, c2)" "unat (mT2 c) \<le> clk k2" "mState c2 = Rebinding" "mNextTimeout c2 = kNoTimeout"
    by blast
  obtain k3 c3 where c3: "client_turns 6 K (k2, c2) = Some (k3, c3)" "mState c3 = Init"
    using rebinding_phase [OF sil c2(4,5)] by blast
  have "(unat (mT2 c) - clk k1) div 3000 \<le> (unat (mT2 c) - clk k) div 3000" using c1(3) by (intro div_le_mono) simp
  then have j: "j \<le> (unat (mT2 c) - clk k) div 3000 + 2" using c2(1) by linarith
  have t2: "client_turns (i + j) K (k, c) = Some (k2, c2)" using client_turns_add [OF c1(2)] c2(2) by simp
  have t3: "client_turns (i + j + 6) K (k, c) = Some (k3, c3)" using client_turns_add [OF t2] c3(1) by simp
  have "via K (quiet_calls c) k k3" using silent_turns_framed [OF sil t3] by (simp add: framed_def)
  then show ?thesis using c1(1,2,4,5) j t2 c2(3,4) t3 c3(2) by blast
qed

text \<open>A kernel that is only a clock, in milliseconds up to the end of its range.\<close>

definition clock_kernel :: "u64 kernel_api" where
  "clock_kernel = \<lparr>k_socket = \<lambda>k _ _ _. (k, 3), k_close = \<lambda>k _. k, k_bind = \<lambda>k _ _. (k, 0), k_sendto = \<lambda>k _ _ _. (k, 0),
     k_sendmsg = \<lambda>k _ _ _ _. (k, 1), k_recv = \<lambda>k _ n. (k, None), k_recvmsg = \<lambda>k _ _. (k, None),
     k_setsockopt = \<lambda>k _ _ _ _. (k, 0), k_get_index = \<lambda>k _ _. (k, Some 2), k_get_hwaddr = \<lambda>k _ _. (k, Some (replicate 14 9)),
     k_get_flags = \<lambda>k _ _. (k, Some 1), k_set_flags = \<lambda>k _ _ _. (k, 0), k_set_mtu = \<lambda>k _ _ _. (k, 0),
     k_property_set = \<lambda>k _ _. (k, 0),
     k_clock = \<lambda>k. (k, int (unat k div 1000), int (unat k mod 1000 * 1000000)), k_random = \<lambda>k. (k, -7),
     k_ppoll = \<lambda>k _ ts. (of_nat (min (2 ^ 64 - 1) (unat k + (1000 * unat (fst ts) + unat (snd ts) div 1000000))), 0)\<rparr>"

lemma clock_kernel_poll:
  "unat (fst (k_ppoll clock_kernel k fd (sec, nsec))) = min (2 ^ 64 - 1) (unat k + (1000 * unat sec + unat nsec div 1000000))"
proof -
  have "unat (of_nat m :: u64) = m" if "m \<le> 2 ^ 64 - 1" for m
    using that by (simp add: unsigned_of_nat take_bit_nat_eq_self)
  then show ?thesis by (simp add: clock_kernel_def)
qed

lemma clock_kernel_laws: "time_passes clock_kernel unat"
proof -
  have d: "c_div (int m * 1000000) 1000000 = int m" for m
    by (subst c_div_nonneg) simp_all
  have "snd (now clock_kernel k) = of_nat (unat k div 1000 * 1000 + unat k mod 1000)" for k
    by (simp only: now_def clock_kernel_def kernel_api.simps prod.case d snd_conv of_nat_add of_nat_mult of_nat_numeral of_int_of_nat_eq)
  then have now: "snd (now clock_kernel k) = k \<and> fst (now clock_kernel k) = k" for k
    by (simp add: now_def clock_kernel_def)
  have "unat k \<le> unat k'" if "system_call clock_kernel c k k'" for c k k'
    using that
  proof (cases rule: system_call.cases)
    case (ppoll fd ts r)
    then have "unat k' = min (2 ^ 64 - 1) (unat k + (1000 * unat (fst ts) + unat (snd ts) div 1000000))"
      using clock_kernel_poll [of k fd "fst ts" "snd ts"] by simp
    then show ?thesis using unsigned_less [of k, where ?'a = nat] by simp
  qed (simp_all add: clock_kernel_def)
  then have "keeps_time clock_kernel unat" using now by (simp add: keeps_time_def)
  moreover have "waits_out clock_kernel unat" unfolding waits_out_def clock_kernel_poll by simp
  moreover have "silent clock_kernel" "small_random clock_kernel"
    by (simp_all add: silent_def small_random_def clock_kernel_def kTimeoutSpan_def)
  ultimately show ?thesis by (simp add: time_passes_def time_runs_def)
qed

definition bound_example :: client where
  "bound_example = setNextState Bound (memory_example\<lparr>mT1 := 300000, mT2 := 525000\<rparr>)"

theorem lost_server_restarts_witness:
  "\<exists>n k' c'. n \<le> 185 \<and> client_turns n clock_kernel (0, bound_example) = Some (k', c') \<and> mState c' = Init"
proof -
  have b: "mState bound_example = Bound" "mT1 bound_example = 300000" "mT2 bound_example = 525000"
    by (simp_all add: bound_example_def setNextState_def)
  obtain i j k3 c3 where "i \<le> 2" "j \<le> (unat (525000 :: u64) - unat (0 :: u64)) div 3000 + 2"
    "client_turns (i + j + 6) clock_kernel (0, bound_example) = Some (k3, c3)" "mState c3 = Init"
    using lost_server_restarts [OF clock_kernel_laws b(1), of 0] unfolding b by auto
  then show ?thesis by (intro exI [of _ "i + j + 6"] exI [of _ k3] exI [of _ c3]) simp
qed

end
