(* ===== verification/Dhcp_Network.thy ===== *)
theory Dhcp_Network
  imports Dhcp_Expiry
begin

text \<open>
  The client together with a server. What the client needs of the network is the contract of the locale
  \<open>served_client\<close>: a queue of datagrams for its socket, to which a server adds its answers. The exchanges of
  the client are lemmas of the locale; from them follow the handshake, from the start to the bound
  state, and that a client with a server keeps its lease. The contract is met by a network built from the
  repository's own \<open>offer\<close> and \<open>ack\<close>.
\<close>

section \<open>Answers\<close>

text \<open>What a server offers: its own address, the client's, and what the client reads from its options.\<close>

record lease_terms =
  lt_server :: u32
  lt_address :: u32
  lt_info :: dhcp_info

text \<open>A datagram with an answer of the given type to the message \<open>m\<close>.\<close>

definition replies :: "lease_terms \<Rightarrow> u8 \<Rightarrow> message \<Rightarrow> bytes \<Rightarrow> bool" where
  "replies L t m dg \<longleftrightarrow>
     (\<exists>d os dat. dhcp_wf d \<and> options_ok os \<and> message_bytes (built d (options_area os)) = Some dat \<and>
        dg = datagram (lt_server L) (built d (options_area os)) dat \<and>
        dh_op d = OP_BOOTREPLY \<and> dh_htype d = HTYPE_ETHER \<and> dh_hlen d = of_nat ETH_ALEN \<and>
        dh_xid d = dh_xid (dhcpData m) \<and> dh_yiaddr d = lt_address L \<and>
        map_of os OPT_MESSAGE_TYPE = Some [t] \<and> map_of os OPT_SERVER_ID = Some (enc32 (lt_server L)) \<and>
        fold store_option os info_zero = lt_info L)"

text \<open>The parts of the datagram in which the client sends a message.\<close>

definition sent_parts :: "message \<Rightarrow> bytes \<Rightarrow> bytes list" where
  "sent_parts m dat =
     [ip_bytes (raw_ip 0 0xFFFFFFFF (mSize m)), udp_bytes (raw_udp 0 PORT_BOOTP_CLIENT 0xFFFFFFFF PORT_BOOTP_SERVER dat (mSize m)), dat]"

text \<open>A message of the client that is to be answered.\<close>

definition asks :: "u8 \<Rightarrow> dhcp \<Rightarrow> (u8 \<times> bytes) list \<Rightarrow> bool" where
  "asks t d os \<longleftrightarrow> dhcp_wf d \<and> options_ok os \<and> dh_op d = OP_BOOTREQUEST \<and> dh_htype d = HTYPE_ETHER \<and>
     dh_hlen d = of_nat ETH_ALEN \<and> map_of os OPT_MESSAGE_TYPE = Some [t] \<and> (t = DHCPDISCOVER \<or> t = DHCPREQUEST)"

text \<open>A message of type \<open>t\<close> that is to be answered goes out on the descriptor.\<close>

definition leaves :: "'k kernel_api \<Rightarrow> int \<Rightarrow> u8 \<Rightarrow> message \<Rightarrow> 'k \<Rightarrow> 'k \<Rightarrow> bool" where
  "leaves K fd t m k k' \<longleftrightarrow> (\<exists>d os dat a. asks t d os \<and> m = built d (options_area os) \<and> message_bytes m = Some dat \<and>
     k' = fst (k_sendmsg K k fd a (sent_parts m dat) []))"

definition answer_type :: "u8 \<Rightarrow> u8" where
  "answer_type t = (if t = DHCPDISCOVER then DHCPOFFER else DHCPACK)"

lemma answer_types: "answer_type DHCPREQUEST = DHCPACK" "answer_type DHCPDISCOVER = DHCPOFFER"
  by (simp_all add: answer_type_def)

lemma reply_received:
  assumes "replies L t (mLastMsg c) dg" and "k_recv K k (mSocket c) (20 + 8 + DHCP_SIZE) = (k1, Some dg)"
  shows "\<exists>d os. receiveDhcpMessage K message_default (k, c) = ((k1, c), built d (options_area os), True) \<and> options_ok os \<and>
    dh_yiaddr d = lt_address L \<and> map_of os OPT_MESSAGE_TYPE = Some [t] \<and> map_of os OPT_SERVER_ID = Some (enc32 (lt_server L)) \<and>
    fold store_option os info_zero = lt_info L"
proof -
  obtain d os dat where r: "dhcp_wf d" "options_ok os" "message_bytes (built d (options_area os)) = Some dat"
    "dg = datagram (lt_server L) (built d (options_area os)) dat"
    "dh_op d = OP_BOOTREPLY" "dh_htype d = HTYPE_ETHER" "dh_hlen d = of_nat ETH_ALEN" "dh_xid d = dh_xid (dhcpData (mLastMsg c))"
    "dh_yiaddr d = lt_address L" "map_of os OPT_MESSAGE_TYPE = Some [t]" "map_of os OPT_SERVER_ID = Some (enc32 (lt_server L))"
    "fold store_option os info_zero = lt_info L"
    using assms(1) unfolding replies_def by blast
  have len: "length (options_area os) \<le> OPTIONS_SIZE" using r(2) by (simp add: options_ok_def)
  have "isValidDhcpMessage_xid (built d (options_area os)) OP_BOOTREPLY (dh_xid (dhcpData (mLastMsg c)))"
    unfolding valid_built [OF r(2)] using r(5-8) by blast
  then show ?thesis
    using received_from [OF r(1) len r(3) assms(2) [unfolded r(4)]] r(2,9-12) by auto
qed

lemma offer_handled:
  assumes "replies L DHCPOFFER (mLastMsg c) dg" and "mState c = Selecting"
    and "k_recv K k (mSocket c) (20 + 8 + DHCP_SIZE) = (k1, Some dg)"
  shows "\<exists>m. receiveDhcpMessage K message_default (k, c) = ((k1, c), m, True) \<and>
    handle_message K m (k1, c) =
      Some ((k1, setNextState Requesting (c\<lparr>mServerAddress := lt_server L, mRequestAddress := lt_address L\<rparr>)), True)"
proof -
  obtain d os where r: "receiveDhcpMessage K message_default (k, c) = ((k1, c), built d (options_area os), True)" "options_ok os"
    "dh_yiaddr d = lt_address L" "map_of os OPT_MESSAGE_TYPE = Some [DHCPOFFER]" "map_of os OPT_SERVER_ID = Some (enc32 (lt_server L))"
    using reply_received [OF assms(1,3)] by blast
  have "dh_yiaddr (dhcpData (built d (options_area os))) = lt_address L" using r(3) by (simp add: built_def)
  then have "handle_message K (built d (options_area os)) (k1, c) =
      Some ((k1, setNextState Requesting (c\<lparr>mServerAddress := lt_server L, mRequestAddress := lt_address L\<rparr>)), True)"
    using assms(2) message_type_built [OF r(2,4)] address_built [OF r(2,5)] by (simp add: handle_message_def serverId_def)
  then show ?thesis using r(1) by blast
qed

definition leased :: "lease_terms \<Rightarrow> dhcp_info" where
  "leased L = (lt_info L)\<lparr>di_offeredAddress := lt_address L\<rparr>"

lemma ack_handled:
  assumes "replies L DHCPACK (mLastMsg c) dg" and "awaits_ack (mState c)" and "network_ok K (mInterface c)"
    and "di_leaseTime (lt_info L) \<noteq> 0" and "k_recv K k (mSocket c) (20 + 8 + DHCP_SIZE) = (k1, Some dg)"
  shows "\<exists>m k2 e1 e2. receiveDhcpMessage K message_default (k, c) = ((k1, c), m, True) \<and>
    handle_message K m (k1, c) = Some ((k2, setNextState Bound (c\<lparr>mDhcpInfo := leased L, mT1 := e1, mT2 := e2\<rparr>)), True)"
proof -
  obtain d os where r: "receiveDhcpMessage K message_default (k, c) = ((k1, c), built d (options_area os), True)" "options_ok os"
    "dh_yiaddr d = lt_address L" "map_of os OPT_MESSAGE_TYPE = Some [DHCPACK]" "fold store_option os info_zero = lt_info L"
    using reply_received [OF assms(1,5)] by blast
  obtain k2 e1 e2 where "configureDhcp K (built d (options_area os)) (k1, c) =
      Some ((k2, c\<lparr>mDhcpInfo := leased L, mT1 := e1, mT2 := e2\<rparr>), True)"
    using configure_built [OF r(2,5) assms(4,3), of d k1] r(3) by (auto simp: leased_def)
  then have "handle_message K (built d (options_area os)) (k1, c) =
      Some ((k2, setNextState Bound (c\<lparr>mDhcpInfo := leased L, mT1 := e1, mT2 := e2\<rparr>)), True)"
    using assms(2) by (auto simp: handle_message_def message_type_built [OF r(2,4)] awaits_ack_def)
  then show ?thesis using r(1) by blast
qed

lemma wait_returns:
  assumes "0 < snd (round_poll K t (k, c))" and "receiveDhcpMessage K message_default (fst (round_poll K t (k, c)), c) = (s1, m, True)"
    and "handle_message K m s1 = Some (s', True)"
  shows "wait_loop K t (k, c) = Some s'"
proof -
  have "wait_round K t (k, c) = Some (s', None)"
    using assms by (cases s') (simp add: wait_round_def Let_def case_prod_beta round_poll_def)
  then show ?thesis by (simp add: wait_loop.simps [of K t])
qed

section \<open>A client and its queue\<close>

text \<open>The client whose socket is \<open>fd\<close>, and the outcome of an exchange that gives it the lease.\<close>

definition client_of :: "'k kernel_api \<Rightarrow> int \<Rightarrow> client \<Rightarrow> bool" where
  "client_of K fd c \<longleftrightarrow> mSocket c = fd \<and> mIfaceFd (mInterface c) \<noteq> fd \<and> network_ok K (mInterface c) \<and> length (mMacAddress (mInterface c)) = 6"

definition bound_to :: "('k \<Rightarrow> bytes list) \<Rightarrow> lease_terms \<Rightarrow> client \<Rightarrow> 'k \<times> client \<Rightarrow> bool" where
  "bound_to inbox L c s \<longleftrightarrow> inbox (fst s) = [] \<and> same_devices c (snd s) \<and> mState (snd s) = Bound \<and> mDhcpInfo (snd s) = leased L"

lemma client_of_same: "client_of K fd c \<Longrightarrow> same_devices c c' \<Longrightarrow> client_of K fd c'"
  by (simp add: client_of_def same_devices_def)

lemma client_of_moved [simp]: "client_of K fd (setNextState st c) = client_of K fd c"
  by (simp add: client_of_def setNextState_def)

lemma increaseTimeout_nonzero: "mNextTimeout (increaseTimeout c) \<noteq> kNoTimeout"
proof -
  have "x * 2 \<noteq> 0" if "x < 64000" "x \<noteq> 0" for x :: u32
  proof -
    have "unat (x * 2) = unat x * 2"
      using that(1) by (subst unat_mult_lem [THEN iffD1]) (simp_all add: word_less_nat_alt)
    then show ?thesis using that(2) by (auto simp: unat_eq_0)
  qed
  then show ?thesis by (auto simp: increaseTimeout_def kInitialTimeout_def kNoTimeout_def kMaxTimeout_def Let_def)
qed

lemma increaseTimeout_devices [simp]:
  "mInterface (increaseTimeout c) = mInterface c" "mSocket (increaseTimeout c) = mSocket c"
  "mRouter (increaseTimeout c) = mRouter c" "mLastMsg (increaseTimeout c) = mLastMsg c"
  by (simp_all add: increaseTimeout_def Let_def)

lemma asks_built:
  assumes "length mac = 6"
  shows "asks DHCPDISCOVER (new_header tid OP_BOOTREQUEST mac) discover_options"
    and "asks DHCPREQUEST (new_header tid OP_BOOTREQUEST mac) (request_options a b)"
  using assms built_options_ok(1,2)
  by (simp_all add: asks_def dhcp_wf_def new_header_def dhcp_zero_def discover_options_def request_options_def)

text \<open>
  What every network does with the queue of datagrams for the client's socket: only sending and receiving
  on it change it, a poll reports whether it is empty, and a datagram is received once.
\<close>

locale client_queue =
  fixes K :: "'k kernel_api" and inbox :: "'k \<Rightarrow> bytes list" and fd :: int and L :: lease_terms
  assumes others: "system_call K call k k' \<Longrightarrow> call \<noteq> Sent_Datagram fd \<Longrightarrow> call \<noteq> Received fd \<Longrightarrow> inbox k' = inbox k"
    and poll_empty: "inbox k = [] \<Longrightarrow> snd (k_ppoll K k fd ts) = 0"
    and poll_ready: "inbox k \<noteq> [] \<Longrightarrow> 0 < snd (k_ppoll K k fd ts)"
    and receive: "inbox k = dg # rest \<Longrightarrow> \<exists>k'. k_recv K k fd (20 + 8 + DHCP_SIZE) = (k', Some dg) \<and> inbox k' = rest"
    and lease: "di_leaseTime (lt_info L) \<noteq> 0"
begin

lemma inbox_via:
  assumes "via K A k k'" and "Sent_Datagram fd \<notin> A" and "Received fd \<notin> A"
  shows "inbox k' = inbox k"
proof -
  have "inbox k' = inbox k" if "via K A k k'"
    using that by (rule via_keeps [where P = "\<lambda>x. inbox x = inbox k"]) (use others assms(2,3) in metis)+
  then show ?thesis using assms(1) .
qed

lemma inbox_poll: "inbox (fst (round_poll K t (k, c))) = inbox k"
proof (rule inbox_via)
  show "via K {Clock_Read, Polled (mSocket c)} k (fst (round_poll K t (k, c)))"
    unfolding round_poll_def fst_conv snd_conv by (intro via_calls now_via via_refl) simp_all
qed simp_all

lemma inbox_timeout: "calculateTimeoutMillis K (k, c) = ((k', c'), t) \<Longrightarrow> c' = c \<and> inbox k' = inbox k"
proof -
  assume "calculateTimeoutMillis K (k, c) = ((k', c'), t)"
  then have "c' = c" "k' = k \<or> k' = fst (k_random K k)"
    by (auto simp: calculateTimeoutMillis_def case_prod_beta split: if_splits)
  moreover have "inbox (fst (k_random K k)) = inbox k"
    by (rule inbox_via [of "{Random_Drawn}"]) (auto intro: via_calls)
  ultimately show ?thesis by auto
qed

text \<open>With an empty queue a wait lasts as long as it may; with one datagram it ends with the client's reaction.\<close>

lemma wait_empty:
  assumes "mSocket c = fd" and "inbox k = []"
  shows "\<exists>k'. waitAndReceive K (k, c) = Some (k', c) \<and> inbox k' = []"
proof (cases "mNextTimeout c = kNoTimeout")
  case True
  then show ?thesis using assms(2) by (simp add: waitAndReceive_def)
next
  case False
  obtain k1 c1 t where t: "calculateTimeoutMillis K (k, c) = ((k1, c1), t)" by (metis prod.exhaust)
  then have k1: "c1 = c" "inbox k1 = []" using inbox_timeout assms(2) by auto
  have "inbox (fst (now K k1)) = []" using inbox_via [OF now_via [OF via_refl, of "{Clock_Read}" K k1]] k1(2) by simp
  then have "snd (round_poll K t (k1, c)) = 0" unfolding round_poll_def fst_conv snd_conv assms(1) by (rule poll_empty)
  then have "wait_round K t (k1, c) = Some ((fst (round_poll K t (k1, c)), c), None)"
    by (simp add: wait_round_def Let_def case_prod_beta round_poll_def)
  then show ?thesis
    using False t k1 inbox_poll [of t k1 c] by (auto simp: waitAndReceive_def wait_loop.simps [of K t])
qed

lemma wait_answer:
  assumes "mSocket c = fd" and "inbox k = [dg]" and "mNextTimeout c \<noteq> kNoTimeout"
    and "awaits_ack (mState c) \<Longrightarrow> mIfaceFd (mInterface c) \<noteq> fd"
    and react: "\<And>k1 k2. k_recv K k1 (mSocket c) (20 + 8 + DHCP_SIZE) = (k2, Some dg) \<Longrightarrow>
      \<exists>m k3 c'. receiveDhcpMessage K message_default (k1, c) = ((k2, c), m, True) \<and>
        handle_message K m (k2, c) = Some ((k3, c'), True) \<and> P c'"
  shows "\<exists>k' c'. waitAndReceive K (k, c) = Some (k', c') \<and> P c' \<and> inbox k' = []"
proof -
  obtain k1 c1 t where t: "calculateTimeoutMillis K (k, c) = ((k1, c1), t)" by (metis prod.exhaust)
  then have k1: "c1 = c" "inbox k1 = [dg]" using inbox_timeout assms(2) by auto
  let ?p = "fst (round_poll K t (k1, c))"
  have p: "inbox ?p = [dg]" using inbox_poll k1(2) by simp
  have "inbox (fst (now K k1)) \<noteq> []" using inbox_via [OF now_via [OF via_refl, of "{Clock_Read}" K k1]] k1(2) by simp
  then have ready: "0 < snd (round_poll K t (k1, c))" unfolding round_poll_def fst_conv snd_conv assms(1) by (rule poll_ready)
  obtain k2 where k2: "k_recv K ?p (mSocket c) (20 + 8 + DHCP_SIZE) = (k2, Some dg)" "inbox k2 = []"
    using receive [OF p] assms(1) by auto
  obtain m k3 c' where r: "receiveDhcpMessage K message_default (?p, c) = ((k2, c), m, True)"
    "handle_message K m (k2, c) = Some ((k3, c'), True)" "P c'"
    using react [OF k2(1)] by blast
  let ?A = "if awaits_ack (mState c) then network_calls c else {}"
  have "via K ?A k2 k3" using handle_message_framed [OF r(2), of ?A] by (simp add: framed_def)
  moreover have "Sent_Datagram fd \<notin> ?A" "Received fd \<notin> ?A"
    using assms(4) by (auto simp: network_calls_def interface_calls_def)
  ultimately have "inbox k3 = []" using inbox_via k2(2) by metis
  moreover have "waitAndReceive K (k, c) = Some (k3, c')"
    using wait_returns [OF ready r(1,2)] assms(3) t k1(1) by (simp add: waitAndReceive_def)
  ultimately show ?thesis using r(3) by blast
qed

lemma inbox_clock [simp]: "inbox (fst (expired K k e)) = inbox k" "inbox (fst (remainingMillis K k e)) = inbox k"
  by (rule inbox_via [of "{Clock_Read}"], rule timer_via, simp_all)+

lemma empty_undisturbed:
  assumes "mSocket c = fd" and "inbox k = []"
  shows "undisturbed K k c"
  unfolding undisturbed_def
proof (intro allI impI)
  fix k1 c1 t assume v: "via K {Clock_Read, Random_Drawn} k k1" and "same_devices c c1"
  then have fd: "mSocket c1 = fd" using assms(1) by (simp add: same_devices_def)
  have "inbox (fst (now K k1)) = []" using inbox_via [OF now_via [OF v]] assms(2) by simp
  then show "snd (round_poll K t (k1, c1)) = 0" unfolding round_poll_def fst_conv snd_conv fd by (rule poll_empty)
qed

text \<open>The messages of the client are such that a server answers them.\<close>

lemma message_leaves:
  assumes "mSocket c = fd" and "asks t d os"
  shows "\<exists>k'. client_sendMessage K (built d (options_area os)) (k, c) = Some (k', c) \<and> leaves K fd t (built d (options_area os)) k k'"
proof -
  let ?m = "built d (options_area os)"
  have "dhcp_wf d" "length (options_area os) \<le> OPTIONS_SIZE" using assms(2) by (simp_all add: asks_def options_ok_def)
  from built_arrives [OF this] obtain dat where dat: "message_bytes ?m = Some dat" by blast
  let ?to = "sockaddr_ll (mIndex (mInterface c)) (of_nat ETH_ALEN) (replicate ETH_ALEN 0xFF)"
  have "client_sendMessage K ?m (k, c) = Some (fst (k_sendmsg K k fd ?to (sent_parts ?m dat) []), c)"
    using assms(1) dat by (simp add: client_sendMessage_def on_socket_opt_def sendRawUdp_def Let_def case_prod_beta sent_parts_def)
  then show ?thesis using assms(2) dat unfolding leaves_def by blast
qed

lemma requests_leave:
  assumes "client_of K fd c"
  shows "\<exists>k' m. sendDhcpRequest K d (k, c) = Some (k', c\<lparr>mLastMsg := m, sNextTransactionId := sNextTransactionId c + 1\<rparr>) \<and>
      leaves K fd DHCPREQUEST m k k'"
    and "\<exists>k' m. sendDhcpDiscover K (k, c) = Some (k', c\<lparr>mLastMsg := m, sNextTransactionId := sNextTransactionId c + 1\<rparr>) \<and>
      leaves K fd DHCPDISCOVER m k k'"
proof -
  have c: "mSocket (c\<lparr>mLastMsg := m, sNextTransactionId := x\<rparr>) = fd" "length (mMacAddress (mInterface c)) = 6" for m x
    using assms by (simp_all add: client_of_def)
  show "\<exists>k' m. sendDhcpRequest K d (k, c) = Some (k', c\<lparr>mLastMsg := m, sNextTransactionId := sNextTransactionId c + 1\<rparr>) \<and>
      leaves K fd DHCPREQUEST m k k'"
    using message_leaves [OF c(1) asks_built(2) [OF c(2)]]
    unfolding sendDhcpRequest_def request_built prod.case bind.bind_lunit by blast
  show "\<exists>k' m. sendDhcpDiscover K (k, c) = Some (k', c\<lparr>mLastMsg := m, sNextTransactionId := sNextTransactionId c + 1\<rparr>) \<and>
      leaves K fd DHCPDISCOVER m k k'"
    using message_leaves [OF c(1) asks_built(1) [OF c(2)]]
    unfolding sendDhcpDiscover_def discover_built prod.case bind.bind_lunit by blast
qed

text \<open>The two exchanges, from the answer in the queue on.\<close>

lemma ack_ends_wait:
  assumes c: "client_of K fd c" and a: "awaits_ack (mState c)" and "inbox k = [dg]" and "replies L DHCPACK m dg"
  shows "\<exists>s'. waitAndReceive K (k, increaseTimeout (c\<lparr>mLastMsg := m, sNextTransactionId := x\<rparr>)) = Some s' \<and> bound_to inbox L c s'"
proof -
  let ?c = "increaseTimeout (c\<lparr>mLastMsg := m, sNextTransactionId := x\<rparr>)"
  have fd: "mSocket ?c = fd" "mIfaceFd (mInterface ?c) \<noteq> fd" "network_ok K (mInterface ?c)" "awaits_ack (mState ?c)" "replies L DHCPACK (mLastMsg ?c) dg"
    using c a assms(4) by (simp_all add: client_of_def)
  let ?P = "\<lambda>c'. same_devices c c' \<and> mState c' = Bound \<and> mDhcpInfo c' = leased L"
  have "\<exists>m k3 c'. receiveDhcpMessage K message_default (k1, ?c) = ((k2, ?c), m, True) \<and>
      handle_message K m (k2, ?c) = Some ((k3, c'), True) \<and> ?P c'"
    if r: "k_recv K k1 (mSocket ?c) (20 + 8 + DHCP_SIZE) = (k2, Some dg)" for k1 k2
  proof -
    obtain m k3 e1 e2 where "receiveDhcpMessage K message_default (k1, ?c) = ((k2, ?c), m, True)"
      "handle_message K m (k2, ?c) = Some ((k3, setNextState Bound (?c\<lparr>mDhcpInfo := leased L, mT1 := e1, mT2 := e2\<rparr>)), True)"
      using ack_handled [OF fd(5,4,3) lease r] by blast
    moreover have "?P (setNextState Bound (?c\<lparr>mDhcpInfo := leased L, mT1 := e1, mT2 := e2\<rparr>))"
      by (simp add: same_devices_def setNextState_def)
    ultimately show ?thesis by blast
  qed
  from wait_answer [OF fd(1) assms(3) increaseTimeout_nonzero fd(2) this] obtain k' c' where
    "waitAndReceive K (k, ?c) = Some (k', c')" "?P c'" "inbox k' = []" by blast
  then show ?thesis by (intro exI [of _ "(k', c')"]) (simp add: bound_to_def)
qed

lemma offer_ends_wait:
  assumes c: "client_of K fd c" and a: "mState c = Selecting" and "inbox k = [dg]" and "replies L DHCPOFFER m dg"
  shows "\<exists>k' c'. waitAndReceive K (k, increaseTimeout (c\<lparr>mLastMsg := m, sNextTransactionId := x\<rparr>)) = Some (k', c') \<and> inbox k' = [] \<and>
    same_devices c c' \<and> mState c' = Requesting \<and> mNextTimeout c' = kNoTimeout"
proof -
  let ?c = "increaseTimeout (c\<lparr>mLastMsg := m, sNextTransactionId := x\<rparr>)"
  have f: "mSocket ?c = fd" "replies L DHCPOFFER (mLastMsg ?c) dg" "mState ?c = Selecting" "same_devices c ?c"
    using c a assms(4) by (simp_all add: client_of_def same_devices_def)
  let ?P = "\<lambda>c'. same_devices c c' \<and> mState c' = Requesting \<and> mNextTimeout c' = kNoTimeout"
  have "\<exists>m k3 c'. receiveDhcpMessage K message_default (k1, ?c) = ((k2, ?c), m, True) \<and>
      handle_message K m (k2, ?c) = Some ((k3, c'), True) \<and> ?P c'"
    if r: "k_recv K k1 (mSocket ?c) (20 + 8 + DHCP_SIZE) = (k2, Some dg)" for k1 k2
  proof -
    have "?P (setNextState Requesting (?c\<lparr>mServerAddress := lt_server L, mRequestAddress := lt_address L\<rparr>))"
      using f(4) by (simp add: same_devices_def setNextState_def)
    then show ?thesis using offer_handled [OF f(2,3) r] by blast
  qed
  from wait_answer [OF f(1) assms(3) increaseTimeout_nonzero _ this] show ?thesis
    unfolding f(3) by (auto simp: awaits_ack_def)
qed

end

section \<open>A client and a server\<close>

text \<open>A network with a server: every message of the client is answered.\<close>

locale served_client = client_queue K inbox fd L
  for K :: "'k kernel_api" and inbox :: "'k \<Rightarrow> bytes list" and fd :: int and L :: lease_terms +
  assumes answer: "leaves K fd t m k k' \<Longrightarrow> \<exists>dg. inbox k' = inbox k @ [dg] \<and> replies L (answer_type t) m dg"
begin

lemma requests_answered:
  assumes "client_of K fd c" and "inbox k = []"
  shows "\<exists>k' m dg. sendDhcpRequest K d (k, c) = Some (k', c\<lparr>mLastMsg := m, sNextTransactionId := sNextTransactionId c + 1\<rparr>) \<and>
      inbox k' = [dg] \<and> replies L DHCPACK m dg"
    and "\<exists>k' m dg. sendDhcpDiscover K (k, c) = Some (k', c\<lparr>mLastMsg := m, sNextTransactionId := sNextTransactionId c + 1\<rparr>) \<and>
      inbox k' = [dg] \<and> replies L DHCPOFFER m dg"
  using requests_leave(1) [OF assms(1), of d k] requests_leave(2) [OF assms(1), of k] answer assms(2)
  unfolding answer_types [symmetric] by (metis append_Nil)+

text \<open>A request and the acknowledgement of it.\<close>

lemma request_acked:
  assumes c: "client_of K fd c" and "inbox k = []" and a: "awaits_ack (mState c)"
  shows "\<exists>k1 c1 s'. map_option (\<lambda>(k, c). (k, increaseTimeout c)) (sendDhcpRequest K d (k, c)) = Some (k1, c1) \<and>
    waitAndReceive K (k1, c1) = Some s' \<and> bound_to inbox L c s'"
proof -
  obtain k1 m dg where s: "sendDhcpRequest K d (k, c) = Some (k1, c\<lparr>mLastMsg := m, sNextTransactionId := sNextTransactionId c + 1\<rparr>)"
    "inbox k1 = [dg]" "replies L DHCPACK m dg"
    using requests_answered(1) [OF c assms(2)] by blast
  then show ?thesis using ack_ends_wait [OF c a s(2,3), of "sNextTransactionId c + 1"] by auto
qed

lemma requesting_turn:
  assumes "client_of K fd c" and "inbox k = []" and "mState c = Requesting \<or> mState c = Rebinding" and "mNextTimeout c = kNoTimeout"
  shows "\<exists>s'. client_turn K (k, c) = Some s' \<and> bound_to inbox L c s'"
proof -
  let ?d = "if mState c = Requesting then mServerAddress c else 0xFFFFFFFF"
  have "awaits_ack (mState c)" using assms(3) by (auto simp: awaits_ack_def)
  moreover have "run_state K (k, c) = map_option (\<lambda>(k, c). (k, increaseTimeout c)) (sendDhcpRequest K ?d (k, c))"
    using assms(3,4) by (auto simp: run_state_def kMaxTimeout_def kNoTimeout_def)
  ultimately show ?thesis using request_acked [OF assms(1,2), of ?d] by (auto simp: client_turn_def)
qed

text \<open>A client that holds its lease: bound, or about to ask for the lease again.\<close>

definition holds_lease :: "'k \<times> client \<Rightarrow> bool" where
  "holds_lease s \<longleftrightarrow> inbox (fst s) = [] \<and> client_of K fd (snd s) \<and> mDhcpInfo (snd s) = leased L \<and>
     (mState (snd s) = Bound \<or> (mState (snd s) = Renewing \<or> mState (snd s) = Rebinding) \<and> mNextTimeout (snd s) = kNoTimeout)"

lemma bound_holds: "client_of K fd c \<Longrightarrow> bound_to inbox L c s \<Longrightarrow> holds_lease s"
  using client_of_same [of K fd c "snd s"] by (simp add: bound_to_def holds_lease_def)

lemma moved_holds:
  "inbox k = [] \<Longrightarrow> client_of K fd c \<Longrightarrow> mDhcpInfo c = leased L \<Longrightarrow> st = Renewing \<or> st = Rebinding \<Longrightarrow> holds_lease (k, setNextState st c)"
  by (simp add: holds_lease_def client_of_def setNextState_def)

lemma holds_turn:
  assumes h: "holds_lease (k, c)"
  shows "\<exists>s'. client_turn K (k, c) = Some s' \<and> holds_lease s'"
proof -
  have i: "inbox k = []" "client_of K fd c" "mDhcpInfo c = leased L" using h by (simp_all add: holds_lease_def)
  consider (bound) "mState c = Bound" | (renewing) "mState c = Renewing" "mNextTimeout c = kNoTimeout"
    | (rebinding) "mState c = Rebinding" "mNextTimeout c = kNoTimeout"
    using h by (auto simp: holds_lease_def)
  then show ?thesis
  proof cases
    case bound
    obtain k1 b where e: "expired K k (mT1 c) = (k1, b)" by (cases "expired K k (mT1 c)")
    then have k1: "inbox k1 = []" using inbox_clock(1) [of k "mT1 c"] i(1) by simp
    show ?thesis
    proof (cases b)
      case True
      then have "run_state K (k, c) = Some (k1, setNextState Renewing c)" using bound e by (simp add: run_state_def)
      from move_turn [OF this] show ?thesis using moved_holds [OF k1 i(2,3)] by blast
    next
      case False
      obtain k2 r where r: "remainingMillis K k1 (mT1 c) = (k2, r)" by (cases "remainingMillis K k1 (mT1 c)")
      then have k2: "inbox k2 = []" using inbox_clock(2) [of k1 "mT1 c"] k1 by simp
      let ?c = "c\<lparr>mNextTimeout := ucast r, mFuzzNextTimeout := False\<rparr>"
      have "run_state K (k, c) = Some (k2, ?c)" using bound e r False by (simp add: run_state_def)
      moreover have "mSocket ?c = fd" using i(2) by (simp add: client_of_def)
      ultimately show ?thesis
        using wait_empty [of ?c k2] k2 i bound by (auto simp: client_turn_def holds_lease_def client_of_def)
    qed
  next
    case renewing
    obtain k1 b where e: "expired K k (mT2 c) = (k1, b)" by (cases "expired K k (mT2 c)")
    then have k1: "inbox k1 = []" using inbox_clock(1) [of k "mT2 c"] i(1) by simp
    show ?thesis
    proof (cases b)
      case True
      then have "run_state K (k, c) = Some (k1, setNextState Rebinding c)" using renewing e by (simp add: run_state_def)
      from move_turn [OF this] show ?thesis using moved_holds [OF k1 i(2,3)] by blast
    next
      case False
      have "awaits_ack (mState c)" using renewing by (simp add: awaits_ack_def)
      from request_acked [OF i(2) k1 this, of "mServerAddress c"] show ?thesis
        using renewing e False bound_holds [OF i(2)] by (auto simp: client_turn_def run_state_def)
    qed
  next
    case rebinding
    then show ?thesis using requesting_turn [OF i(2,1)] bound_holds [OF i(2)] by blast
  qed
qed

lemma holds_turns: "holds_lease s \<Longrightarrow> \<exists>s'. client_turns n K s = Some s' \<and> holds_lease s'"
proof (induction n arbitrary: s)
  case (Suc n)
  obtain s1 where "client_turn K s = Some s1" "holds_lease s1" using holds_turn [of "fst s" "snd s"] Suc.prems by auto
  then show ?case using Suc.IH [of s1] by simp
qed simp

text \<open>A renewing client is bound again after two turns at most.\<close>

lemma renewing_acked:
  assumes h: "holds_lease (k, c)" and r: "mState c = Renewing"
  shows "\<exists>j s'. j \<le> 2 \<and> client_turns j K (k, c) = Some s' \<and> holds_lease s' \<and> mState (snd s') = Bound"
proof -
  have i: "inbox k = []" "client_of K fd c" "mDhcpInfo c = leased L" "mNextTimeout c = kNoTimeout"
    using h r by (auto simp: holds_lease_def)
  have b: "holds_lease s \<and> mState (snd s) = Bound" if "bound_to inbox L c' s" "client_of K fd c'" for c' s
    using bound_holds [OF that(2,1)] that(1) by (simp add: bound_to_def)
  obtain k1 e where e: "expired K k (mT2 c) = (k1, e)" by (cases "expired K k (mT2 c)")
  then have k1: "inbox k1 = []" using inbox_clock(1) [of k "mT2 c"] i(1) by simp
  show ?thesis
  proof (cases e)
    case True
    let ?c = "setNextState Rebinding c"
    have "run_state K (k, c) = Some (k1, ?c)" using True r e by (simp add: run_state_def)
    then have t: "client_turn K (k, c) = Some (k1, ?c)" by (rule move_turn)
    have c': "client_of K fd ?c" using i(2) by (simp add: client_of_def setNextState_def)
    obtain s' where "client_turn K (k1, ?c) = Some s'" "bound_to inbox L ?c s'" using requesting_turn [OF c' k1] by auto
    then show ?thesis using t b [OF _ c'] by (intro exI [of _ 2] exI [of _ s']) (simp add: numeral_2_eq_2)
  next
    case False
    have "awaits_ack (mState c)" using r by (simp add: awaits_ack_def)
    from request_acked [OF i(2) k1 this, of "mServerAddress c"] obtain s' where "client_turn K (k, c) = Some s'" "bound_to inbox L c s'"
      using r e False by (auto simp: client_turn_def run_state_def)
    then show ?thesis using b [OF _ i(2)] by (intro exI [of _ 1] exI [of _ s']) simp
  qed
qed

lemma renewed_in_time:
  assumes h: "holds_lease (k, c)" and b: "mState c = Bound" and t: "time_runs K clk" "unat (mT1 c) < clk k + 2 ^ 32"
  shows "\<exists>i j k1 c1 s'. i \<le> 2 \<and> j \<le> 2 \<and> client_turns i K (k, c) = Some (k1, c1) \<and> mState c1 = Renewing \<and> unat (mT1 c) \<le> clk k1 \<and>
    client_turns (i + j) K (k, c) = Some s' \<and> holds_lease s' \<and> mState (snd s') = Bound"
proof -
  have "undisturbed K k c" using h by (intro empty_undisturbed) (simp_all add: holds_lease_def client_of_def)
  from bound_phase [OF t(1) b t(2) this] obtain i k1 c1 where i: "i \<le> 2" "client_turns i K (k, c) = Some (k1, c1)"
    "unat (mT1 c) \<le> clk k1" "mState c1 = Renewing" by blast
  moreover have "holds_lease (k1, c1)" using holds_turns [OF h, of i] i(2) by auto
  then obtain j s' where "j \<le> 2" "client_turns j K (k1, c1) = Some s'" "holds_lease s'" "mState (snd s') = Bound"
    using renewing_acked i(4) by blast
  moreover have "client_turns (i + j) K (k, c) = client_turns j K (k1, c1)" for j by (rule client_turns_add [OF i(2)])
  ultimately show ?thesis by metis
qed

text \<open>From the start to the bound state.\<close>

lemma handshake:
  assumes c: "client_of K fd c" and k: "inbox k = []" and "mState c = Init"
  shows "\<exists>s'. client_turns 3 K (k, c) = Some s' \<and> bound_to inbox L c s'"
proof -
  let ?c1 = "setNextState Selecting c"
  have t1: "client_turn K (k, c) = Some (k, ?c1)" using assms(3) by (intro move_turn) (simp add: run_state_def)
  have c1: "client_of K fd ?c1" using c by (simp add: client_of_def setNextState_def)
  obtain k2 m dg where s: "sendDhcpDiscover K (k, ?c1) = Some (k2, ?c1\<lparr>mLastMsg := m, sNextTransactionId := sNextTransactionId ?c1 + 1\<rparr>)"
    "inbox k2 = [dg]" "replies L DHCPOFFER m dg"
    using requests_answered(2) [OF c1 k] by blast
  obtain k3 c3 where w: "waitAndReceive K (k2, increaseTimeout (?c1\<lparr>mLastMsg := m, sNextTransactionId := sNextTransactionId ?c1 + 1\<rparr>)) = Some (k3, c3)"
    "inbox k3 = []" "same_devices ?c1 c3" "mState c3 = Requesting" "mNextTimeout c3 = kNoTimeout"
    using offer_ends_wait [OF c1 _ s(2,3), of "sNextTransactionId ?c1 + 1"] by (auto simp: setNextState_def)
  have t2: "client_turn K (k, ?c1) = Some (k3, c3)" using s(1) w(1) by (simp add: client_turn_def run_state_def)
  have "client_of K fd c3" using client_of_same [OF c1] w(3) by blast
  then obtain s' where t3: "client_turn K (k3, c3) = Some s'" "bound_to inbox L c3 s'" using requesting_turn w(2,4,5) by blast
  moreover have "client_turns 3 K (k, c) = Some s'" using t1 t2 t3(1) by (simp add: numeral_3_eq_3)
  moreover have "bound_to inbox L c s'" using t3(2) w(3) by (simp add: bound_to_def same_devices_def setNextState_def)
  ultimately show ?thesis by blast
qed

end

section \<open>The repository's own server functions\<close>

text \<open>The terms of a server that answers with \<open>offer\<close> and \<open>ack\<close>.\<close>

definition own_terms :: "u32 \<Rightarrow> u32 \<Rightarrow> u32 \<Rightarrow> u32 \<Rightarrow> u32 list \<Rightarrow> lease_terms" where
  "own_terms server offered netmask gateway dns =
     \<lparr>lt_server = server, lt_address = offered,
      lt_info = info_zero\<lparr>di_serverId := server, di_leaseTime := ntohl kDefaultLeaseTime, di_subnetMask := netmask,
        di_gateway := gateway, di_dns := first_dns dns\<rparr>\<rparr>"

lemma own_reply:
  assumes "length dns < 64" and "dhcp_wf (dhcpData m)"
  shows "\<exists>r dat. offer_or_ack t tid m server offered netmask gateway dns = Some (r, tid + 1) \<and> message_bytes r = Some dat \<and>
    replies (own_terms server offered netmask gateway dns) t m (datagram server r dat)"
proof -
  let ?d = "reply_struct tid m offered" and ?os = "reply_list t server netmask gateway dns"
  have ok: "options_ok ?os" by (rule built_options_ok(3) [OF assms(1)])
  then have "length (options_area ?os) \<le> OPTIONS_SIZE" by (simp add: options_ok_def)
  from built_arrives [OF reply_struct_wf [OF assms(2)] this, of tid offered] obtain dat where
    dat: "message_bytes (built ?d (options_area ?os)) = Some dat" by blast
  have "replies (own_terms server offered netmask gateway dns) t m (datagram server (built ?d (options_area ?os)) dat)"
    unfolding replies_def own_terms_def lease_terms.simps
    by (intro exI [of _ ?d] exI [of _ ?os] exI [of _ dat] conjI reply_struct_wf [OF assms(2)] ok dat refl reply_info)
      (simp_all add: reply_struct_def new_header_def reply_list_def)
  then show ?thesis unfolding reply_built [OF assms(1)] using dat by blast
qed

text \<open>A network with such a server on descriptor 5; its clock is the one of \<open>clock_kernel\<close>.\<close>

record lan =
  lan_inbox :: "bytes list"
  lan_tid :: u32
  lan_time :: u64

definition lan_serves :: "message \<Rightarrow> u32 \<Rightarrow> (message \<times> u32) option" where
  "lan_serves m tid =
     (case message_type m of
        None \<Rightarrow> None
      | Some t \<Rightarrow>
          if t = DHCPDISCOVER then offer tid m 0x0202000A 0x0F02000A 0x00FFFFFF 0x0202000A [0x08080808]
          else if t = DHCPREQUEST then ack tid m 0x0202000A 0x0F02000A 0x00FFFFFF 0x0202000A [0x08080808]
          else None)"

definition lan_sends :: "'z lan_scheme \<Rightarrow> bytes list \<Rightarrow> 'z lan_scheme" where
  "lan_sends k parts =
     (let dat = parts ! 2; m = setSize (overlay message_default dat) (of_nat (length dat)) in
      case lan_serves m (lan_tid k) of
        None \<Rightarrow> k
      | Some (r, tid) \<Rightarrow>
          (case message_bytes r of
             None \<Rightarrow> k
           | Some bs \<Rightarrow> k\<lparr>lan_inbox := lan_inbox k @ [datagram 0x0202000A r bs], lan_tid := tid\<rparr>))"

definition lan_kernel :: "'z lan_scheme kernel_api" where
  "lan_kernel = \<lparr>k_socket = \<lambda>k _ _ _. (k, 3), k_close = \<lambda>k _. k, k_bind = \<lambda>k _ _. (k, 0), k_sendto = \<lambda>k _ _ _. (k, 0),
     k_sendmsg = \<lambda>k fd _ parts _. (if fd = 5 then lan_sends k parts else k, 1),
     k_recv = \<lambda>k fd _. (if fd = 5 then (case lan_inbox k of [] \<Rightarrow> (k, None) | dg # rest \<Rightarrow> (k\<lparr>lan_inbox := rest\<rparr>, Some dg))
       else (k, Some (replicate 20 0))),
     k_recvmsg = \<lambda>k _ _. (k, None),
     k_setsockopt = \<lambda>k _ _ _ _. (k, 0), k_get_index = \<lambda>k _ _. (k, Some 2), k_get_hwaddr = \<lambda>k _ _. (k, Some (replicate 14 9)),
     k_get_flags = \<lambda>k _ _. (k, Some 1), k_set_flags = \<lambda>k _ _ _. (k, 0), k_set_mtu = \<lambda>k _ _ _. (k, 0),
     k_property_set = \<lambda>k _ _. (k, 0),
     k_clock = \<lambda>k. (k, int (unat (lan_time k) div 1000), int (unat (lan_time k) mod 1000 * 1000000)), k_random = \<lambda>k. (k, 400),
     k_ppoll = \<lambda>k _ ts. if lan_inbox k = []
       then (k\<lparr>lan_time := of_nat (min (2 ^ 64 - 1) (unat (lan_time k) + (1000 * unat (fst ts) + unat (snd ts) div 1000000)))\<rparr>, 0)
       else (k, 1)\<rparr>"

abbreviation (input) "lan_terms \<equiv> own_terms 0x0202000A 0x0F02000A 0x00FFFFFF 0x0202000A [0x08080808]"

lemma lan_answers:
  assumes "asks t d os" and "message_bytes (built d (options_area os)) = Some dat"
  shows "\<exists>dg. lan_inbox (lan_sends k (sent_parts (built d (options_area os)) dat)) = lan_inbox k @ [dg] \<and>
    replies lan_terms (answer_type t) (built d (options_area os)) dg"
proof -
  let ?m = "built d (options_area os)"
  have d: "dhcp_wf d" "options_ok os" "map_of os OPT_MESSAGE_TYPE = Some [t]" "t = DHCPDISCOVER \<or> t = DHCPREQUEST"
    using assms(1) by (simp_all add: asks_def)
  then have len: "length (options_area os) \<le> OPTIONS_SIZE" by (simp add: options_ok_def)
  have arr: "length dat = unat (mSize ?m)" "setSize (overlay message_default dat) (mSize ?m) = ?m"
    using built_arrives [OF d(1) len] assms(2) by auto
  have m: "setSize (overlay message_default dat) (of_nat (length dat)) = ?m" unfolding arr(1) using arr(2) by simp
  have wf: "dhcp_wf (dhcpData ?m)" using d(1) len by (simp add: dhcp_wf_def built_def)
  have dns: "length [0x08080808 :: u32] < 64" by simp
  have s: "lan_serves ?m tid = offer_or_ack (answer_type t) tid ?m 0x0202000A 0x0F02000A 0x00FFFFFF 0x0202000A [0x08080808]" for tid
    using d(4) message_type_built [OF d(2,3), of d] by (auto simp: lan_serves_def answer_type_def offer_def ack_def)
  obtain r bs where "offer_or_ack (answer_type t) (lan_tid k) ?m 0x0202000A 0x0F02000A 0x00FFFFFF 0x0202000A [0x08080808] = Some (r, lan_tid k + 1)"
    "message_bytes r = Some bs" "replies lan_terms (answer_type t) ?m (datagram 0x0202000A r bs)"
    using own_reply [OF dns wf] by blast
  then show ?thesis by (simp add: lan_sends_def sent_parts_def Let_def m s)
qed

interpretation lan_client: served_client lan_kernel lan_inbox 5 lan_terms
proof unfold_locales
  show "\<exists>dg. lan_inbox k' = lan_inbox k @ [dg] \<and> replies lan_terms (answer_type t) m dg" if "leaves lan_kernel 5 t m k k'" for t m k k'
    using that lan_answers by (auto simp: leaves_def lan_kernel_def)
  show "lan_inbox k' = lan_inbox k" if "system_call lan_kernel call k k'" "call \<noteq> Sent_Datagram 5" "call \<noteq> Received 5" for call k k'
    using that by (cases rule: system_call.cases) (auto simp: lan_kernel_def split: if_splits)
  show "snd (k_ppoll lan_kernel k 5 ts) = 0" if "lan_inbox k = []" for k ts using that by (simp add: lan_kernel_def)
  show "0 < snd (k_ppoll lan_kernel k 5 ts)" if "lan_inbox k \<noteq> []" for k ts using that by (simp add: lan_kernel_def)
  show "\<exists>k'. k_recv lan_kernel k 5 (20 + 8 + DHCP_SIZE) = (k', Some dg) \<and> lan_inbox k' = rest" if "lan_inbox k = dg # rest" for k dg rest
    using that by (simp add: lan_kernel_def)
  show "di_leaseTime (lt_info lan_terms) \<noteq> 0" using lease_nonzero by (simp add: own_terms_def)
qed

section \<open>Properties\<close>

text \<open>
  C8. The handshake. A client in its initial state on a network with a server needs three turns to hold a
  lease: it starts, discovers and takes up the offer, requests and is acknowledged. It is then bound,
  with what the server's options say and the address the server offered, and no datagram is left.
\<close>

theorem handshake_binds:
  assumes "served_client K inbox fd L" and "mSocket c = fd" and "mIfaceFd (mInterface c) \<noteq> fd" and "network_ok K (mInterface c)"
    and "length (mMacAddress (mInterface c)) = 6" and "mState c = Init" and "inbox k = []"
  shows "\<exists>k' c'. client_turns 3 K (k, c) = Some (k', c') \<and> mState c' = Bound \<and> mDhcpInfo c' = leased L \<and>
    same_devices c c' \<and> inbox k' = []"
proof -
  have "client_of K fd c"
    using assms(2-5) by (simp add: client_of_def)
  from served_client.handshake [OF assms(1) this assms(7,6)] show ?thesis
    by (auto simp: bound_to_def)
qed


definition lan_start :: lan where
  "lan_start = \<lparr>lan_inbox = [], lan_tid = 1, lan_time = 0\<rparr>"

definition lan_example :: client where
  "lan_example = (client_new memory_example 0)\<lparr>mSocket := 5, mRouter := 3,
     mInterface := \<lparr>mInterfaceName = ''eth0'', mIfaceFd = 4, mIndex = 2, mMacAddress = replicate 6 9\<rparr>\<rparr>"

lemma lan_example_facts:
  "mSocket lan_example = 5" "mIfaceFd (mInterface lan_example) \<noteq> 5" "network_ok lan_kernel (mInterface lan_example)"
  "length (mMacAddress (mInterface lan_example)) = 6" "mState lan_example = Init" "lan_inbox lan_start = []"
proof -
  have "load16 (replicate 20 0) 4 = 0" by (simp add: load16_def numeral_2_eq_2)
  then show "network_ok lan_kernel (mInterface lan_example)"
    by (simp add: network_ok_def lan_kernel_def lan_example_def address_response_def)
qed (simp_all add: lan_example_def client_new_def lan_start_def)

theorem handshake_binds_witness:
  "\<exists>k' c'. client_turns 3 lan_kernel (lan_start, lan_example) = Some (k', c') \<and> mState c' = Bound \<and>
     di_offeredAddress (mDhcpInfo c') = 0x0F02000A \<and> di_gateway (mDhcpInfo c') = 0x0202000A"
  using handshake_binds [OF lan_client.served_client_axioms lan_example_facts]
  by (auto simp: leased_def own_terms_def)

definition lan_bound :: client where
  "lan_bound = setNextState Bound (lan_example\<lparr>mDhcpInfo := leased lan_terms\<rparr>)"

lemma lan_bound_facts:
  "mSocket lan_bound = 5" "mIfaceFd (mInterface lan_bound) \<noteq> 5" "network_ok lan_kernel (mInterface lan_bound)"
  "length (mMacAddress (mInterface lan_bound)) = 6" "mState lan_bound = Bound" "mDhcpInfo lan_bound = leased lan_terms"
  using lan_example_facts by (simp_all add: lan_bound_def setNextState_def)



lemma lan_time_runs: "time_runs (lan_kernel :: lan kernel_api) (\<lambda>k. unat (lan_time k))"
proof -
  have d: "c_div (int m * 1000000) 1000000 = int m" for m
    by (subst c_div_nonneg) simp_all
  have "snd (now lan_kernel k) = of_nat (unat (lan_time k) div 1000 * 1000 + unat (lan_time k) mod 1000)" for k :: lan
    by (simp only: now_def lan_kernel_def kernel_api.simps prod.case d snd_conv of_nat_add of_nat_mult of_nat_numeral of_int_of_nat_eq)
  then have now: "snd (now lan_kernel k) = lan_time k \<and> fst (now lan_kernel k) = k" for k :: lan
    by (simp add: now_def lan_kernel_def)
  have sends: "lan_time (lan_sends k parts) = lan_time k" for k :: lan and parts
    by (simp add: lan_sends_def Let_def split: option.split prod.split)
  have u: "unat (of_nat (min (2 ^ 64 - 1) m) :: u64) = min (2 ^ 64 - 1) m" for m
    by (simp add: unsigned_of_nat take_bit_nat_eq_self)
  have poll: "unat (lan_time (fst (k_ppoll lan_kernel k fd ts))) = (if lan_inbox k = []
      then min (2 ^ 64 - 1) (unat (lan_time k) + (1000 * unat (fst ts) + unat (snd ts) div 1000000)) else unat (lan_time k))" for k :: lan and fd ts
    using u [of "unat (lan_time k) + (1000 * unat (fst ts) + unat (snd ts) div 1000000)"] by (simp add: lan_kernel_def)
  have mono: "unat (lan_time k) \<le> unat (lan_time k')" if "system_call lan_kernel c k k'" for c and k k' :: lan
    using that
  proof (cases rule: system_call.cases)
    case (ppoll fd ts r)
    then show ?thesis using poll [of k fd ts] unsigned_less [of "lan_time k", where ?'a = nat] by (auto split: if_splits)
  next
    case (sendmsg fd a parts control r)
    then show ?thesis by (auto simp: lan_kernel_def sends split: if_splits)
  next
    case (recv fd n dat)
    then show ?thesis by (auto simp: lan_kernel_def split: if_splits list.splits)
  qed (simp_all add: lan_kernel_def)
  have "keeps_time (lan_kernel :: lan kernel_api) (\<lambda>k. unat (lan_time k))" using mono now by (simp add: keeps_time_def)
  moreover have "waits_out (lan_kernel :: lan kernel_api) (\<lambda>k. unat (lan_time k))" unfolding waits_out_def poll by (simp add: lan_kernel_def)
  moreover have "small_random (lan_kernel :: lan kernel_api)" by (simp add: small_random_def lan_kernel_def kTimeoutSpan_def)
  ultimately show ?thesis by (simp add: time_runs_def)
qed


end
