(* ===== verification/Dhcp_Losses.thy ===== *)
theory Dhcp_Losses
  imports Dhcp_Network
begin

text \<open>
  The client on a network that loses messages. The contract is the locale \<open>lossy_client\<close>: a message of the
  client is answered, or it is lost (the message itself or the answer to it), and only so many can still be
  lost. A measure on the kernel's losses and the client's state decreases with every turn until the
  client is bound; so it gets a lease from whatever state it is in. The contract is met by the
  network of the repository's server with any finite pattern of losses.
\<close>

section \<open>A network that loses messages\<close>

locale lossy_client = client_queue K inbox fd L
  for K :: "'k kernel_api" and inbox :: "'k \<Rightarrow> bytes list" and fd :: int and L :: lease_terms +
  fixes losses :: "'k \<Rightarrow> nat"
  assumes exchange: "leaves K fd t m k k' \<Longrightarrow>
      (inbox k' = inbox k \<and> losses k' < losses k) \<or> (\<exists>dg. inbox k' = inbox k @ [dg] \<and> replies L (answer_type t) m dg)"
    and spent: "system_call K call k k' \<Longrightarrow> losses k' \<le> losses k"

text \<open>
  How far a client is from the bound state when nothing more is lost; a state whose messages may already
  have been lost counts more than the one it falls back to.
\<close>

definition distance :: "client \<Rightarrow> nat" where
  "distance c = (case mState c of Init \<Rightarrow> 3 | Selecting \<Rightarrow> 2 | Requesting \<Rightarrow> if mNextTimeout c = kNoTimeout then 1 else 4
     | Bound \<Rightarrow> 0 | Renewing \<Rightarrow> 6 | Rebinding \<Rightarrow> if mNextTimeout c = kNoTimeout then 5 else 4)"

lemma distance_simps:
  "mState c = Init \<Longrightarrow> distance c = 3" "mState c = Selecting \<Longrightarrow> distance c = 2" "mState c = Renewing \<Longrightarrow> distance c = 6"
  "mState c = Requesting \<Longrightarrow> distance c = (if mNextTimeout c = kNoTimeout then 1 else 4)" "mState c = Bound \<Longrightarrow> distance c = 0"
  "mState c = Rebinding \<Longrightarrow> distance c = (if mNextTimeout c = kNoTimeout then 5 else 4)"
  by (simp_all add: distance_def)

lemma distance_moved [simp]:
  "distance (setNextState Init c) = 3" "distance (setNextState Selecting c) = 2" "distance (setNextState Rebinding c) = 5"
  by (simp_all add: distance_def setNextState_def)

lemma distance_le: "distance c \<le> 6"
  by (simp add: distance_def split: client_state.split)

context lossy_client
begin

lemma losses_via: "via K A k k' \<Longrightarrow> losses k' \<le> losses k"
  by (rule via_keeps [where P = "\<lambda>x. losses x \<le> losses k"]) (use spent le_trans in blast)+

text \<open>Every turn from a state that is not bound leads to the lease, or nearer to it.\<close>

definition nearer :: "'k \<times> client \<Rightarrow> 'k \<times> client \<Rightarrow> bool" where
  "nearer s s' \<longleftrightarrow> same_devices (snd s) (snd s') \<and> inbox (fst s') = [] \<and>
     4 * losses (fst s') + distance (snd s') < 4 * losses (fst s) + distance (snd s)"

definition advances :: "'k \<times> client \<Rightarrow> 'k \<times> client \<Rightarrow> bool" where
  "advances s s' \<longleftrightarrow> bound_to inbox L (snd s) s' \<or> nearer s s' \<and> mState (snd s') \<noteq> Bound"

lemma move_advances:
  assumes "run_state K (k, c) = Some (k1, setNextState st c)" and "via K A k k1" and "inbox k1 = []"
    and "distance (setNextState st c) < distance c" and "st \<noteq> Bound"
  shows "\<exists>s'. client_turn K (k, c) = Some s' \<and> advances (k, c) s'"
  using move_turn [OF assms(1)] losses_via [OF assms(2)] assms(3-5)
  by (intro exI [of _ "(k1, setNextState st c)"]) (simp add: advances_def nearer_def same_devices_def setNextState_def)

text \<open>After a lost message the client waits and comes back with a timeout set.\<close>

lemma lost_wait:
  assumes "client_of K fd c" and "inbox k1 = []" and "losses k1 < losses k" and "mState c \<noteq> Bound" and "mState c \<noteq> Init"
  shows "\<exists>s'. waitAndReceive K (k1, increaseTimeout (c\<lparr>mLastMsg := m, sNextTransactionId := x\<rparr>)) = Some s' \<and> advances (k, c) s'"
proof -
  let ?c = "increaseTimeout (c\<lparr>mLastMsg := m, sNextTransactionId := x\<rparr>)"
  have "mSocket ?c = fd" using assms(1) by (simp add: client_of_def)
  then obtain k' where k': "waitAndReceive K (k1, ?c) = Some (k', ?c)" "inbox k' = []"
    using wait_empty [of ?c k1] assms(2) by blast
  have "losses k' \<le> losses k1" using waitAndReceive_framed [OF k'(1)] by (auto simp: framed_def intro: losses_via)
  moreover have "distance ?c < distance c + 4"
    using assms(4,5) by (cases "mState c") (simp_all add: distance_simps increaseTimeout_nonzero)
  ultimately have "4 * losses k' + distance ?c < 4 * losses k + distance c" using assms(3) by linarith
  then show ?thesis using k' assms(4) by (intro exI [of _ "(k', ?c)"]) (simp add: advances_def nearer_def same_devices_def)
qed

lemma request_advances:
  assumes c: "client_of K fd c" and "inbox k = []" and a: "awaits_ack (mState c)" and "via K A k0 k"
  shows "\<exists>k1 c1 s'. map_option (\<lambda>(k, c). (k, increaseTimeout c)) (sendDhcpRequest K d (k, c)) = Some (k1, c1) \<and>
    waitAndReceive K (k1, c1) = Some s' \<and> advances (k0, c) s'"
proof -
  obtain k1 m where s: "sendDhcpRequest K d (k, c) = Some (k1, c\<lparr>mLastMsg := m, sNextTransactionId := sNextTransactionId c + 1\<rparr>)"
    "leaves K fd DHCPREQUEST m k k1"
    using requests_leave(1) [OF c, of d k] by blast
  have "losses k \<le> losses k0" by (rule losses_via [OF assms(4)])
  then consider (lost) "inbox k1 = []" "losses k1 < losses k0"
    | (answered) dg where "inbox k1 = [dg]" "replies L DHCPACK m dg"
    using exchange [OF s(2)] assms(2) unfolding answer_types by fastforce
  then have "\<exists>s'. waitAndReceive K (k1, increaseTimeout (c\<lparr>mLastMsg := m, sNextTransactionId := sNextTransactionId c + 1\<rparr>)) = Some s' \<and>
      advances (k0, c) s'"
  proof cases
    case lost
    then show ?thesis using a by (intro lost_wait [OF c]) (auto simp: awaits_ack_def)
  next
    case answered
    from ack_ends_wait [OF c a this, of "sNextTransactionId c + 1"] show ?thesis by (auto simp: advances_def)
  qed
  then show ?thesis using s(1) by simp
qed

lemma discover_advances:
  assumes c: "client_of K fd c" and "inbox k = []" and st: "mState c = Selecting"
  shows "\<exists>s'. client_turn K (k, c) = Some s' \<and> advances (k, c) s'"
proof -
  obtain k1 m where s: "sendDhcpDiscover K (k, c) = Some (k1, c\<lparr>mLastMsg := m, sNextTransactionId := sNextTransactionId c + 1\<rparr>)"
    "leaves K fd DHCPDISCOVER m k k1"
    using requests_leave(2) [OF c, of k] by blast
  let ?c = "increaseTimeout (c\<lparr>mLastMsg := m, sNextTransactionId := sNextTransactionId c + 1\<rparr>)"
  have run: "run_state K (k, c) = Some (k1, ?c)" using s(1) st by (simp add: run_state_def)
  consider (lost) "inbox k1 = []" "losses k1 < losses k"
    | (answered) dg where "inbox k1 = [dg]" "replies L DHCPOFFER m dg"
    using exchange [OF s(2)] assms(2) unfolding answer_types by fastforce
  then have "\<exists>s'. waitAndReceive K (k1, ?c) = Some s' \<and> advances (k, c) s'"
  proof cases
    case lost
    then show ?thesis using st by (intro lost_wait [OF c]) simp_all
  next
    case answered
    obtain k' c' where w: "waitAndReceive K (k1, ?c) = Some (k', c')" "inbox k' = []" "same_devices c c'"
      "mState c' = Requesting" "mNextTimeout c' = kNoTimeout"
      using offer_ends_wait [OF c st answered, of "sNextTransactionId c + 1"] by blast
    have "client_turn K (k, c) = Some (k', c')" using run w(1) by (simp add: client_turn_def)
    then have "losses k' \<le> losses k" using client_turn_framed(1) [of K "(k, c)" "(k', c')"] by (auto simp: framed_def intro: losses_via)
    then show ?thesis using w st by (intro exI [of _ "(k', c')"]) (simp add: advances_def nearer_def distance_simps)
  qed
  then show ?thesis using run by (simp add: client_turn_def)
qed

lemma turn_advances:
  assumes c: "client_of K fd c" and k: "inbox k = []" and "mState c \<noteq> Bound"
  shows "\<exists>s'. client_turn K (k, c) = Some s' \<and> advances (k, c) s'"
proof (cases "mState c")
  case Init
  then have "run_state K (k, c) = Some (k, setNextState Selecting c)" by (simp add: run_state_def)
  from move_advances [OF this via_refl k] show ?thesis using Init by (simp add: distance_simps)
next
  case Selecting
  then show ?thesis by (rule discover_advances [OF c k])
next
  case Renewing
  obtain k1 b where e: "expired K k (mT2 c) = (k1, b)" by (cases "expired K k (mT2 c)")
  then have k1: "inbox k1 = []" "via K {Clock_Read} k k1"
    using inbox_clock(1) [of k "mT2 c"] k timer_via(1) [OF via_refl, of "{Clock_Read}" K k "mT2 c"] by auto
  show ?thesis
  proof (cases b)
    case True
    then have "run_state K (k, c) = Some (k1, setNextState Rebinding c)" using Renewing e by (simp add: run_state_def)
    from move_advances [OF this k1(2,1)] show ?thesis using Renewing by (simp add: distance_simps)
  next
    case False
    then show ?thesis using request_advances [OF c k1(1) _ k1(2), of "mServerAddress c"] Renewing e
      by (auto simp: client_turn_def run_state_def awaits_ack_def)
  qed
next
  case Requesting
  show ?thesis
  proof (cases "kMaxTimeout \<le> mNextTimeout c")
    case True
    then have "run_state K (k, c) = Some (k, setNextState Init c)" and t: "mNextTimeout c \<noteq> kNoTimeout"
      using Requesting by (auto simp: run_state_def kMaxTimeout_def kNoTimeout_def)
    from move_advances [OF this(1) via_refl k] show ?thesis using Requesting t by (simp add: distance_simps)
  next
    case False
    then show ?thesis using request_advances [OF c k _ via_refl, of "mServerAddress c"] Requesting
      by (auto simp: client_turn_def run_state_def awaits_ack_def)
  qed
next
  case Rebinding
  show ?thesis
  proof (cases "kMaxTimeout \<le> mNextTimeout c")
    case True
    then have "run_state K (k, c) = Some (k, setNextState Init c)" and t: "mNextTimeout c \<noteq> kNoTimeout"
      using Rebinding by (auto simp: run_state_def kMaxTimeout_def kNoTimeout_def)
    from move_advances [OF this(1) via_refl k] show ?thesis using Rebinding t by (simp add: distance_simps)
  next
    case False
    then show ?thesis using request_advances [OF c k _ via_refl, of "0xFFFFFFFF"] Rebinding
      by (auto simp: client_turn_def run_state_def awaits_ack_def)
  qed
qed (use assms(3) in simp)

lemma recovers:
  assumes "client_of K fd c" and "inbox k = []" and "mState c \<noteq> Bound"
  shows "\<exists>n s'. n \<le> 4 * losses k + distance c \<and> client_turns n K (k, c) = Some s' \<and> bound_to inbox L c s'"
  using assms
proof (induction "4 * losses k + distance c" arbitrary: k c rule: less_induct)
  case less
  obtain k1 c1 where t: "client_turn K (k, c) = Some (k1, c1)" "advances (k, c) (k1, c1)"
    using turn_advances [OF less.prems] by auto
  show ?case
  proof (cases "bound_to inbox L c (k1, c1)")
    case True
    have "0 < distance c" using less.prems(3) by (cases "mState c") (simp_all add: distance_simps)
    then show ?thesis using t(1) True by (intro exI [of _ 1] exI [of _ "(k1, c1)"]) simp
  next
    case False
    then have n: "same_devices c c1" "inbox k1 = []" "4 * losses k1 + distance c1 < 4 * losses k + distance c" "mState c1 \<noteq> Bound"
      using t(2) by (simp_all add: advances_def nearer_def)
    then obtain n s' where r: "n \<le> 4 * losses k1 + distance c1" "client_turns n K (k1, c1) = Some s'" "bound_to inbox L c1 s'"
      using less.hyps [OF n(3) client_of_same [OF less.prems(1) n(1)] n(2,4)] by blast
    have "bound_to inbox L c s'" using r(3) same_devices_trans [OF n(1)] by (simp add: bound_to_def)
    then show ?thesis using t(1) r(1,2) n(3) by (intro exI [of _ "Suc n"] exI [of _ s']) simp
  qed
qed

end

section \<open>The repository's server behind a network that loses messages\<close>

text \<open>The pattern of losses: \<open>True\<close> for a message that is lost; behind its end every message arrives.\<close>

record lossy_lan = lan +
  lan_drops :: "bool list"

definition lossy_sends :: "lossy_lan \<Rightarrow> bytes list \<Rightarrow> lossy_lan" where
  "lossy_sends k parts =
     (case lan_drops k of
        [] \<Rightarrow> lan_sends k parts
      | lost # rest \<Rightarrow> if lost then k\<lparr>lan_drops := rest\<rparr> else lan_sends (k\<lparr>lan_drops := rest\<rparr>) parts)"

definition lossy_kernel :: "lossy_lan kernel_api" where
  "lossy_kernel = lan_kernel\<lparr>k_sendmsg := \<lambda>k fd _ parts _. (if fd = 5 then lossy_sends k parts else k, 1)\<rparr>"

definition drops_left :: "lossy_lan \<Rightarrow> nat" where
  "drops_left k = length (filter id (lan_drops k))"

lemma lan_sends_drops [simp]: "lan_drops (lan_sends k parts) = lan_drops k"
  by (simp add: lan_sends_def Let_def split: option.split prod.split)

lemma lossy_sends_cases:
  "lan_inbox (lossy_sends k parts) = lan_inbox k \<and> drops_left (lossy_sends k parts) < drops_left k \<or>
   (\<exists>k1. lan_inbox k1 = lan_inbox k \<and> lossy_sends k parts = lan_sends k1 parts \<and> drops_left k1 = drops_left k)"
proof (cases "lan_drops k")
  case (Cons lost rest)
  then show ?thesis
  proof (cases lost)
    case False
    let ?k1 = "k\<lparr>lan_drops := rest\<rparr>"
    have "lossy_sends k parts = lan_sends ?k1 parts" "drops_left ?k1 = drops_left k"
      using Cons False by (simp_all add: lossy_sends_def drops_left_def)
    then show ?thesis by (intro disjI2 exI [of _ ?k1]) simp
  qed (simp add: lossy_sends_def drops_left_def Cons)
qed (auto simp: lossy_sends_def)

lemma lossy_sends_drops: "drops_left (lossy_sends k parts) \<le> drops_left k"
  by (auto simp: lossy_sends_def drops_left_def split: list.split)

interpretation lossy_lan_client: lossy_client lossy_kernel lan_inbox 5 lan_terms drops_left
proof unfold_locales
  show "lan_inbox k' = lan_inbox k" if "system_call lossy_kernel call k k'" "call \<noteq> Sent_Datagram 5" "call \<noteq> Received 5" for call k k'
    using that by (cases rule: system_call.cases) (auto simp: lossy_kernel_def lan_kernel_def split: if_splits)
  show "snd (k_ppoll lossy_kernel k 5 ts) = 0" if "lan_inbox k = []" for k ts
    using that by (simp add: lossy_kernel_def lan_kernel_def)
  show "0 < snd (k_ppoll lossy_kernel k 5 ts)" if "lan_inbox k \<noteq> []" for k ts
    using that by (simp add: lossy_kernel_def lan_kernel_def)
  show "\<exists>k'. k_recv lossy_kernel k 5 (20 + 8 + DHCP_SIZE) = (k', Some dg) \<and> lan_inbox k' = rest" if "lan_inbox k = dg # rest" for k dg rest
    using that by (simp add: lossy_kernel_def lan_kernel_def)
  show "di_leaseTime (lt_info lan_terms) \<noteq> 0" using lease_nonzero by (simp add: own_terms_def)
  show "lan_inbox k' = lan_inbox k \<and> drops_left k' < drops_left k \<or>
      (\<exists>dg. lan_inbox k' = lan_inbox k @ [dg] \<and> replies lan_terms (answer_type t) m dg)"
    if out: "leaves lossy_kernel 5 t m k k'" for t m k k'
  proof -
    obtain d os dat a where l: "asks t d os" "m = built d (options_area os)" "message_bytes m = Some dat"
      "k' = fst (k_sendmsg lossy_kernel k 5 a (sent_parts m dat) [])"
      using out unfolding leaves_def by blast
    then have l: "asks t d os" "m = built d (options_area os)" "message_bytes (built d (options_area os)) = Some dat"
      "k' = lossy_sends k (sent_parts (built d (options_area os)) dat)"
      by (simp_all add: lossy_kernel_def)
    from lossy_sends_cases [of k "sent_parts (built d (options_area os)) dat"] show ?thesis
    proof
      assume "\<exists>k1. lan_inbox k1 = lan_inbox k \<and> lossy_sends k (sent_parts (built d (options_area os)) dat) =
          lan_sends k1 (sent_parts (built d (options_area os)) dat) \<and> drops_left k1 = drops_left k"
      then obtain k1 where "lan_inbox k1 = lan_inbox k" "k' = lan_sends k1 (sent_parts (built d (options_area os)) dat)"
        using l(4) by auto
      then show ?thesis using lan_answers [OF l(1,3), of k1] l(2) by auto
    qed (use l(4) in simp)
  qed
  show "drops_left k' \<le> drops_left k" if "system_call lossy_kernel call k k'" for call k k'
    using that lossy_sends_drops
    by (cases rule: system_call.cases) (auto simp: lossy_kernel_def lan_kernel_def drops_left_def split: if_splits list.splits)
qed

section \<open>The property\<close>


definition lossy_start :: lossy_lan where
  "lossy_start = \<lparr>lan_inbox = [], lan_tid = 1, lan_time = 0, lan_drops = [True, False, True, True, True, True, True]\<rparr>"


end
