(* ===== verification/Dhcp_Main.thy ===== *)
theory Dhcp_Main
  imports Dhcp_Network
begin

text \<open>
  The program around the client: the arguments and the start of \<open>main\<close> (\<open>dhcp/client/main.cpp\<close>),
  the end of the client object, and \<open>addrToStr\<close> of \<open>dhcp/common/utils.cpp\<close>. Messages of usage and
  errors are left out.
\<close>

text \<open>The loop over the arguments: interface name and options, or \<open>None\<close> where \<open>main\<close> returns 1.\<close>

fun parse_args :: "string list \<Rightarrow> string option \<Rightarrow> u32 \<Rightarrow> (string option \<times> u32) option" where
  "parse_args [] interfaceName options = Some (interfaceName, options)"
| "parse_args (arg # args) interfaceName options =
     (if strcmp_eq arg ''-i'' then
        (case args of [] \<Rightarrow> None | name # args \<Rightarrow> parse_args args (Some name) options)
      else if strcmp_eq arg ''--no-gateway'' then parse_args args interfaceName (options OR NoGateway)
      else None)"

text \<open>The members are destroyed in the reverse order of their declaration.\<close>

definition client_destroy :: "'k kernel_api \<Rightarrow> 'k \<times> client \<Rightarrow> 'k" where
  "client_destroy K s =
     (case s of (k, c) \<Rightarrow> router_destroy K (interface_destroy K (sock_destroy K k (mSocket c), mInterface c), mRouter c))"

text \<open>\<open>argv\<close> without the program's name. \<open>Inl\<close> is the exit code, \<open>Inr\<close> the client that \<open>run\<close> takes over.\<close>

definition client_main ::
    "'k kernel_api \<Rightarrow> client \<Rightarrow> string list \<Rightarrow> 'k \<Rightarrow> ('k \<times> (int + client)) option" where
  "client_main K old args k =
     (if length args + 1 < 3 then Some (k, Inl 1)
      else case parse_args args None 0 of
             None \<Rightarrow> Some (k, Inl 1)
           | Some (None, options) \<Rightarrow> Some (k, Inl 1)
           | Some (Some interfaceName, options) \<Rightarrow>
               map_option (\<lambda>((k, c), res). if isSuccess res then (k, Inr c) else (client_destroy K (k, c), Inl 1))
                 (client_init K interfaceName (k, client_new old options)))"

text \<open>The whole of \<open>main\<close>: the exit code, or \<open>None\<close> where the program runs for ever (or faults).\<close>

definition dhcp_main ::
    "'k kernel_api \<Rightarrow> int \<times> int \<Rightarrow> client \<Rightarrow> string list \<Rightarrow> 'k \<Rightarrow> ('k \<times> int) option" where
  "dhcp_main K signals old args k =
     Option.bind (client_main K old args k) (\<lambda>(k, start).
       case start of
         Inl code \<Rightarrow> Some (k, code)
       | Inr c \<Rightarrow> map_option (\<lambda>(s, res). (client_destroy K s, if isSuccess res then 0 else 1)) (client_run signals K (k, c)))"

definition addrToStr :: "u32 \<Rightarrow> string" where
  "addrToStr address = client_addrToStr address"

text \<open>The text of an address always fits the buffer of sixteen characters.\<close>

lemma decimal_byte: "n < 256 \<Longrightarrow> length (decimal n) \<le> 3"
proof -
  assume "n < 256"
  then have "n div 10 div 10 < 10" by simp
  then show ?thesis by (subst decimal.simps, subst decimal.simps, subst decimal.simps) simp
qed

lemma addrToStr_fits: "length (addrToStr address) < 16"
proof -
  obtain a b c d where e: "enc32 address = [a, b, c, d]"
    using enc_length(2) [of address] by (auto simp: length_Suc_conv eval_nat_numeral simp del: enc_length)
  have "length (decimal (unat x)) \<le> 3" for x :: u8 by (rule decimal_byte [OF byte_lt])
  from this [of a] this [of b] this [of c] this [of d] show ?thesis
    by (simp add: addrToStr_def client_addrToStr_def e)
qed

section \<open>Exit codes\<close>

text \<open>A client that starts has been given an interface and has opened its three descriptors.\<close>

lemma sockets_opened:
  "sock_open K d t p (k, fd) = ((k', fd'), Success) \<Longrightarrow> fd' \<noteq> -1"
  "bindRaw K i (k, fd) = ((k', fd'), r) \<Longrightarrow> fd' = fd"
  "router_init K (k, r0) = ((k', fd'), Success) \<Longrightarrow> fd' \<noteq> -1"
  by (auto simp: sock_open_def bindRaw_def sock_bind_def router_init_def split: if_splits prod.splits)

lemma interface_opened:
  assumes "interface_init K name (k, i) = Some ((k', i'), Success)"
  shows "mIfaceFd i' \<noteq> -1 \<and> mInterfaceName i' = c_str name"
proof -
  have u: "i1 = i0" if "setInterfaceUp K b (k, i0) = ((k', i1), r)" for k i0 b k' i1 r
    using interface_via(1) [OF that subset_UNIV] by blast
  have a: "i1 = i0" if "setAddress K x y (k, i0) = Some ((k', i1), r)" for k i0 x y k' i1 r
    using interface_via(3) [OF that subset_UNIV] by blast
  have p: "mIfaceFd i1 = mIfaceFd i0 \<and> mInterfaceName i1 = mInterfaceName i0"
    if "populateIndex K (k, i0) = ((k', i1), r) \<or> populateMacAddress K (k, i0) = ((k', i1), r)" for k i0 k' i1 r
    using that by (auto simp: populateIndex_def populateMacAddress_def split: prod.splits option.splits)
  let ?i = "i\<lparr>mInterfaceName := c_str name\<rparr>"
  obtain k1 fd where fd: "k_socket K k 16 (3 + 0x80000) 0 = (k1, fd)" by (cases "k_socket K k 16 (3 + 0x80000) 0")
  have e: "mIfaceFd i = -1" "fd \<noteq> -1"
    using assms fd by (auto simp: interface_init_def Let_def split: if_splits)
  let ?i1 = "?i\<lparr>mIfaceFd := fd\<rparr>"
  have r: "or_return_opt (Some (populateIndex K (k1, ?i1))) (\<lambda>s. or_return_opt (Some (populateMacAddress K s)) (\<lambda>s.
      or_return_opt (Some (bringUp K s)) (setAddress K 0 0))) = Some ((k', i'), Success)"
    using assms fd e by (simp add: interface_init_def Let_def)
  obtain k2 i2 r2 where p2: "populateIndex K (k1, ?i1) = ((k2, i2), r2)" by (metis prod.exhaust)
  obtain k3 i3 r3 where p3: "populateMacAddress K (k2, i2) = ((k3, i3), r3)" by (metis prod.exhaust)
  obtain k4 i4 r4 where p4: "setInterfaceUp K True (k3, i3) = ((k4, i4), r4)" by (metis prod.exhaust)
  have "setAddress K 0 0 (k4, i4) = Some ((k', i'), Success)"
    using r by (auto simp: or_return_opt_def p2 p3 p4 bringUp_def isSuccess_def split: if_splits)
  from a [OF this] u [OF p4] p [of k2 i2 k3 i3 r3] p [of k1 ?i1 k2 i2 r2] p2 p3 e(2) show ?thesis by simp
qed

lemma client_init_opened:
  assumes "client_init K name (k, client_new old options) = Some ((k', c), res)" and "isSuccess res"
  shows "mState c = Init \<and> mOptions c = options \<and> mInterfaceName (mInterface c) = c_str name \<and>
    mIfaceFd (mInterface c) \<noteq> -1 \<and> mRouter c \<noteq> -1 \<and> mSocket c \<noteq> -1"
proof -
  let ?c = "client_new old options"
  obtain k1 i1 where i: "interface_init K name (k, mInterface ?c) = Some ((k1, i1), Success)"
    using assms by (auto simp: client_init_def or_return_opt_def on_interface_opt_def bind_eq_Some_conv isSuccess_def split: if_splits)
  obtain k2 fd2 r2 where r: "router_init K (k1, mRouter ?c) = ((k2, fd2), r2)" by (metis prod.exhaust)
  obtain k3 fd3 r3 where s: "sock_open K 17 2 (int (unat (htons ETH_P_IP))) (k2, mSocket ?c) = ((k3, fd3), r3)" by (metis prod.exhaust)
  obtain k4 fd4 r4 where b: "bindRaw K (mIndex i1) (k3, fd3) = ((k4, fd4), r4)" by (metis prod.exhaust)
  have "r2 = Success \<and> r3 = Success \<and> c = ?c\<lparr>mInterface := i1, mRouter := fd2, mSocket := fd4\<rparr>"
    using assms i r s b
    by (auto simp: client_init_def or_return_opt_def on_interface_opt_def on_router_def on_socket_def or_return_def isSuccess_def
        split: if_splits)
  then show ?thesis
    using interface_opened [OF i] sockets_opened(3) [of K k1 "mRouter ?c" k2 fd2] r sockets_opened(1) [of K 17 2 _ k2 "mSocket ?c" k3 fd3] s
      sockets_opened(2) [OF b] by (auto simp: client_new_def)
qed


end
